(* ===== verification/Prelude.thy ===== *)
theory Prelude
  imports Main "HOL-Library.AList"
begin

text \<open>
  What every component of the development shares: the theorem collections its proofs use,
  Go's maps and slices as HOL values, and generic facts on lists, maps and folds.

  A Go map with string keys is an optional association list: \<open>None\<close> is the nil map, and
  the order of the list is the order in which one traversal of the map visits its keys. Go
  leaves that order open, so a definition that ranges over a map takes the list as it is and
  a theorem about it holds for every order.
\<close>

named_theorems frame_facts \<open>what an operation leaves unchanged\<close>

section \<open>Go maps\<close>

type_synonym 'v gomap = "(string \<times> 'v) list option"

definition entries :: "'v gomap \<Rightarrow> (string \<times> 'v) list" where
  "entries m = (case m of None \<Rightarrow> [] | Some es \<Rightarrow> es)"

definition mget :: "'v gomap \<Rightarrow> string \<Rightarrow> 'v option" where
  \<comment> \<open>the comma-ok read \<open>v, ok := m[k]\<close>\<close>
  "mget m k = map_of (entries m) k"

definition mread :: "string gomap \<Rightarrow> string \<Rightarrow> string" where
  \<comment> \<open>the plain read \<open>m[k]\<close>, the empty string when the key is absent\<close>
  "mread m k = (case mget m k of None \<Rightarrow> [] | Some v \<Rightarrow> v)"

definition wf_gomap :: "'v gomap \<Rightarrow> bool" where
  \<comment> \<open>no key twice: what every Go map satisfies\<close>
  "wf_gomap m = distinct (map fst (entries m))"

lemma entries_simps [simp]:
  "entries None = []"
  "entries (Some es) = es"
  by (simp_all add: entries_def)

lemma mget_simps [simp]:
  "mget None k = None"
  "mget (Some es) k = map_of es k"
  by (simp_all add: mget_def)

lemma mread_present [simp]: "mget m k = Some v \<Longrightarrow> mread m k = v"
  by (simp add: mread_def)

lemma mread_absent [simp]: "mget m k = None \<Longrightarrow> mread m k = []"
  by (simp add: mread_def)

section \<open>Lists\<close>

lemma length_filter_partition:
  "length (filter P xs) + length (filter (\<lambda>x. \<not> P x) xs) = length xs"
  by (rule sum_length_filter_compl)

lemma map_of_perm:
  assumes "distinct (map fst xs)" and "distinct (map fst ys)" and "set xs = set ys"
  shows "map_of xs = map_of ys"
  using assms by (metis map_of_inject_set)

text \<open>Inserting the entries of a map one by one.\<close>

lemma update_new: "k \<notin> fst ` set es \<Longrightarrow> AList.update k v es = es @ [(k, v)]"
  by (induction es) auto

lemma insert_entries:
  "distinct (map fst (es @ fs)) \<Longrightarrow> fold (\<lambda>(k, v) m. AList.update k v m) fs es = es @ fs"
proof (induction fs arbitrary: es)
  case (Cons f fs)
  obtain k v where f: "f = (k, v)" by (cases f)
  have "AList.update k v es = es @ [(k, v)]"
    using Cons.prems f by (intro update_new) auto
  then show ?case using Cons.IH [of "es @ [(k, v)]"] Cons.prems f by simp
qed simp

text \<open>A run of elements of one class, ended by something outside it, is found by
  \<open>takeWhile\<close>: what the scanner of a regular expression needs of a greedy class.\<close>

lemma takeWhile_run:
  "\<forall>c\<in>set xs. P c \<Longrightarrow> (ys = [] \<or> \<not> P (hd ys)) \<Longrightarrow> takeWhile P (xs @ ys) = xs"
  by (cases ys) auto

lemma dropWhile_run:
  "\<forall>c\<in>set xs. P c \<Longrightarrow> (ys = [] \<or> \<not> P (hd ys)) \<Longrightarrow> dropWhile P (xs @ ys) = ys"
  by (cases ys) auto

text \<open>Removing a literal prefix: \<open>strings.TrimPrefix\<close> under a successful
  \<open>strings.HasPrefix\<close>, or the literal pieces of a regular expression.\<close>

fun strip_lit :: "string \<Rightarrow> string \<Rightarrow> string option" where
  "strip_lit [] s = Some s"
| "strip_lit (_ # _) [] = None"
| "strip_lit (p # ps) (c # cs) = (if p = c then strip_lit ps cs else None)"

lemma strip_lit_Some [simp]: "strip_lit p s = Some r \<longleftrightarrow> s = p @ r"
  by (induction p s rule: strip_lit.induct) auto

lemma strip_lit_append [simp]: "strip_lit p (p @ r) = Some r"
  by simp

end
