(* ===== verification/GoStrings.thy ===== *)
theory GoStrings
  imports Prelude
begin

text \<open>
  The parts of Go's \<open>strings\<close>, \<open>strconv\<close> and \<open>fmt\<close> packages the source uses. A Go string
  is a sequence of bytes, and so is a HOL \<open>string\<close>: \<open>char\<close> has 256 values. Decimal numbers
  (\<open>%d\<close>), slices of strings (\<open>%v\<close>), quoted strings (\<open>%q\<close>), \<open>strings.Split\<close> on one
  character, \<open>strings.Join\<close> and \<open>strings.HasPrefix\<close> are functions here. The table of
  printable code points behind \<open>%q\<close> is the one thing left as an argument.
\<close>

section \<open>Decimal numbers\<close>

definition digit :: "int \<Rightarrow> char" where
  "digit d = char_of (48 + d)"

function dec :: "int \<Rightarrow> string" where
  \<comment> \<open>\<open>%d\<close> of a number that is not negative\<close>
  "dec n = (if n < 10 then [digit n] else dec (n div 10) @ [digit (n mod 10)])"
  by pat_completeness auto
termination
  by (relation "measure nat") auto

declare dec.simps [simp del]

definition digit_val :: "char \<Rightarrow> int" where
  "digit_val c = of_char c - 48"

definition is_digit :: "char \<Rightarrow> bool" where
  "is_digit c \<longleftrightarrow> 48 \<le> (of_char c :: int) \<and> (of_char c :: int) \<le> 57"

fun undec :: "int \<Rightarrow> string \<Rightarrow> int" where
  "undec a [] = a"
| "undec a (c # cs) = undec (a * 10 + digit_val c) cs"

lemma of_char_digit [simp]: "0 \<le> d \<Longrightarrow> d < 10 \<Longrightarrow> (of_char (digit d) :: int) = 48 + d"
  by (simp add: digit_def)

lemma digit_val_digit [simp]: "0 \<le> d \<Longrightarrow> d < 10 \<Longrightarrow> digit_val (digit d) = d"
  by (simp add: digit_val_def)

lemma is_digit_digit [simp]: "0 \<le> d \<Longrightarrow> d < 10 \<Longrightarrow> is_digit (digit d)"
  by (simp add: is_digit_def)

lemma undec_append [simp]: "undec a (xs @ ys) = undec (undec a xs) ys"
  by (induction xs arbitrary: a) auto

lemma undec_dec [simp]: "0 \<le> n \<Longrightarrow> undec 0 (dec n) = n"
proof (induction n rule: dec.induct)
  case (1 n)
  show ?case
  proof (cases "n < 10")
    case True
    with "1.prems" show ?thesis by (subst dec.simps) simp
  next
    case False
    with 1 have "undec 0 (dec (n div 10)) = n div 10" by simp
    with False show ?thesis by (subst dec.simps) simp
  qed
qed

lemma dec_inject [simp]: "0 \<le> m \<Longrightarrow> 0 \<le> n \<Longrightarrow> dec m = dec n \<longleftrightarrow> m = n"
  by (metis undec_dec)

lemma dec_digits: "0 \<le> n \<Longrightarrow> c \<in> set (dec n) \<Longrightarrow> is_digit c"
proof (induction n rule: dec.induct)
  case (1 n)
  then show ?case
    by (cases "n < 10") (auto simp: dec.simps [of n])
qed

lemma dec_nonempty [simp]: "dec n \<noteq> []"
  by (subst dec.simps) simp

text \<open>A number followed by a character that is no digit reads back uniquely.\<close>

lemma dec_delimited:
  assumes "\<not> is_digit d" and "0 \<le> m" and "0 \<le> n" and "dec m @ d # xs = dec n @ d # ys"
  shows "m = n \<and> xs = ys"
proof -
  have run: "takeWhile is_digit (dec k @ d # zs) = dec k" if "0 \<le> k" for k zs
    using assms(1) that dec_digits by (intro takeWhile_run) auto
  have "dec m = dec n"
    using run [of m xs] run [of n ys] assms(2-4) by metis
  then show ?thesis using assms(2-4) by simp
qed

section \<open>Split and join\<close>

fun split_on :: "char \<Rightarrow> string \<Rightarrow> string list" where
  "split_on d [] = [[]]"
| "split_on d (c # cs) =
     (if c = d then [] # split_on d cs
      else case split_on d cs of [] \<Rightarrow> [[c]] | l # ls \<Rightarrow> (c # l) # ls)"

fun join :: "string \<Rightarrow> string list \<Rightarrow> string" where
  "join sep [] = []"
| "join sep [x] = x"
| "join sep (x # y # ys) = x @ sep @ join sep (y # ys)"

lemma split_on_nonempty [simp]: "split_on d s \<noteq> []"
  by (cases s) (auto split: list.splits)

lemma join_Cons: "ys \<noteq> [] \<Longrightarrow> join sep (x # ys) = x @ sep @ join sep ys"
  by (cases ys) auto

lemma join_split [simp]: "join [d] (split_on d s) = s"
proof (induction s)
  case Nil
  then show ?case by simp
next
  case (Cons c cs)
  show ?case
  proof (cases "split_on d cs")
    case Nil
    then show ?thesis by simp
  next
    case (Cons l ls)
    with Cons.IH show ?thesis by (cases ls) (auto simp: join_Cons)
  qed
qed

lemma split_on_no_sep: "l \<in> set (split_on d s) \<Longrightarrow> d \<notin> set l"
proof (induction s arbitrary: l)
  case Nil
  then show ?case by simp
next
  case (Cons c cs)
  then show ?case
    by (cases "split_on d cs") (auto split: if_splits)
qed

lemma split_on_atom: "d \<notin> set l \<Longrightarrow> split_on d l = [l]"
  by (induction l) auto

lemma split_on_append:
  "d \<notin> set l \<Longrightarrow> split_on d (l @ d # s) = l # split_on d s"
  by (induction l) auto

lemma split_join:
  "ls \<noteq> [] \<Longrightarrow> (\<forall>l\<in>set ls. d \<notin> set l) \<Longrightarrow> split_on d (join [d] ls) = ls"
proof (induction "[d]" ls rule: join.induct)
  case 1
  then show ?case by simp
next
  case (2 x)
  then show ?case by (simp add: split_on_atom)
next
  case (3 x y ys)
  then show ?case by (simp add: split_on_append)
qed

definition has_prefix :: "string \<Rightarrow> string \<Rightarrow> bool" where
  "has_prefix s p = (take (length p) s = p)"

definition trim_prefix :: "string \<Rightarrow> string \<Rightarrow> string" where
  "trim_prefix s p = (if has_prefix s p then drop (length p) s else s)"

lemma has_prefix_append [simp]: "has_prefix (p @ s) p"
  by (simp add: has_prefix_def)

lemma trim_prefix_append [simp]: "trim_prefix (p @ s) p = s"
  by (simp add: trim_prefix_def)

section \<open>Formatting verbs\<close>

definition fmt_strings :: "string list \<Rightarrow> string" where
  \<comment> \<open>\<open>%v\<close> of a slice of strings\<close>
  "fmt_strings xs = ''['' @ join '' '' xs @ '']''"

definition hex_digit :: "nat \<Rightarrow> char" where
  "hex_digit d = (if d < 10 then char_of (48 + d) else char_of (87 + d))"

fun hex :: "nat \<Rightarrow> nat \<Rightarrow> string" where
  \<comment> \<open>\<open>w\<close> lower-case hexadecimal digits\<close>
  "hex 0 n = []"
| "hex (Suc w) n = hex w (n div 16) @ [hex_digit (n mod 16)]"

definition continuation :: "nat \<Rightarrow> bool" where
  "continuation b \<longleftrightarrow> 128 \<le> b \<and> b \<le> 191"

fun rune2 :: "nat \<Rightarrow> nat \<Rightarrow> (nat \<times> nat) option" where
  "rune2 a b = (if continuation b then Some ((a - 192) * 64 + (b - 128), 2) else None)"

fun rune3 :: "nat \<Rightarrow> nat \<Rightarrow> nat \<Rightarrow> (nat \<times> nat) option" where
  "rune3 a b c =
     (if (if a = 224 then 160 else 128) \<le> b \<and> b \<le> (if a = 237 then 159 else 191) \<and> continuation c
      then Some ((a - 224) * 4096 + (b - 128) * 64 + (c - 128), 3) else None)"

fun rune4 :: "nat \<Rightarrow> nat \<Rightarrow> nat \<Rightarrow> nat \<Rightarrow> (nat \<times> nat) option" where
  "rune4 a b c d =
     (if (if a = 240 then 144 else 128) \<le> b \<and> b \<le> (if a = 244 then 143 else 191)
         \<and> continuation c \<and> continuation d
      then Some ((a - 240) * 262144 + (b - 128) * 4096 + (c - 128) * 64 + (d - 128), 4)
      else None)"

definition decode_rune :: "string \<Rightarrow> (nat \<times> nat) option" where
  \<comment> \<open>\<open>utf8.DecodeRuneInString\<close>: the first code point and its width in bytes; \<open>None\<close> for the
     empty string and for an invalid encoding (\<open>RuneError\<close>)\<close>
  "decode_rune s =
     (case map of_char s of
        [] \<Rightarrow> None
      | a # rest \<Rightarrow>
          if a < 128 then Some (a, 1)
          else if 194 \<le> a \<and> a \<le> 223 then
            (case rest of b # _ \<Rightarrow> rune2 a b | _ \<Rightarrow> None)
          else if 224 \<le> a \<and> a \<le> 239 then
            (case rest of b # c # _ \<Rightarrow> rune3 a b c | _ \<Rightarrow> None)
          else if 240 \<le> a \<and> a \<le> 244 then
            (case rest of b # c # d # _ \<Rightarrow> rune4 a b c d | _ \<Rightarrow> None)
          else None)"

lemma decode_rune_width: "decode_rune s = Some (r, w) \<Longrightarrow> 0 < w \<and> w \<le> length s"
  by (auto simp: decode_rune_def split: list.splits if_splits)

definition backslash :: char where
  "backslash = char_of (92 :: nat)"

definition dquote :: char where
  "dquote = char_of (34 :: nat)"

definition quote_ascii :: "nat \<Rightarrow> string" where
  "quote_ascii b =
     (if b = 34 \<or> b = 92 then [backslash, char_of b]
      else if 32 \<le> b \<and> b < 127 then [char_of b]
      else if b = 7 then backslash # ''a''
      else if b = 8 then backslash # ''b''
      else if b = 12 then backslash # ''f''
      else if b = 10 then backslash # ''n''
      else if b = 13 then backslash # ''r''
      else if b = 9 then backslash # ''t''
      else if b = 11 then backslash # ''v''
      else backslash # ''x'' @ hex 2 b)"

definition quote_rune :: "nat \<Rightarrow> string" where
  "quote_rune r = (if r < 65536 then backslash # ''u'' @ hex 4 r else backslash # ''U'' @ hex 8 r)"

function quote_body :: "(nat \<Rightarrow> bool) \<Rightarrow> string \<Rightarrow> string" where
  "quote_body printable [] = []"
| "quote_body printable (c # cs) =
     (if (of_char c :: nat) < 128 then quote_ascii (of_char c) @ quote_body printable cs
      else case decode_rune (c # cs) of
             None \<Rightarrow> backslash # ''x'' @ hex 2 (of_char c) @ quote_body printable cs
           | Some (r, w) \<Rightarrow>
               (if printable r then take w (c # cs) else quote_rune r)
               @ quote_body printable (drop w (c # cs)))"
  by pat_completeness auto
termination
  by (relation "measure (\<lambda>(p, s). length s)") (auto dest: decode_rune_width)

definition quote :: "(nat \<Rightarrow> bool) \<Rightarrow> string \<Rightarrow> string" where
  \<comment> \<open>\<open>strconv.Quote\<close>, the \<open>%q\<close> verb; \<open>printable\<close> is \<open>unicode.IsPrint\<close> beyond ASCII\<close>
  "quote printable s = dquote # quote_body printable s @ [dquote]"

end
