(* ===== verification/GoTime.thy ===== *)
theory GoTime
  imports GoStrings
begin

text \<open>
  Go's \<open>time.Duration\<close>: a signed 64-bit count of nanoseconds, here an \<open>int\<close> with the
  limits written out. The source subtracts times, rounds durations to the millisecond,
  prints them and parses them (\<open>wait\<close> steps). An instant (\<open>metav1.Time\<close>) is the number
  of nanoseconds since the epoch. The one operation on floating-point numbers, the
  contribution of a decimal fraction in \<open>time.ParseDuration\<close>, is an argument.
\<close>

type_synonym time = int
type_synonym duration = int

definition max_duration :: duration where
  "max_duration = 2 ^ 63 - 1"

definition min_duration :: duration where
  "min_duration = - (2 ^ 63)"

definition millisecond :: duration where
  "millisecond = 1000000"

definition second :: duration where
  "second = 1000000000"

definition in_duration :: "int \<Rightarrow> bool" where
  "in_duration d \<longleftrightarrow> min_duration \<le> d \<and> d \<le> max_duration"

definition time_sub :: "time \<Rightarrow> time \<Rightarrow> duration" where
  \<comment> \<open>\<open>t.Sub(u)\<close>, which saturates\<close>
  "time_sub t u = max min_duration (min max_duration (t - u))"

lemma time_sub_in_duration [simp]: "in_duration (time_sub t u)"
  by (simp add: in_duration_def time_sub_def min_duration_def max_duration_def)

section \<open>Rounding\<close>

definition less_than_half :: "int \<Rightarrow> int \<Rightarrow> bool" where
  "less_than_half x y \<longleftrightarrow> x + x < y"

definition dur_round :: "duration \<Rightarrow> duration \<Rightarrow> duration" where
  \<comment> \<open>\<open>d.Round(m)\<close>: to the nearest multiple of \<open>m\<close>, halves away from zero, the limit of the
     type where the nearest multiple lies beyond it\<close>
  "dur_round d m =
     (if m \<le> 0 then d
      else if d < 0 then
        (let r = (- d) mod m in
         if less_than_half r m then d + r
         else if min_duration \<le> d - m + r then d - m + r
         else min_duration)
      else
        (let r = d mod m in
         if less_than_half r m then d - r
         else if d + m - r \<le> max_duration then d + m - r
         else max_duration))"

lemma round_down_dvd: "(m::int) dvd d - d mod m"
  by (rule dvd_minus_mod)

lemma round_up_dvd: "(m::int) dvd d + m - d mod m"
proof -
  have "m dvd (d - d mod m) + m" by (intro dvd_add round_down_dvd) simp
  then show ?thesis by (simp add: algebra_simps)
qed

lemma round_neg_dvd: "(m::int) dvd d + (- d) mod m"
proof -
  have "m dvd - ((- d) - (- d) mod m)" by (subst dvd_minus_iff) (rule round_down_dvd)
  then show ?thesis by (simp add: algebra_simps)
qed

lemma round_neg_down_dvd: "(m::int) dvd d - m + (- d) mod m"
proof -
  have "m dvd (d + (- d) mod m) - m" by (intro dvd_diff round_neg_dvd) simp
  then show ?thesis by (simp add: algebra_simps)
qed

lemma dur_round_cases:
  assumes "0 < m"
  shows "dur_round d m = min_duration \<or> dur_round d m = max_duration
    \<or> (m dvd dur_round d m \<and> 2 * \<bar>dur_round d m - d\<bar> \<le> m)"
proof (cases "d < 0")
  case True
  define r where "r = (- d) mod m"
  have r: "0 \<le> r" "r < m" using assms(1) by (simp_all add: r_def)
  have dvd: "m dvd d + r" "m dvd d - m + r"
    by (simp_all only: r_def round_neg_dvd round_neg_down_dvd)
  have eq: "dur_round d m = (if r + r < m then d + r
      else if min_duration \<le> d - m + r then d - m + r else min_duration)"
    using True assms by (simp add: dur_round_def less_than_half_def r_def)
  show ?thesis
    unfolding eq using r dvd by auto
next
  case False
  define r where "r = d mod m"
  have r: "0 \<le> r" "r < m" using assms(1) by (simp_all add: r_def)
  have dvd: "m dvd d - r" "m dvd d + m - r"
    by (simp_all only: r_def round_down_dvd round_up_dvd)
  have eq: "dur_round d m = (if r + r < m then d - r
      else if d + m - r \<le> max_duration then d + m - r else max_duration)"
    using False assms by (simp add: dur_round_def less_than_half_def r_def)
  show ?thesis
    unfolding eq using r dvd by auto
qed

lemma dur_round_in_duration:
  assumes "0 < m" and "in_duration d"
  shows "in_duration (dur_round d m)"
proof (cases "d < 0")
  case True
  have r: "0 \<le> (- d) mod m" "(- d) mod m < m" "(- d) mod m \<le> - d"
    using assms(1) True by (simp_all add: zmod_le_nonneg_dividend)
  with True assms show ?thesis
    by (auto simp: dur_round_def Let_def in_duration_def min_duration_def max_duration_def)
next
  case False
  have r: "0 \<le> d mod m" "d mod m < m" "d mod m \<le> d"
    using assms(1) False by (simp_all add: zmod_le_nonneg_dividend)
  with False assms show ?thesis
    by (auto simp: dur_round_def Let_def in_duration_def min_duration_def max_duration_def)
qed

lemma dur_round_multiple: "m dvd d \<Longrightarrow> 0 < m \<Longrightarrow> dur_round d m = d"
  by (simp add: dur_round_def Let_def less_than_half_def)

section \<open>Printing\<close>

fun fmt_frac :: "nat \<Rightarrow> int \<Rightarrow> bool \<Rightarrow> string \<Rightarrow> string \<times> int" where
  \<comment> \<open>the last \<open>prec\<close> decimals of \<open>v\<close> without trailing zeros, and what is left of \<open>v\<close>\<close>
  "fmt_frac 0 v pr acc = (if pr then ''.'' @ acc else acc, v)"
| "fmt_frac (Suc i) v pr acc =
     (let d = v mod 10; pr' = (pr \<or> d \<noteq> 0)
      in fmt_frac i (v div 10) pr' (if pr' then digit d # acc else acc))"

definition fmt_small :: "int \<Rightarrow> nat \<Rightarrow> string \<Rightarrow> string" where
  "fmt_small u prec suffix = (case fmt_frac prec u False [] of (fr, v) \<Rightarrow> dec v @ fr @ suffix)"

definition fmt_large :: "int \<Rightarrow> string" where
  "fmt_large u =
     (case fmt_frac 9 u False [] of (fr, s) \<Rightarrow>
        (let m = s div 60; h = m div 60
         in (if m > 0 then (if h > 0 then dec h @ ''h'' else []) @ dec (m mod 60) @ ''m'' else [])
            @ dec (s mod 60) @ fr @ ''s''))"

definition dur_string :: "duration \<Rightarrow> string" where
  \<comment> \<open>\<open>d.String()\<close>; the micro sign is two bytes\<close>
  "dur_string d =
     (let u = \<bar>d\<bar>;
          body = (if u = 0 then ''0s''
                  else if u < 1000 then fmt_small u 0 ''ns''
                  else if u < 1000000 then fmt_small u 3 (char_of (194 :: nat) # char_of (181 :: nat) # ''s'')
                  else if u < 1000000000 then fmt_small u 6 ''ms''
                  else fmt_large u)
      in if d < 0 then ''-'' @ body else body)"

section \<open>Parsing\<close>

datatype duration_error = InvalidDuration | MissingUnit | UnknownUnit string

fun leading_int :: "int \<Rightarrow> string \<Rightarrow> (int \<times> string) option" where
  \<comment> \<open>\<open>leadingInt\<close>: the digits at the front as a number up to \<open>2 ^ 63\<close>, \<open>None\<close> on overflow\<close>
  "leading_int x [] = Some (x, [])"
| "leading_int x (c # cs) =
     (if \<not> is_digit c then Some (x, c # cs)
      else if x > 2 ^ 63 div 10 then None
      else let y = x * 10 + digit_val c
           in if y > 2 ^ 63 then None else leading_int y cs)"

fun leading_fraction :: "int \<Rightarrow> nat \<Rightarrow> bool \<Rightarrow> string \<Rightarrow> int \<times> nat \<times> string" where
  \<comment> \<open>\<open>leadingFraction\<close>: the digits, the number of them that count, what follows\<close>
  "leading_fraction x k ovf [] = (x, k, [])"
| "leading_fraction x k ovf (c # cs) =
     (if \<not> is_digit c then (x, k, c # cs)
      else if ovf then leading_fraction x k True cs
      else if x > (2 ^ 63 - 1) div 10 then leading_fraction x k True cs
      else let y = x * 10 + digit_val c
           in if y > 2 ^ 63 then leading_fraction x k True cs
              else leading_fraction y (Suc k) False cs)"

definition unit_map :: "(string \<times> int) list" where
  "unit_map =
     [(''ns'', 1), (''us'', 1000),
      (char_of (194 :: nat) # char_of (181 :: nat) # ''s'', 1000),
      (char_of (206 :: nat) # char_of (188 :: nat) # ''s'', 1000),
      (''ms'', 1000000), (''s'', 1000000000), (''m'', 60000000000), (''h'', 3600000000000)]"

definition unit_char :: "char \<Rightarrow> bool" where
  "unit_char c \<longleftrightarrow> c \<noteq> CHR ''.'' \<and> \<not> is_digit c"

lemma leading_int_length: "leading_int x s = Some (v, r) \<Longrightarrow> length r \<le> length s"
  by (induction x s rule: leading_int.induct) (auto simp: Let_def split: if_splits)

lemma leading_fraction_length: "leading_fraction x k ovf s = (f, j, r) \<Longrightarrow> length r \<le> length s"
  by (induction x k ovf s rule: leading_fraction.induct) (auto simp: Let_def split: if_splits)

definition duration_number :: "string \<Rightarrow> (int \<times> int \<times> nat \<times> string) option" where
  \<comment> \<open>\<open>[0-9]*(\.[0-9]*)?\<close>: integer part, fraction, number of its decimals, what follows\<close>
  "duration_number s =
     (case s of [] \<Rightarrow> None | c # _ \<Rightarrow>
        if c \<noteq> CHR ''.'' \<and> \<not> is_digit c then None
        else case leading_int 0 s of
          None \<Rightarrow> None
        | Some (v, r) \<Rightarrow>
            (let pre = (length r \<noteq> length s) in
             case r of
               [] \<Rightarrow> if pre then Some (v, 0, 0, []) else None
             | d # r' \<Rightarrow>
                 if d = CHR ''.'' then
                   (case leading_fraction 0 0 False r' of (f, k, r'') \<Rightarrow>
                      if \<not> pre \<and> length r'' = length r' then None else Some (v, f, k, r''))
                 else if pre then Some (v, 0, 0, r) else None))"

lemma duration_number_length:
  "duration_number s = Some (v, f, k, r) \<Longrightarrow> length r \<le> length s"
  by (auto simp: duration_number_def Let_def split: list.splits if_splits option.splits prod.splits
      dest!: leading_int_length leading_fraction_length)

function parse_terms ::
  "(int \<Rightarrow> nat \<Rightarrow> int \<Rightarrow> nat) \<Rightarrow> int \<Rightarrow> string \<Rightarrow> duration_error + int" where
  \<comment> \<open>the loop of \<open>time.ParseDuration\<close>; \<open>frac f k unit\<close> is
     \<open>uint64(float64(f) * (float64(unit) / 10^k))\<close>\<close>
  "parse_terms frac d s =
     (if s = [] then Inr d
      else case duration_number s of
        None \<Rightarrow> Inl InvalidDuration
      | Some (v, f, k, r) \<Rightarrow>
          (let u = takeWhile unit_char r; rest = dropWhile unit_char r in
           if u = [] then Inl MissingUnit
           else case map_of unit_map u of
             None \<Rightarrow> Inl (UnknownUnit u)
           | Some unit \<Rightarrow>
               if v > 2 ^ 63 div unit then Inl InvalidDuration
               else let w = v * unit + (if f > 0 then int (frac f k unit) else 0) in
                 if f > 0 \<and> w > 2 ^ 63 then Inl InvalidDuration
                 else if d + w > 2 ^ 63 then Inl InvalidDuration
                 else parse_terms frac (d + w) rest))"
  by pat_completeness auto
termination
proof (relation "measure (\<lambda>(frac, d, s). length s)", goal_cases)
  case 1
  show ?case by simp
next
  case (2 frac d s x2 v b f c k r u rest unit w)
  then have "length r \<le> length s"
    by (auto dest: duration_number_length)
  moreover have "length rest < length r"
    using 2 by (metis length_append length_greater_0_conv less_add_same_cancel2 takeWhile_dropWhile_id)
  ultimately show ?case by simp
qed

declare parse_terms.simps [simp del]

definition parse_duration ::
  "(int \<Rightarrow> nat \<Rightarrow> int \<Rightarrow> nat) \<Rightarrow> string \<Rightarrow> duration_error + duration" where
  "parse_duration frac orig =
     (let neg = (take 1 orig = ''-'');
          s = (if take 1 orig = ''-'' \<or> take 1 orig = ''+'' then drop 1 orig else orig)
      in if s = ''0'' then Inr 0
         else if s = [] then Inl InvalidDuration
         else case parse_terms frac 0 s of
           Inl e \<Rightarrow> Inl e
         | Inr d \<Rightarrow>
             if neg then Inr (- d)
             else if d > 2 ^ 63 - 1 then Inl InvalidDuration
             else Inr d)"

lemma digit_val_nonneg: "is_digit c \<Longrightarrow> 0 \<le> digit_val c"
  by (simp add: digit_val_def is_digit_def)

lemma leading_int_nonneg: "leading_int x s = Some (v, r) \<Longrightarrow> 0 \<le> x \<Longrightarrow> 0 \<le> v"
  by (induction x s rule: leading_int.induct)
     (auto simp: Let_def digit_val_nonneg split: if_splits)

lemma duration_number_nonneg: "duration_number s = Some (v, f, k, r) \<Longrightarrow> 0 \<le> v"
  by (auto simp: duration_number_def Let_def digit_val_nonneg
      split: list.splits if_splits option.splits prod.splits dest!: leading_int_nonneg)

lemma unit_map_pos: "map_of unit_map u = Some unit \<Longrightarrow> 0 < unit"
  by (auto simp: unit_map_def split: if_splits)

lemma parse_terms_bound:
  "parse_terms frac d s = Inr r \<Longrightarrow> 0 \<le> d \<Longrightarrow> d \<le> 2 ^ 63 \<Longrightarrow> 0 \<le> r \<and> r \<le> 2 ^ 63"
proof (induction frac d s rule: parse_terms.induct)
  case (1 frac d s)
  show ?case
  proof (cases "s = []")
    case True
    with "1.prems" show ?thesis by (simp add: parse_terms.simps [of frac d "[]"])
  next
    case False
    with "1.prems" obtain v f k r' unit
      where n: "duration_number s = Some (v, f, k, r')"
        and u: "takeWhile unit_char r' \<noteq> []" "map_of unit_map (takeWhile unit_char r') = Some unit"
        and v: "\<not> v > 2 ^ 63 div unit"
      by (auto simp: parse_terms.simps [of frac d s] Let_def split: if_splits option.splits)
    define w where "w = v * unit + (if f > 0 then int (frac f k unit) else 0)"
    from "1.prems"(1) False n u v have w: "\<not> (f > 0 \<and> w > 2 ^ 63)" "\<not> d + w > 2 ^ 63"
      and rec: "parse_terms frac (d + w) (dropWhile unit_char r') = Inr r"
      by (auto simp: parse_terms.simps [of frac d s] Let_def w_def split: if_splits)
    have "0 \<le> v * unit"
      using duration_number_nonneg [OF n] unit_map_pos [OF u(2)] by simp
    then have "0 \<le> w" by (simp add: w_def)
    with "1.IH" [OF False n refl refl refl refl refl u(1) u(2) v w_def w rec] "1.prems" w
    show ?thesis by simp
  qed
qed

lemma parse_duration_in_duration:
  assumes "parse_duration frac s = Inr d"
  shows "in_duration d"
proof -
  from assms consider "d = 0"
    | t r where "parse_terms frac 0 t = Inr r" "d = - r \<or> (d = r \<and> \<not> r > 2 ^ 63 - 1)"
    by (auto simp: parse_duration_def Let_def split: if_splits sum.splits)
  then show ?thesis
  proof cases
    case 1
    then show ?thesis by (simp add: in_duration_def min_duration_def max_duration_def)
  next
    case 2
    then show ?thesis
      using parse_terms_bound [OF 2(1)]
      by (auto simp: in_duration_def min_duration_def max_duration_def)
  qed
qed

definition time_quote_char :: "char \<Rightarrow> string" where
  "time_quote_char c =
     (let b = (of_char c :: nat) in
      if b < 32 \<or> 128 \<le> b then backslash # ''x'' @ hex 2 b
      else if c = dquote \<or> c = backslash then [backslash, c]
      else [c])"

definition time_quote :: "string \<Rightarrow> string" where
  \<comment> \<open>the \<open>quote\<close> of package \<open>time\<close>\<close>
  "time_quote s = dquote # concat (map time_quote_char s) @ [dquote]"

fun duration_error_text :: "string \<Rightarrow> duration_error \<Rightarrow> string" where
  "duration_error_text orig InvalidDuration = ''time: invalid duration '' @ time_quote orig"
| "duration_error_text orig MissingUnit = ''time: missing unit in duration '' @ time_quote orig"
| "duration_error_text orig (UnknownUnit u) =
     ''time: unknown unit '' @ time_quote u @ '' in duration '' @ time_quote orig"

end
