(* ===== verification/ApiTypes.thy ===== *)
theory ApiTypes
  imports GoTime
begin

text \<open>
  The API types of the \<open>taskrun.io/v1alpha1\<close> group (\<open>api/v1alpha1/*_types.go\<close>). A Go struct
  is a record with a prefixed field per Go field, a named string type with constants is a
  datatype with one constructor per constant and one for any other string, a pointer is an
  option and a slice is a list. \<open>TypeMeta\<close> is left out: only the
  generated deep copies touch it (\<open>GoHeap\<close>). Of
  \<open>ObjectMeta\<close> (declared in apimachinery) the record keeps the fields the source reads or
  writes; \<open>om_extra\<close> stands for the others (uid, resource version, annotations), which the
  source only passes through.
\<close>

section \<open>Phases and policies\<close>

datatype task_run_phase =
    TaskRunPhasePending | TaskRunPhaseRunning | TaskRunPhaseSucceeded | TaskRunPhaseFailed
  | TaskRunPhaseOther string

fun task_run_phase_string :: "task_run_phase \<Rightarrow> string" where
  "task_run_phase_string TaskRunPhasePending = ''Pending''"
| "task_run_phase_string TaskRunPhaseRunning = ''Running''"
| "task_run_phase_string TaskRunPhaseSucceeded = ''Succeeded''"
| "task_run_phase_string TaskRunPhaseFailed = ''Failed''"
| "task_run_phase_string (TaskRunPhaseOther s) = s"

abbreviation TaskRunPhaseUnset :: task_run_phase where
  "TaskRunPhaseUnset \<equiv> TaskRunPhaseOther []"

datatype step_phase =
    StepPhasePending | StepPhaseRunning | StepPhaseSucceeded | StepPhaseFailed
  | StepPhaseSkipped | StepPhaseOther string

fun step_phase_string :: "step_phase \<Rightarrow> string" where
  "step_phase_string StepPhasePending = ''Pending''"
| "step_phase_string StepPhaseRunning = ''Running''"
| "step_phase_string StepPhaseSucceeded = ''Succeeded''"
| "step_phase_string StepPhaseFailed = ''Failed''"
| "step_phase_string StepPhaseSkipped = ''Skipped''"
| "step_phase_string (StepPhaseOther s) = s"

datatype concurrency_policy =
    ConcurrencyPolicyAllow | ConcurrencyPolicyForbid | ConcurrencyPolicyReplace
  | ConcurrencyPolicyOther string

datatype auth_type =
    AuthTypeOIDC | AuthTypeBasic | AuthTypeMTLS | AuthTypeNone | AuthTypeOther string

fun auth_type_string :: "auth_type \<Rightarrow> string" where
  "auth_type_string AuthTypeOIDC = ''oidc''"
| "auth_type_string AuthTypeBasic = ''basic''"
| "auth_type_string AuthTypeMTLS = ''mtls''"
| "auth_type_string AuthTypeNone = ''none''"
| "auth_type_string (AuthTypeOther s) = s"

datatype backoff = BackoffLinear | BackoffExponential | BackoffOther string

section \<open>Metadata and conditions\<close>

record owner_reference =
  or_kind :: string
  or_name :: string
  or_controller :: bool

record object_meta =
  om_name :: string
  om_namespace :: string
  om_generation :: int
  om_labels :: "string gomap"
  om_owner_references :: "owner_reference list"
  om_extra :: "(string \<times> string) list"

datatype condition_status = ConditionTrue | ConditionFalse | ConditionUnknown

record status_condition =
  sc_type :: string
  sc_status :: condition_status
  sc_observed_generation :: int
  sc_last_transition_time :: time
  sc_reason :: string
  sc_message :: string

section \<open>TaskRun\<close>

record secret_key_selector =
  sks_name :: string
  sks_client_id_key :: string
  sks_client_secret_key :: string
  sks_username_key :: string
  sks_password_key :: string
  sks_cert_key :: string
  sks_key_key :: string

record credentials_source =
  cs_secret_ref :: secret_key_selector

record auth_spec =
  as_type :: auth_type
  as_token_endpoint :: string
  as_credentials_from :: "credentials_source option"

record step_spec =
  ss_name :: string
  ss_action :: string
  ss_params :: "string gomap"
  ss_outputs :: "string list"

record failure_policy =
  fp_retries :: int
  fp_backoff :: backoff

record task_run_spec =
  trs_schedule :: string
  trs_concurrency_policy :: concurrency_policy
  trs_auth :: "auth_spec option"
  trs_steps :: "step_spec list"
  trs_on_failure :: "failure_policy option"

record step_status =
  st_name :: string
  st_phase :: step_phase
  st_duration :: string
  st_outputs :: "string gomap"
  st_logs :: string

record task_run_status =
  ts_phase :: task_run_phase
  ts_start_time :: "time option"
  ts_completion_time :: "time option"
  ts_steps :: "step_status list"
  ts_conditions :: "status_condition list"

record task_run =
  tr_meta :: object_meta
  tr_spec :: task_run_spec
  tr_status :: task_run_status

abbreviation tr_name :: "task_run \<Rightarrow> string" where
  "tr_name tr \<equiv> om_name (tr_meta tr)"

abbreviation tr_namespace :: "task_run \<Rightarrow> string" where
  "tr_namespace tr \<equiv> om_namespace (tr_meta tr)"

section \<open>StepDefinition and ClusterStepDefinition\<close>

record raw_extension =
  re_raw :: "string option"

record runner_spec =
  rs_image :: string

record output_spec =
  os_name :: string
  os_description :: string

record step_definition_spec =
  sds_schema :: "raw_extension option"
  sds_runner :: "runner_spec option"
  sds_outputs :: "output_spec list"
  sds_auth_aware :: bool

record step_definition =
  sd_meta :: object_meta
  sd_spec :: step_definition_spec
  sd_conditions :: "status_condition list"

record cluster_step_definition =
  csd_meta :: object_meta
  csd_spec :: step_definition_spec
  csd_conditions :: "status_condition list"

section \<open>Names of objects\<close>

datatype namespaced_name = NamespacedName (nn_namespace: string) (nn_name: string)

section \<open>Phases advance\<close>

text \<open>
  The life cycle of a TaskRun: no phase or \<open>Pending\<close>, then \<open>Running\<close>, then one of the two
  terminal phases. The order on phases compares the stages; \<open>Succeeded\<close> and \<open>Failed\<close> are one
  stage, and so are the phases before \<open>Running\<close>.
\<close>

definition terminal :: "task_run_phase \<Rightarrow> bool" where
  "terminal p \<longleftrightarrow> p = TaskRunPhaseSucceeded \<or> p = TaskRunPhaseFailed"

fun stage :: "task_run_phase \<Rightarrow> nat" where
  "stage TaskRunPhaseRunning = 1"
| "stage TaskRunPhaseSucceeded = 2"
| "stage TaskRunPhaseFailed = 2"
| "stage _ = 0"

instantiation task_run_phase :: preorder
begin

definition less_eq_task_run_phase :: "task_run_phase \<Rightarrow> task_run_phase \<Rightarrow> bool" where
  "p \<le> q \<longleftrightarrow> stage p \<le> stage q"

definition less_task_run_phase :: "task_run_phase \<Rightarrow> task_run_phase \<Rightarrow> bool" where
  "p < q \<longleftrightarrow> stage p < stage q"

instance
  by standard (auto simp: less_eq_task_run_phase_def less_task_run_phase_def)

end

lemma terminal_stage: "terminal p \<longleftrightarrow> stage p = 2"
  by (cases p) (auto simp: terminal_def)

lemma stage_le_2: "stage p \<le> 2"
  by (cases p) auto

lemma terminal_top: "terminal q \<Longrightarrow> p \<le> q"
  using stage_le_2 by (simp add: terminal_stage less_eq_task_run_phase_def)

lemma terminal_phases [simp]:
  "terminal TaskRunPhaseSucceeded"
  "terminal TaskRunPhaseFailed"
  "\<not> terminal TaskRunPhaseRunning"
  "\<not> terminal TaskRunPhasePending"
  "\<not> terminal (TaskRunPhaseOther s)"
  by (simp_all add: terminal_def)

end
