(* ===== verification/Template.thy ===== *)
theory Template
  imports ApiTypes
begin

text \<open>
  Template expressions in step parameters (\<open>internal/controller/template.go\<close>).

  \<open>regex\<close> and \<open>rmatch\<close> give the meaning of a regular expression with capture groups and
  \<open>template_pattern\<close> is the source's expression, written out as such. \<open>match_template\<close> is a
  deterministic matcher for it at the front of a string; \<open>match_template_correct\<close> says that
  it finds exactly the prefixes the expression accepts, with their groups, so that the
  engine's rule for choosing among several matches never matters. \<open>replace_all\<close> is
  \<open>ReplaceAllStringFunc\<close> for a callback with state, and the rest are the functions of the
  file.
\<close>

section \<open>Regular expressions with groups\<close>

datatype regex =
    Lit string
  | Class "char \<Rightarrow> bool"
  | Star regex
  | Opt regex
  | Seq regex regex
  | Group regex

inductive rmatch :: "regex \<Rightarrow> string \<Rightarrow> string list \<Rightarrow> bool" where
  rmatch_lit: "rmatch (Lit s) s []"
| rmatch_class: "P c \<Longrightarrow> rmatch (Class P) [c] []"
| rmatch_star_nil: "rmatch (Star r) [] []"
| rmatch_star_cons: "rmatch r s gs \<Longrightarrow> rmatch (Star r) t hs \<Longrightarrow> rmatch (Star r) (s @ t) (gs @ hs)"
| rmatch_opt_none: "rmatch (Opt r) [] []"
| rmatch_opt_some: "rmatch r s gs \<Longrightarrow> rmatch (Opt r) s gs"
| rmatch_seq: "rmatch q s gs \<Longrightarrow> rmatch r t hs \<Longrightarrow> rmatch (Seq q r) (s @ t) (gs @ hs)"
| rmatch_group: "rmatch r s gs \<Longrightarrow> rmatch (Group r) s (s # gs)"

inductive_simps rmatch_Lit [simp]: "rmatch (Lit p) s gs"
inductive_simps rmatch_Class [simp]: "rmatch (Class P) s gs"
inductive_simps rmatch_Opt: "rmatch (Opt r) s gs"
inductive_simps rmatch_Seq: "rmatch (Seq q r) s gs"
inductive_simps rmatch_Group [simp]: "rmatch (Group r) s gs"

lemma rmatch_Star_Class [simp]:
  "rmatch (Star (Class P)) s gs \<longleftrightarrow> (\<forall>c\<in>set s. P c) \<and> gs = []"
proof
  show "rmatch (Star (Class P)) s gs \<Longrightarrow> (\<forall>c\<in>set s. P c) \<and> gs = []"
    by (induction "Star (Class P)" s gs rule: rmatch.induct) auto
next
  have "rmatch (Star (Class P)) s []" if "\<forall>c\<in>set s. P c"
    using that
  proof (induction s)
    case Nil
    show ?case by (rule rmatch_star_nil)
  next
    case (Cons c s)
    then have "rmatch (Star (Class P)) ([c] @ s) ([] @ [])"
      by (intro rmatch_star_cons) auto
    then show ?case by simp
  qed
  then show "(\<forall>c\<in>set s. P c) \<and> gs = [] \<Longrightarrow> rmatch (Star (Class P)) s gs" by auto
qed

lemma rmatch_Opt_Class [simp]:
  "rmatch (Opt (Class P)) s gs \<longleftrightarrow> gs = [] \<and> (s = [] \<or> (\<exists>c. s = [c] \<and> P c))"
  by (auto simp: rmatch_Opt)

definition Plus :: "regex \<Rightarrow> regex" where
  "Plus r = Seq r (Star r)"

section \<open>The pattern\<close>

definition is_space :: "char \<Rightarrow> bool" where
  \<comment> \<open>\<open>\s\<close>: tab, newline, form feed, carriage return, space\<close>
  "is_space c \<longleftrightarrow> (of_char c :: nat) \<in> {9, 10, 12, 13, 32}"

definition is_lower_alnum :: "char \<Rightarrow> bool" where
  \<comment> \<open>\<open>[a-z0-9]\<close>\<close>
  "is_lower_alnum c \<longleftrightarrow> (let b = (of_char c :: nat) in (97 \<le> b \<and> b \<le> 122) \<or> (48 \<le> b \<and> b \<le> 57))"

definition is_name_char :: "char \<Rightarrow> bool" where
  \<comment> \<open>\<open>[a-z0-9\-]\<close>\<close>
  "is_name_char c \<longleftrightarrow> is_lower_alnum c \<or> c = CHR ''-''"

definition is_output_char :: "char \<Rightarrow> bool" where
  \<comment> \<open>\<open>[a-zA-Z0-9_\-]\<close>\<close>
  "is_output_char c \<longleftrightarrow> is_lower_alnum c \<or> (let b = (of_char c :: nat) in 65 \<le> b \<and> b \<le> 90)
     \<or> c = CHR ''_'' \<or> c = CHR ''-''"

definition step_name_pattern :: regex where
  "step_name_pattern =
     Seq (Class is_lower_alnum) (Seq (Star (Class is_name_char)) (Opt (Class is_lower_alnum)))"

definition output_name_pattern :: regex where
  "output_name_pattern = Plus (Class is_output_char)"

definition template_pattern :: regex where
  "template_pattern =
     Seq (Lit ''{{'')
    (Seq (Star (Class is_space))
    (Seq (Lit ''steps.'')
    (Seq (Group step_name_pattern)
    (Seq (Lit ''.outputs.'')
    (Seq (Group output_name_pattern)
    (Seq (Star (Class is_space))
         (Lit ''}}'')))))))"

section \<open>The matcher\<close>

definition match_template :: "string \<Rightarrow> (string \<times> string \<times> string \<times> string) option" where
  \<comment> \<open>the text matched at the front of \<open>s\<close>, groups 1 and 2, and what follows\<close>
  "match_template s =
     (case strip_lit ''{{'' s of None \<Rightarrow> None | Some s1 \<Rightarrow>
      case strip_lit ''steps.'' (dropWhile is_space s1) of None \<Rightarrow> None | Some s2 \<Rightarrow>
      let name = takeWhile is_name_char s2 in
      if name = [] \<or> \<not> is_lower_alnum (hd name) then None else
      case strip_lit ''.outputs.'' (dropWhile is_name_char s2) of None \<Rightarrow> None | Some s3 \<Rightarrow>
      let out = takeWhile is_output_char s3 in
      if out = [] then None else
      case strip_lit ''}}'' (dropWhile is_space (dropWhile is_output_char s3)) of None \<Rightarrow> None | Some rest \<Rightarrow>
      Some (take (length s - length rest) s, name, out, rest))"

definition step_name_ok :: "string \<Rightarrow> bool" where
  "step_name_ok n \<longleftrightarrow> n \<noteq> [] \<and> is_lower_alnum (hd n) \<and> (\<forall>c\<in>set n. is_name_char c)"

definition output_name_ok :: "string \<Rightarrow> bool" where
  "output_name_ok n \<longleftrightarrow> n \<noteq> [] \<and> (\<forall>c\<in>set n. is_output_char c)"

definition reference :: "string \<Rightarrow> string \<Rightarrow> string \<Rightarrow> string \<Rightarrow> string" where
  \<comment> \<open>the text of a reference with the given white space\<close>
  "reference ws n out ws' = ''{{'' @ ws @ ''steps.'' @ n @ ''.outputs.'' @ out @ ws' @ ''}}''"

text \<open>Group 1 of the pattern accepts the names that start with a lower-case letter or a
  digit and go on with those and hyphens.\<close>

lemma rmatch_name: "rmatch step_name_pattern s gs \<longleftrightarrow> gs = [] \<and> step_name_ok s"
proof
  assume "rmatch step_name_pattern s gs"
  then show "gs = [] \<and> step_name_ok s"
    by (auto simp: step_name_pattern_def rmatch_Seq step_name_ok_def is_name_char_def)
next
  assume ok: "gs = [] \<and> step_name_ok s"
  then obtain c cs where s: "s = c # cs" by (cases s) (auto simp: step_name_ok_def)
  have "rmatch step_name_pattern ([c] @ (cs @ [])) ([] @ ([] @ []))"
    unfolding step_name_pattern_def
    using ok s by (intro rmatch_seq) (auto simp: step_name_ok_def)
  with ok s show "rmatch step_name_pattern s gs" by simp
qed

lemma rmatch_output: "rmatch output_name_pattern s gs \<longleftrightarrow> gs = [] \<and> output_name_ok s"
proof
  assume "rmatch output_name_pattern s gs"
  then show "gs = [] \<and> output_name_ok s"
    by (auto simp: output_name_pattern_def Plus_def rmatch_Seq output_name_ok_def)
next
  assume ok: "gs = [] \<and> output_name_ok s"
  then obtain c cs where s: "s = c # cs" by (cases s) (auto simp: output_name_ok_def)
  have "rmatch output_name_pattern ([c] @ cs) ([] @ [])"
    unfolding output_name_pattern_def Plus_def
    using ok s by (intro rmatch_seq) (auto simp: output_name_ok_def)
  with ok s show "rmatch output_name_pattern s gs" by simp
qed

lemma rmatch_Seq_Lit:
  "rmatch (Seq (Lit p) r) s gs \<longleftrightarrow> (\<exists>t. s = p @ t \<and> rmatch r t gs)"
  unfolding rmatch_Seq rmatch_Lit by (metis append_Nil)

lemma rmatch_Seq_Star:
  "rmatch (Seq (Star (Class P)) r) s gs \<longleftrightarrow>
     (\<exists>u t. s = u @ t \<and> (\<forall>c\<in>set u. P c) \<and> rmatch r t gs)"
  unfolding rmatch_Seq rmatch_Star_Class by (metis append_Nil)

lemma rmatch_Seq_Group:
  "rmatch (Seq (Group q) r) s gs \<longleftrightarrow>
     (\<exists>u t hs ks. s = u @ t \<and> gs = u # hs @ ks \<and> rmatch q u hs \<and> rmatch r t ks)"
  unfolding rmatch_Seq rmatch_Group by (metis append_Cons)

lemmas rmatch_pieces = rmatch_Seq_Lit rmatch_Seq_Star rmatch_Seq_Group rmatch_name rmatch_output

lemma rmatch_template:
  "rmatch template_pattern m gs \<longleftrightarrow>
     (\<exists>ws n out ws'. m = reference ws n out ws' \<and> gs = [n, out] \<and> step_name_ok n \<and> output_name_ok out
        \<and> (\<forall>c\<in>set ws. is_space c) \<and> (\<forall>c\<in>set ws'. is_space c))"
  (is "?l \<longleftrightarrow> ?r")
proof
  show "?l \<Longrightarrow> ?r"
    unfolding template_pattern_def rmatch_pieces rmatch_Lit reference_def by auto
next
  assume ?r
  then obtain ws n out ws' where
    m: "m = reference ws n out ws'" "gs = [n, out]"
    and ok: "step_name_ok n" "output_name_ok out" "\<forall>c\<in>set ws. is_space c" "\<forall>c\<in>set ws'. is_space c"
    by blast
  have "rmatch template_pattern
      (''{{'' @ ws @ ''steps.'' @ n @ ''.outputs.'' @ out @ ws' @ ''}}'')
      ([] @ [] @ [] @ [n] @ [] @ [out] @ [] @ [])"
    unfolding template_pattern_def
    by (intro rmatch_seq; simp add: rmatch_name rmatch_output ok)
  with m show ?l by (simp add: reference_def)
qed

text \<open>Where a class ends: the literal that follows each class of the pattern starts with a
  character outside it, so the greedy span is the only one.\<close>

lemma class_ends [simp]:
  "\<not> is_space CHR ''s''"
  "\<not> is_space CHR ''}''"
  "\<not> is_name_char CHR ''.''"
  "\<not> is_output_char CHR ''}''"
  by (simp_all add: is_space_def is_name_char_def is_lower_alnum_def is_output_char_def)

lemma output_char_not_space: "is_output_char c \<Longrightarrow> \<not> is_space c"
  by (auto simp: is_space_def is_lower_alnum_def is_output_char_def Let_def)

lemma space_not_output: "is_space c \<Longrightarrow> \<not> is_output_char c"
  using output_char_not_space by blast

lemma match_template_reference:
  assumes "step_name_ok n" and "output_name_ok out"
    and "\<forall>c\<in>set ws. is_space c" and "\<forall>c\<in>set ws'. is_space c"
  shows "match_template (reference ws n out ws' @ rest) = Some (reference ws n out ws', n, out, rest)"
proof -
  let ?t4 = "ws' @ ''}}'' @ rest"
  have sp: "dropWhile is_space (ws @ ''steps.'' @ x) = ''steps.'' @ x" for x
    using assms(3) by (intro dropWhile_run) auto
  have nm: "takeWhile is_name_char (n @ ''.outputs.'' @ x) = n"
    "dropWhile is_name_char (n @ ''.outputs.'' @ x) = ''.outputs.'' @ x" for x
    using assms(1) by (intro takeWhile_run dropWhile_run; auto simp: step_name_ok_def)+
  have after: "?t4 = [] \<or> \<not> is_output_char (hd ?t4)"
    using assms(4) by (cases ws') (auto dest: space_not_output)
  have ot: "takeWhile is_output_char (out @ ?t4) = out"
    "dropWhile is_output_char (out @ ?t4) = ?t4"
    using assms(2) after by (intro takeWhile_run dropWhile_run; auto simp: output_name_ok_def)+
  have sp': "dropWhile is_space ?t4 = ''}}'' @ rest"
    using assms(4) by (intro dropWhile_run) auto
  have n: "n \<noteq> []" "is_lower_alnum (hd n)" "out \<noteq> []"
    using assms(1,2) by (auto simp: step_name_ok_def output_name_ok_def)
  have s: "reference ws n out ws' @ rest
      = ''{{'' @ ws @ ''steps.'' @ n @ ''.outputs.'' @ out @ ws' @ ''}}'' @ rest"
    by (simp add: reference_def)
  have whole: "take (length (reference ws n out ws' @ rest) - length rest) (reference ws n out ws' @ rest)
      = reference ws n out ws'" by simp
  show ?thesis
    using n whole [unfolded s]
    unfolding match_template_def s strip_lit_append option.case Let_def sp nm ot sp'
    by simp
qed

lemma takeWhile_all: "\<forall>c\<in>set (takeWhile P s). P c"
  using set_takeWhileD by fast

lemma match_template_sound:
  assumes "match_template s = Some (m, n, out, rest)"
  shows "\<exists>ws ws'. s = m @ rest \<and> m = reference ws n out ws' \<and> step_name_ok n \<and> output_name_ok out
    \<and> (\<forall>c\<in>set ws. is_space c) \<and> (\<forall>c\<in>set ws'. is_space c)"
proof -
  from assms obtain s1 s2 s3 where
    s: "s = ''{{'' @ s1" "dropWhile is_space s1 = ''steps.'' @ s2"
      "dropWhile is_name_char s2 = ''.outputs.'' @ s3"
      "dropWhile is_space (dropWhile is_output_char s3) = ''}}'' @ rest"
    and n: "n = takeWhile is_name_char s2" "n \<noteq> []" "is_lower_alnum (hd n)"
    and out: "out = takeWhile is_output_char s3" "out \<noteq> []"
    and m: "m = take (length s - length rest) s"
    by (auto simp: match_template_def Let_def split: option.splits if_splits)
  define ws where "ws = takeWhile is_space s1"
  define ws' where "ws' = takeWhile is_space (dropWhile is_output_char s3)"
  have s3: "s3 = out @ ws' @ ''}}'' @ rest"
    unfolding out(1) ws'_def s(4) [symmetric] by simp
  have s2: "s2 = n @ ''.outputs.'' @ s3"
    unfolding n(1) s(3) [symmetric] by simp
  have s1: "s1 = ws @ ''steps.'' @ s2"
    unfolding ws_def s(2) [symmetric] by simp
  have whole: "s = reference ws n out ws' @ rest"
    by (simp add: s(1) s1 s2 s3 reference_def)
  then have "m = reference ws n out ws'" by (simp add: m)
  moreover have "step_name_ok n" "output_name_ok out"
    using n(2,3) out(2) takeWhile_all [of is_name_char s2] takeWhile_all [of is_output_char s3]
    unfolding step_name_ok_def output_name_ok_def n(1) [symmetric] out(1) [symmetric] by blast+
  moreover have "\<forall>c\<in>set ws. is_space c" "\<forall>c\<in>set ws'. is_space c"
    unfolding ws_def ws'_def by (rule takeWhile_all)+
  ultimately show ?thesis using whole by metis
qed

lemma match_template_iff:
  "match_template s = Some (m, n, out, rest) \<longleftrightarrow> s = m @ rest \<and> rmatch template_pattern m [n, out]"
proof
  assume "match_template s = Some (m, n, out, rest)"
  from match_template_sound [OF this] show "s = m @ rest \<and> rmatch template_pattern m [n, out]"
    unfolding rmatch_template by blast
next
  assume "s = m @ rest \<and> rmatch template_pattern m [n, out]"
  then show "match_template s = Some (m, n, out, rest)"
    by (auto simp: rmatch_template match_template_reference)
qed

lemma match_template_split: "match_template s = Some (m, n, out, rest) \<Longrightarrow> s = m @ rest \<and> m \<noteq> []"
  using match_template_sound by (fastforce simp: reference_def)

lemma match_template_shrinks [termination_simp]:
  "match_template s = Some (m, n, out, rest) \<Longrightarrow> length rest < length s"
  using match_template_split by fastforce

text \<open>A matched text is matched again as a whole, with the same groups.\<close>

lemma match_template_again:
  "match_template s = Some (m, n, out, rest) \<Longrightarrow> match_template m = Some (m, n, out, [])"
  by (simp add: match_template_iff)

section \<open>The engine\<close>

fun find_submatch :: "string \<Rightarrow> string list" where
  \<comment> \<open>\<open>FindStringSubmatch\<close>: the leftmost match and its groups, the nil slice when there is none\<close>
  "find_submatch [] = []"
| "find_submatch (c # cs) =
     (case match_template (c # cs) of
        Some (m, n, out, _) \<Rightarrow> [m, n, out]
      | None \<Rightarrow> find_submatch cs)"

function replace_all :: "(string \<Rightarrow> 's \<Rightarrow> string \<times> 's) \<Rightarrow> string \<Rightarrow> 's \<Rightarrow> string \<times> 's" where
  \<comment> \<open>\<open>ReplaceAllStringFunc\<close>: each leftmost match, from left to right and without overlap, is
     replaced by what the callback returns for it; the callback has a state\<close>
  "replace_all f [] st = ([], st)"
| "replace_all f (c # cs) st =
     (case match_template (c # cs) of
        Some (m, _, _, rest) \<Rightarrow>
          (let (v, st1) = f m st; (w, st2) = replace_all f rest st1 in (v @ w, st2))
      | None \<Rightarrow> (let (w, st2) = replace_all f cs st in (c # w, st2)))"
  by pat_completeness auto
termination
  by (relation "measure (\<lambda>(f, s, st). length s)") (auto dest: match_template_shrinks)

section \<open>The functions of the source\<close>

definition resolve_match ::
  "string gomap \<Rightarrow> string \<Rightarrow> string list \<Rightarrow> string \<times> string list" where
  \<comment> \<open>the callback of \<open>resolveValue\<close>; its state is the slice \<open>missing\<close>\<close>
  "resolve_match outputs match missing =
     (case find_submatch match of
        [_, step, out] \<Rightarrow>
          (case mget outputs (step @ ''.'' @ out) of
             None \<Rightarrow> (match, missing @ [match])
           | Some v \<Rightarrow> (v, missing))
      | _ \<Rightarrow> (match, missing @ [match]))"

definition resolve_value :: "string gomap \<Rightarrow> string \<Rightarrow> string + string" where
  "resolve_value outputs val =
     (case replace_all (resolve_match outputs) val [] of
        (result, missing) \<Rightarrow>
          if missing \<noteq> [] then Inl (''unresolved template references: '' @ join '', '' missing)
          else Inr result)"

fun index_outputs :: "string \<Rightarrow> (string \<times> string) list \<Rightarrow> (string \<times> string) list \<Rightarrow> (string \<times> string) list" where
  "index_outputs name [] idx = idx"
| "index_outputs name ((k, v) # es) idx = index_outputs name es (AList.update (name @ ''.'' @ k) v idx)"

fun index_statuses :: "step_status list \<Rightarrow> (string \<times> string) list \<Rightarrow> (string \<times> string) list" where
  "index_statuses [] idx = idx"
| "index_statuses (s # ss) idx = index_statuses ss (index_outputs (st_name s) (entries (st_outputs s)) idx)"

definition build_output_index :: "step_status list \<Rightarrow> string gomap" where
  "build_output_index statuses = Some (index_statuses statuses [])"

fun resolve_params ::
  "(nat \<Rightarrow> bool) \<Rightarrow> string gomap \<Rightarrow> (string \<times> string) list \<Rightarrow> string + (string \<times> string) list" where
  \<comment> \<open>the loop of \<open>ResolveTemplates\<close> over the parameters in the order of this traversal\<close>
  "resolve_params printable outputs [] = Inr []"
| "resolve_params printable outputs ((key, val) # es) =
     (case resolve_value outputs val of
        Inl e \<Rightarrow> Inl (''param '' @ quote printable key @ '': '' @ e)
      | Inr result \<Rightarrow>
          (case resolve_params printable outputs es of
             Inl e \<Rightarrow> Inl e
           | Inr resolved \<Rightarrow> Inr ((key, result) # resolved)))"

definition resolve_templates ::
  "(nat \<Rightarrow> bool) \<Rightarrow> string gomap \<Rightarrow> step_status list \<Rightarrow> string + string gomap" where
  "resolve_templates printable params stepStatuses =
     (if length (entries params) = 0 then Inr params
      else map_sum id Some (resolve_params printable (build_output_index stepStatuses) (entries params)))"

section \<open>What resolution computes\<close>

text \<open>
  \<open>segments\<close> cuts a value into its references, found from left to right, and the single
  characters between them. Resolution replaces every reference by the output it names and
  leaves the rest alone; it never looks at a replacement again.
\<close>

datatype segment = Plain char | Ref string string string

function segments :: "string \<Rightarrow> segment list" where
  "segments [] = []"
| "segments (c # cs) =
     (case match_template (c # cs) of
        Some (m, n, out, rest) \<Rightarrow> Ref m n out # segments rest
      | None \<Rightarrow> Plain c # segments cs)"
  by pat_completeness auto
termination
  by (relation "measure length") (auto dest: match_template_shrinks)

fun seg_text :: "segment \<Rightarrow> string" where
  "seg_text (Plain c) = [c]"
| "seg_text (Ref m n out) = m"

fun seg_value :: "string gomap \<Rightarrow> segment \<Rightarrow> string option" where
  "seg_value outputs (Plain c) = Some [c]"
| "seg_value outputs (Ref m n out) = mget outputs (n @ ''.'' @ out)"

definition missing_refs :: "string gomap \<Rightarrow> segment list \<Rightarrow> string list" where
  "missing_refs outputs sg = map seg_text (filter (\<lambda>x. seg_value outputs x = None) sg)"

definition substituted :: "string gomap \<Rightarrow> segment list \<Rightarrow> string" where
  "substituted outputs sg =
     concat (map (\<lambda>x. case seg_value outputs x of Some v \<Rightarrow> v | None \<Rightarrow> seg_text x) sg)"

lemma segment_sums [simp]:
  "missing_refs outputs [] = []"
  "missing_refs outputs (x # sg) =
     (if seg_value outputs x = None then [seg_text x] else []) @ missing_refs outputs sg"
  "missing_refs outputs (sg @ sg') = missing_refs outputs sg @ missing_refs outputs sg'"
  "substituted outputs [] = []"
  "substituted outputs (x # sg) =
     (case seg_value outputs x of Some v \<Rightarrow> v | None \<Rightarrow> seg_text x) @ substituted outputs sg"
  "substituted outputs (sg @ sg') = substituted outputs sg @ substituted outputs sg'"
  by (simp_all add: missing_refs_def substituted_def)

lemma segments_text: "concat (map seg_text (segments s)) = s"
proof (induction s rule: segments.induct)
  case (2 c cs)
  then show ?case
    by (auto split: option.splits dest: match_template_split)
qed simp

lemma find_submatch_matched:
  assumes "match_template s = Some (m, n, out, rest)"
  shows "find_submatch m = [m, n, out]"
proof -
  from match_template_split [OF assms] obtain c cs where m: "m = c # cs" by (cases m) auto
  with match_template_again [OF assms] show ?thesis by simp
qed

lemma resolve_match_matched:
  assumes "match_template s = Some (m, n, out, rest)"
  shows "resolve_match outputs m missing =
    (case mget outputs (n @ ''.'' @ out) of None \<Rightarrow> (m, missing @ [m]) | Some v \<Rightarrow> (v, missing))"
  by (simp add: resolve_match_def find_submatch_matched [OF assms])

lemma replace_all_segments:
  "replace_all (resolve_match outputs) s missing =
     (substituted outputs (segments s), missing @ missing_refs outputs (segments s))"
proof (induction s arbitrary: missing rule: segments.induct)
  case 1
  then show ?case by simp
next
  case (2 c cs)
  show ?case
  proof (cases "match_template (c # cs)")
    case None
    with 2 show ?thesis by simp
  next
    case (Some q)
    obtain m n out rest where q: "q = (m, n, out, rest)" by (cases q)
    note m = Some [unfolded q]
    have IH: "replace_all (resolve_match outputs) rest ms =
        (substituted outputs (segments rest), ms @ missing_refs outputs (segments rest))" for ms
      using "2.IH"(2) [OF Some q [symmetric]] q by simp
    from m show ?thesis
      by (auto simp: resolve_match_matched [OF m] IH split: option.splits)
  qed
qed

lemma resolve_value_eq:
  "resolve_value outputs s =
     (if missing_refs outputs (segments s) = [] then Inr (substituted outputs (segments s))
      else Inl (''unresolved template references: '' @ join '', '' (missing_refs outputs (segments s))))"
  by (simp add: resolve_value_def replace_all_segments)

subsection \<open>Values written with explicit references\<close>

datatype piece = Text string | Expr string string string string

fun piece_text :: "piece \<Rightarrow> string" where
  "piece_text (Text t) = t"
| "piece_text (Expr ws n out ws') = reference ws n out ws'"

fun piece_ok :: "piece \<Rightarrow> bool" where
  "piece_ok (Text t) \<longleftrightarrow> CHR ''{'' \<notin> set t"
| "piece_ok (Expr ws n out ws') \<longleftrightarrow> step_name_ok n \<and> output_name_ok out
     \<and> (\<forall>c\<in>set ws. is_space c) \<and> (\<forall>c\<in>set ws'. is_space c)"

fun piece_segments :: "piece \<Rightarrow> segment list" where
  "piece_segments (Text t) = map Plain t"
| "piece_segments (Expr ws n out ws') = [Ref (reference ws n out ws') n out]"

fun piece_value :: "string gomap \<Rightarrow> piece \<Rightarrow> string option" where
  "piece_value outputs (Text t) = Some t"
| "piece_value outputs (Expr ws n out ws') = mget outputs (n @ ''.'' @ out)"

lemma no_brace_no_match: "c \<noteq> CHR ''{'' \<Longrightarrow> match_template (c # cs) = None"
  by (simp add: match_template_def)

lemma segments_plain: "CHR ''{'' \<notin> set t \<Longrightarrow> segments (t @ s) = map Plain t @ segments s"
  by (induction t) (auto simp: no_brace_no_match)

lemma reference_Cons: "reference ws n out ws' = CHR ''{'' # tl (reference ws n out ws')"
  by (simp add: reference_def)

lemma segments_reference:
  assumes "piece_ok (Expr ws n out ws')"
  shows "segments (reference ws n out ws' @ s) = Ref (reference ws n out ws') n out # segments s"
proof -
  define r where "r = reference ws n out ws'"
  obtain cs where r: "r = CHR ''{'' # cs" unfolding r_def by (metis reference_Cons)
  have "match_template (r @ s) = Some (r, n, out, s)"
    using assms unfolding r_def by (simp add: match_template_reference)
  then have "segments (r @ s) = Ref r n out # segments s"
    by (simp add: r)
  then show ?thesis by (simp add: r_def)
qed

lemma segments_pieces:
  "\<forall>p\<in>set ps. piece_ok p \<Longrightarrow>
     segments (concat (map piece_text ps)) = concat (map piece_segments ps)"
proof (induction ps)
  case Nil
  then show ?case by simp
next
  case (Cons p ps)
  then show ?case
    by (cases p) (auto simp: segments_plain segments_reference)
qed

lemma missing_refs_plain [simp]: "missing_refs outputs (map Plain t) = []"
  by (induction t) auto

lemma substituted_plain [simp]: "substituted outputs (map Plain t) = t"
  by (induction t) auto

lemma pieces_resolved:
  assumes "\<forall>p\<in>set ps. piece_value outputs p \<noteq> None"
  shows "missing_refs outputs (concat (map piece_segments ps)) = []
    \<and> substituted outputs (concat (map piece_segments ps))
        = concat (map (\<lambda>p. the (piece_value outputs p)) ps)"
  using assms
proof (induction ps)
  case Nil
  then show ?case by simp
next
  case (Cons p ps)
  then show ?case by (cases p) auto
qed

section \<open>The index of outputs\<close>

text \<open>
  The index joins a step name and an output name with a dot. Step names have no dot (the CRD
  pattern of \<open>StepSpec.Name\<close>, and group 1 of the template pattern), so the key can be taken
  apart again and no two outputs share one.
\<close>

lemma dotted_key_inject:
  assumes "CHR ''.'' \<notin> set n" and "CHR ''.'' \<notin> set n'"
  shows "n @ CHR ''.'' # a = n' @ CHR ''.'' # b \<longleftrightarrow> n = n' \<and> a = b"
proof
  assume eq: "n @ CHR ''.'' # a = n' @ CHR ''.'' # b"
  have run: "takeWhile (\<lambda>c. c \<noteq> CHR ''.'') (k @ CHR ''.'' # z) = k" if "CHR ''.'' \<notin> set k" for k z
    using that by (intro takeWhile_run) auto
  have "n = n'" using run [OF assms(1), of a] run [OF assms(2), of b] eq by metis
  with eq show "n = n' \<and> a = b" by simp
qed simp

lemma step_name_no_dot: "step_name_ok n \<Longrightarrow> CHR ''.'' \<notin> set n"
  using class_ends(3) by (auto simp: step_name_ok_def)

definition dot_free :: "step_status list \<Rightarrow> bool" where
  "dot_free ss \<longleftrightarrow> (\<forall>s\<in>set ss. CHR ''.'' \<notin> set (st_name s))"

definition wf_outputs :: "step_status list \<Rightarrow> bool" where
  "wf_outputs ss \<longleftrightarrow> (\<forall>s\<in>set ss. wf_gomap (st_outputs s))"

lemma index_outputs_lookup:
  assumes "distinct (map fst es)" and "CHR ''.'' \<notin> set n" and "CHR ''.'' \<notin> set m"
  shows "map_of (index_outputs n es idx) (m @ CHR ''.'' # a) =
    (if n = m then (case map_of es a of Some v \<Rightarrow> Some v | None \<Rightarrow> map_of idx (m @ CHR ''.'' # a))
     else map_of idx (m @ CHR ''.'' # a))"
  using assms
proof (induction n es idx rule: index_outputs.induct)
  case (1 name idx)
  then show ?case by simp
next
  case (2 name k v es idx)
  have "map_of es a = None" if "a = k"
    using 2 that by (simp add: map_of_eq_None_iff)
  with 2 dotted_key_inject [of m name a k] show ?case
    by (auto simp: update_conv' split: option.splits)
qed

fun last_output :: "step_status list \<Rightarrow> string \<Rightarrow> string \<Rightarrow> string option" where
  \<comment> \<open>output \<open>a\<close> of the last status entry named \<open>n\<close> that has it\<close>
  "last_output [] n a = None"
| "last_output (s # ss) n a =
     (case last_output ss n a of
        Some v \<Rightarrow> Some v
      | None \<Rightarrow> if st_name s = n then mget (st_outputs s) a else None)"

lemma index_statuses_lookup:
  assumes "dot_free ss" and "wf_outputs ss" and "CHR ''.'' \<notin> set n"
  shows "map_of (index_statuses ss idx) (n @ CHR ''.'' # a) =
    (case last_output ss n a of Some v \<Rightarrow> Some v | None \<Rightarrow> map_of idx (n @ CHR ''.'' # a))"
  using assms
proof (induction ss idx rule: index_statuses.induct)
  case (1 idx)
  then show ?case by simp
next
  case (2 s ss idx)
  then show ?case
    by (auto simp: dot_free_def wf_outputs_def wf_gomap_def mget_def index_outputs_lookup
        split: option.splits)
qed

lemma build_output_index_lookup:
  "dot_free ss \<Longrightarrow> wf_outputs ss \<Longrightarrow> CHR ''.'' \<notin> set n \<Longrightarrow>
     mget (build_output_index ss) (n @ CHR ''.'' # a) = last_output ss n a"
  by (simp add: build_output_index_def index_statuses_lookup split: option.splits)

lemma last_output_absent: "n \<notin> st_name ` set ss \<Longrightarrow> last_output ss n a = None"
  by (induction ss) auto

lemma last_output_distinct:
  "distinct (map st_name ss) \<Longrightarrow> s \<in> set ss \<Longrightarrow> last_output ss (st_name s) a = mget (st_outputs s) a"
  by (induction ss) (auto simp: last_output_absent split: option.splits)

section \<open>Whole parameter maps\<close>

lemma resolve_params_Inr:
  "resolve_params printable outputs es = Inr rs \<longleftrightarrow>
     list_all2 (\<lambda>e r. fst r = fst e \<and> resolve_value outputs (snd e) = Inr (snd r)) es rs"
proof (induction es arbitrary: rs)
  case Nil
  then show ?case by auto
next
  case (Cons e es)
  let ?R = "\<lambda>e r. fst r = fst e \<and> resolve_value outputs (snd e) = Inr (snd r)"
  obtain k v where e: "e = (k, v)" by (cases e)
  have split: "list_all2 ?R (e # es) rs \<longleftrightarrow>
      (\<exists>x ys. rs = (k, x) # ys \<and> resolve_value outputs v = Inr x \<and> list_all2 ?R es ys)"
    by (cases rs) (auto simp: e)
  show ?case
    unfolding split Cons.IH [symmetric] by (auto simp: e split: sum.splits)
qed

lemma resolve_params_ok_iff:
  "(\<exists>rs. resolve_params printable outputs es = Inr rs) \<longleftrightarrow>
     (\<forall>(k, v)\<in>set es. \<exists>r. resolve_value outputs v = Inr r)"
proof (induction es)
  case Nil
  then show ?case by simp
next
  case (Cons e es)
  then show ?case by (cases e) (auto split: sum.splits)
qed

lemma resolve_params_lookup:
  assumes "resolve_params printable outputs es = Inr rs"
  shows "map_of rs k = (case map_of es k of None \<Rightarrow> None
    | Some v \<Rightarrow> (case resolve_value outputs v of Inr r \<Rightarrow> Some r | Inl _ \<Rightarrow> None))"
  using assms unfolding resolve_params_Inr
  by (induction rule: list_all2_induct) (auto split: prod.splits)

lemma resolve_value_Inr:
  "(\<exists>r. resolve_value outputs v = Inr r) \<longleftrightarrow> missing_refs outputs (segments v) = []"
  by (simp add: resolve_value_eq)

lemma resolve_value_option:
  "missing_refs outputs (segments v) = [] \<Longrightarrow>
     (case resolve_value outputs v of Inr r \<Rightarrow> Some r | Inl _ \<Rightarrow> None)
       = Some (substituted outputs (segments v))"
  by (simp add: resolve_value_eq)

lemma resolve_params_total:
  assumes "resolve_params printable outputs es = Inr rs"
  shows "map_of rs k = map_option (\<lambda>v. substituted outputs (segments v)) (map_of es k)"
proof -
  have "\<forall>(k, v)\<in>set es. missing_refs outputs (segments v) = []"
    using assms resolve_params_ok_iff [of printable outputs es] by (auto simp: resolve_value_Inr)
  then have "map_of es k = Some v \<Longrightarrow> missing_refs outputs (segments v) = []" for v
    by (auto dest: map_of_SomeD)
  then show ?thesis
    by (auto simp: resolve_params_lookup [OF assms] resolve_value_option split: option.splits)
qed

lemma resolve_templates_Inr:
  assumes "resolve_templates printable params ss = Inr r"
  shows "mget r k = map_option (\<lambda>v. substituted (build_output_index ss) (segments v)) (mget params k)"
  using assms
  by (cases "resolve_params printable (build_output_index ss) (entries params)")
     (auto simp: resolve_templates_def mget_def resolve_params_total split: if_splits)

lemma resolve_templates_ok_iff:
  "(\<exists>r. resolve_templates printable params ss = Inr r) \<longleftrightarrow>
     (\<forall>(k, v)\<in>set (entries params). missing_refs (build_output_index ss) (segments v) = [])"
  using resolve_params_ok_iff [of printable "build_output_index ss" "entries params"]
  by (cases "resolve_params printable (build_output_index ss) (entries params)")
     (auto simp: resolve_templates_def resolve_value_Inr)

section \<open>Properties\<close>

text \<open>C26: the matcher at the front of a string finds a text, step name and output name exactly
  when the regular expression of the source accepts that prefix with those two groups, and it
  finds nothing exactly when the expression accepts no prefix; in particular at most one
  prefix is ever accepted.\<close>

theorem match_template_exact:
  "(match_template s = Some (m, n, out, rest) \<longleftrightarrow> s = m @ rest \<and> rmatch template_pattern m [n, out])
   \<and> (match_template s = None \<longleftrightarrow> \<not> (\<exists>m rest gs. s = m @ rest \<and> rmatch template_pattern m gs))"
proof
  show "match_template s = Some (m, n, out, rest) \<longleftrightarrow> s = m @ rest \<and> rmatch template_pattern m [n, out]"
    by (rule match_template_iff)
  show "match_template s = None \<longleftrightarrow> \<not> (\<exists>m rest gs. s = m @ rest \<and> rmatch template_pattern m gs)"
  proof (cases "match_template s")
    case None
    then show ?thesis by (auto simp: rmatch_template match_template_reference)
  next
    case (Some q)
    obtain m n out rest where "q = (m, n, out, rest)" by (cases q)
    with Some have "s = m @ rest \<and> rmatch template_pattern m [n, out]"
      by (simp add: match_template_iff)
    with Some show ?thesis by auto
  qed
qed

text \<open>A value is cut into its references and the text between them, without losing or adding
  a character; resolution replaces each reference by the output it names, once, and fails
  with the list of the references that name no output, in order, if there is one.\<close>

theorem resolve_value_segments:
  "concat (map seg_text (segments val)) = val
   \<and> resolve_value outputs val =
       (if missing_refs outputs (segments val) = [] then Inr (substituted outputs (segments val))
        else Inl (''unresolved template references: '' @ join '', '' (missing_refs outputs (segments val))))"
  by (simp add: segments_text resolve_value_eq)

text \<open>C27: a value written as text without braces and references, in any order and with any white
  space inside the braces, resolves to the same text with each reference replaced by the
  output it names. The outputs themselves may hold anything, templates included: they are
  inserted as they are.\<close>

theorem resolve_value_pieces:
  assumes "\<forall>p\<in>set ps. piece_ok p" and "\<forall>p\<in>set ps. piece_value outputs p \<noteq> None"
  shows "resolve_value outputs (concat (map piece_text ps))
    = Inr (concat (map (\<lambda>p. the (piece_value outputs p)) ps))"
  using pieces_resolved [OF assms(2)] by (simp add: resolve_value_eq segments_pieces [OF assms(1)])

theorem resolve_value_pieces_witness:
  "resolve_value (Some [(''a.b'', ''{{ steps.a.outputs.b }}'')]) (''x='' @ reference '' '' ''a'' ''b'' '' '' @ ''!'')
    = Inr ''x={{ steps.a.outputs.b }}!''"
proof -
  let ?ps = "[Text ''x='', Expr '' '' ''a'' ''b'' '' '', Text ''!'']"
  let ?o = "Some [(''a.b'', ''{{ steps.a.outputs.b }}'')]"
  have ok: "\<forall>p\<in>set ?ps. piece_ok p"
    by (simp add: step_name_ok_def output_name_ok_def is_name_char_def is_output_char_def
        is_lower_alnum_def is_space_def)
  have val: "\<forall>p\<in>set ?ps. piece_value ?o p \<noteq> None" by simp
  show ?thesis using resolve_value_pieces [OF ok val] by simp
qed

text \<open>With step names that are distinct and have no dot, a reference to output \<open>out\<close> of a
  step resolves to the value that step's status entry holds for \<open>out\<close>.\<close>

theorem reference_reads_step_output:
  assumes "dot_free ss" and "wf_outputs ss" and "distinct (map st_name ss)"
    and "s \<in> set ss" and "mget (st_outputs s) out = Some v"
    and "piece_ok (Expr ws (st_name s) out ws')"
  shows "resolve_value (build_output_index ss) (reference ws (st_name s) out ws') = Inr v"
proof -
  have "CHR ''.'' \<notin> set (st_name s)" using assms(1,4) by (simp add: dot_free_def)
  then have idx: "mget (build_output_index ss) (st_name s @ CHR ''.'' # out) = Some v"
    using assms by (simp add: build_output_index_lookup last_output_distinct)
  have sg: "segments (reference ws (st_name s) out ws') = [Ref (reference ws (st_name s) out ws') (st_name s) out]"
    using segments_reference [OF assms(6), of "[]"] by simp
  show ?thesis unfolding resolve_value_eq sg by (simp add: idx)
qed

theorem reference_reads_step_output_witness:
  "resolve_value (build_output_index
      [\<lparr>st_name = ''fetch'', st_phase = StepPhaseSucceeded, st_duration = [],
        st_outputs = Some [(''body'', ''42'')], st_logs = []\<rparr>])
    (reference '' '' ''fetch'' ''body'' []) = Inr ''42''"
proof -
  let ?s = "\<lparr>st_name = ''fetch'', st_phase = StepPhaseSucceeded, st_duration = [],
        st_outputs = Some [(''body'', ''42'')], st_logs = []\<rparr>"
  have ok: "piece_ok (Expr '' '' (st_name ?s) ''body'' [])"
    by (simp add: step_name_ok_def output_name_ok_def is_name_char_def is_output_char_def
        is_lower_alnum_def is_space_def)
  have "resolve_value (build_output_index [?s]) (reference '' '' (st_name ?s) ''body'' []) = Inr ''42''"
    by (rule reference_reads_step_output [OF _ _ _ _ _ ok])
       (simp_all add: dot_free_def wf_outputs_def wf_gomap_def)
  then show ?thesis by simp
qed

text \<open>C31: resolving a whole parameter map fails exactly when some parameter has a reference to an
  output that does not exist; otherwise the result has exactly the keys of the input, each
  with its references replaced.\<close>

theorem resolve_templates_spec:
  "case resolve_templates printable params ss of
     Inl e \<Rightarrow> \<exists>(k, v)\<in>set (entries params). missing_refs (build_output_index ss) (segments v) \<noteq> []
   | Inr r \<Rightarrow> list_all (\<lambda>(k, v). missing_refs (build_output_index ss) (segments v) = []) (entries params)
       \<and> (\<forall>k. mget r k = map_option (\<lambda>v. substituted (build_output_index ss) (segments v)) (mget params k))"
  using resolve_templates_ok_iff [of printable params ss] resolve_templates_Inr [of printable params ss]
  by (auto simp: list_all_iff split: sum.splits)

text \<open>Go leaves open in which order \<open>ResolveTemplates\<close> visits the parameters; when it
  succeeds in one order it succeeds in every order, with the same map.\<close>

theorem resolve_templates_any_order:
  assumes "wf_gomap (Some es)" and "distinct (map fst es')" and "set es' = set es"
    and "resolve_templates printable (Some es) ss = Inr r"
  shows "\<exists>r'. resolve_templates printable' (Some es') ss = Inr r' \<and> (\<forall>k. mget r' k = mget r k)"
proof -
  have "\<exists>r'. resolve_templates printable' (Some es') ss = Inr r'"
    using assms(3,4) resolve_templates_ok_iff [of printable "Some es" ss]
      resolve_templates_ok_iff [of printable' "Some es'" ss] by simp
  then obtain r' where r': "resolve_templates printable' (Some es') ss = Inr r'" by blast
  have "map_of es' = map_of es"
    using assms(1-3) by (intro map_of_perm) (simp_all add: wf_gomap_def)
  then have "mget r' k = mget r k" for k
    by (simp add: resolve_templates_Inr [OF r'] resolve_templates_Inr [OF assms(4)])
  with r' show ?thesis by blast
qed

theorem resolve_templates_any_order_witness:
  "\<exists>r'. resolve_templates (\<lambda>_. True) (Some [(''b'', ''y''), (''a'', ''x'')]) [] = Inr r'
     \<and> (\<forall>k. mget r' k = mget (Some [(''a'', ''x''), (''b'', ''y'')]) k)"
  by (rule resolve_templates_any_order [where es = "[(''a'', ''x''), (''b'', ''y'')]"
        and printable = "\<lambda>_. True"])
     (auto simp: wf_gomap_def resolve_templates_def resolve_value_eq no_brace_no_match)

end
