(* ===== verification/KubeTypes.thy ===== *)
theory KubeTypes
  imports ApiTypes "HOL-Library.Word"
begin

text \<open>
  The Kubernetes objects the controller reads and writes, as far as the source uses their
  fields: \<open>corev1\<close> secrets, config maps, pods and containers, \<open>appsv1\<close> workloads and
  \<open>batchv1\<close> jobs and cron jobs. These are data declared in k8s.io/api; nothing here is code
  of the repository, and no definition of this theory is mapped to it. A data map that the
  source only indexes is a HOL map, under an option where the source tests for the nil map.
\<close>

section \<open>Secrets, config maps and workloads\<close>

record secret =
  sec_meta :: object_meta
  sec_data :: "(string \<rightharpoonup> string) option"

record config_map =
  cm_meta :: object_meta
  cm_data :: "(string \<rightharpoonup> string) option"

datatype workload_kind = Deployment | StatefulSet | DaemonSet

text \<open>A Deployment, StatefulSet or DaemonSet: its pod template's annotations, and the rest of
  its specification as one opaque value.\<close>

record workload =
  wl_meta :: object_meta
  wl_template_annotations :: "(string \<rightharpoonup> string) option"
  wl_rest :: string

section \<open>Pods\<close>

record env_var =
  ev_name :: string
  ev_value :: string

record volume_mount =
  vm_name :: string
  vm_mount_path :: string
  vm_read_only :: bool

text \<open>Of \<open>EnvFrom\<close> the record keeps the name of the referenced Secret.\<close>

record container =
  ctr_name :: string
  ctr_image :: string
  ctr_command :: "string list"
  ctr_env :: "env_var list"
  ctr_env_from_secrets :: "string list"
  ctr_volume_mounts :: "volume_mount list"

datatype volume_source = EmptyDir | ConfigMapSource string

record volume =
  vol_name :: string
  vol_source :: volume_source

datatype restart_policy = RestartPolicyAlways | RestartPolicyOnFailure | RestartPolicyNever

record pod_spec =
  ps_restart_policy :: restart_policy
  ps_init_containers :: "container list"
  ps_containers :: "container list"
  ps_volumes :: "volume list"

record pod_template_spec =
  pts_labels :: "string gomap"
  pts_spec :: pod_spec

section \<open>Jobs and cron jobs\<close>

record job_spec =
  jbs_backoff_limit :: "32 word option"
  jbs_template :: pod_template_spec

record job_status =
  jst_start_time :: "time option"
  jst_completion_time :: "time option"
  jst_succeeded :: "32 word"
  jst_failed :: "32 word"

record job =
  job_meta :: object_meta
  job_spec :: job_spec
  job_status :: job_status

definition empty_job_status :: job_status where
  "empty_job_status =
     \<lparr>jst_start_time = None, jst_completion_time = None, jst_succeeded = 0, jst_failed = 0\<rparr>"

datatype batch_concurrency_policy = AllowConcurrent | ForbidConcurrent | ReplaceConcurrent

record cron_job =
  cj_meta :: object_meta
  cj_schedule :: string
  cj_concurrency_policy :: batch_concurrency_policy
  cj_job_template_meta :: object_meta
  cj_job_template_spec :: job_spec

section \<open>Fresh metadata\<close>

definition fresh_meta :: "string \<Rightarrow> string \<Rightarrow> string gomap \<Rightarrow> object_meta" where
  \<comment> \<open>\<open>metav1.ObjectMeta\<close> with a name, a namespace and labels, all else at its zero value\<close>
  "fresh_meta name ns labels =
     \<lparr>om_name = name, om_namespace = ns, om_generation = 0, om_labels = labels,
      om_owner_references = [], om_extra = []\<rparr>"

lemma fresh_meta_simps [simp]:
  "om_name (fresh_meta n ns l) = n"
  "om_namespace (fresh_meta n ns l) = ns"
  "om_labels (fresh_meta n ns l) = l"
  "om_owner_references (fresh_meta n ns l) = []"
  by (simp_all add: fresh_meta_def)

end
