(* ===== verification/Client.thy ===== *)
theory Client
  imports KubeTypes "HOL-Library.State_Monad"
begin

text \<open>
  The boundary of the program: the Kubernetes API behind \<open>client.Client\<close> and
  \<open>kubernetes.Interface\<close>, the clock and the context. None of it is code of the repository, so
  it is a parameter: a record of operations on an unknown world \<open>'w\<close>. An operation answers and
  may change the world, so latency, concurrent writers and failures are all covered.

  The controller's own state is what it hands around by pointer: the TaskRun in memory, the
  Prometheus counters (as the list of observations made) and a log of the requests it has
  sent. Controller code is a computation in HOL-Library's state monad over that state;
  \<open>wp\<close> reads such a computation backwards from a postcondition, and simplification with
  \<open>wp\<close> is how the components prove what a computation does.
\<close>

section \<open>The API\<close>

datatype api_error = NotFound string | ApiError string

fun api_error_text :: "api_error \<Rightarrow> string" where
  "api_error_text (NotFound s) = s"
| "api_error_text (ApiError s) = s"

fun is_not_found :: "api_error \<Rightarrow> bool" where
  "is_not_found (NotFound _) = True"
| "is_not_found (ApiError _) = False"

datatype pod_logs = StreamError string | ReadError string | LogBytes string

record 'w client =
  cl_get_task_run :: "namespaced_name \<Rightarrow> 'w \<Rightarrow> (api_error + task_run) \<times> 'w"
  cl_get_step_definition :: "namespaced_name \<Rightarrow> 'w \<Rightarrow> (api_error + step_definition) \<times> 'w"
  cl_get_cluster_step_definition :: "string \<Rightarrow> 'w \<Rightarrow> (api_error + cluster_step_definition) \<times> 'w"
  cl_get_secret :: "namespaced_name \<Rightarrow> 'w \<Rightarrow> (api_error + secret) \<times> 'w"
  cl_get_config_map :: "namespaced_name \<Rightarrow> 'w \<Rightarrow> (api_error + config_map) \<times> 'w"
  cl_get_workload :: "workload_kind \<Rightarrow> namespaced_name \<Rightarrow> 'w \<Rightarrow> (api_error + workload) \<times> 'w"
  cl_get_job :: "namespaced_name \<Rightarrow> 'w \<Rightarrow> (api_error + job) \<times> 'w"
  cl_get_cron_job :: "namespaced_name \<Rightarrow> 'w \<Rightarrow> (api_error + cron_job) \<times> 'w"
  cl_create_secret :: "secret \<Rightarrow> 'w \<Rightarrow> api_error option \<times> 'w"
  cl_create_config_map :: "config_map \<Rightarrow> 'w \<Rightarrow> api_error option \<times> 'w"
  cl_create_job :: "job \<Rightarrow> 'w \<Rightarrow> api_error option \<times> 'w"
  cl_create_cron_job :: "cron_job \<Rightarrow> 'w \<Rightarrow> api_error option \<times> 'w"
  cl_update_secret :: "secret \<Rightarrow> 'w \<Rightarrow> api_error option \<times> 'w"
  cl_update_config_map :: "config_map \<Rightarrow> 'w \<Rightarrow> api_error option \<times> 'w"
  cl_update_workload :: "workload_kind \<Rightarrow> workload \<Rightarrow> 'w \<Rightarrow> api_error option \<times> 'w"
  cl_update_status :: "task_run \<Rightarrow> 'w \<Rightarrow> (api_error + task_run) \<times> 'w"
  cl_list_pods :: "string \<Rightarrow> (string \<times> string) list \<Rightarrow> 'w \<Rightarrow> (api_error + string list) \<times> 'w"
  cl_pod_logs :: "string \<Rightarrow> string \<Rightarrow> string \<Rightarrow> int option \<Rightarrow> 'w \<Rightarrow> pod_logs \<times> 'w"
  cl_now :: "'w \<Rightarrow> time \<times> 'w"
  cl_wait :: "duration \<Rightarrow> 'w \<Rightarrow> string option \<times> 'w"

text \<open>
  \<open>cl_update_status\<close> answers with the object as the server stored it, which the Go client
  decodes into the object it was given. \<open>cl_list_pods\<close> answers with the names of the pods.
  \<open>cl_wait d\<close> is the choice between \<open>time.After(d)\<close> and \<open>ctx.Done()\<close>: \<open>None\<close> when the timer
  came first, the context's error otherwise.
\<close>

section \<open>Requests and observations\<close>

datatype api_call =
    GetTaskRun namespaced_name
  | GetStepDefinition namespaced_name
  | GetClusterStepDefinition string
  | GetSecret namespaced_name
  | GetConfigMap namespaced_name
  | GetWorkload workload_kind namespaced_name
  | GetJob namespaced_name
  | GetCronJob namespaced_name
  | CreateSecret secret
  | CreateConfigMap config_map
  | CreateJob job
  | CreateCronJob cron_job
  | UpdateSecret secret
  | UpdateConfigMap config_map
  | UpdateWorkload workload_kind workload
  | UpdateStatus task_run
  | ListPods string "(string \<times> string) list"
  | PodLogs string string string "int option"

text \<open>The metrics of \<open>internal/metrics\<close>, one constructor per vector and one value per
  increment or observation. A histogram observes seconds as a float; the observation here is
  the duration it is computed from.\<close>

datatype metric =
    TaskRunTotal string string
  | TaskRunDuration string duration
  | StepTotal string string string
  | StepDuration string string duration

record 'w st =
  ext :: 'w
  calls :: "api_call list"
  metrics :: "metric list"
  task :: task_run

type_synonym ('w, 'a) prog = "('w st, 'a) state"

abbreviation return :: "'a \<Rightarrow> ('w, 'a) prog" where
  "return x \<equiv> State_Monad.return x"

definition request :: "api_call \<Rightarrow> ('w \<Rightarrow> 'r \<times> 'w) \<Rightarrow> ('w, 'r) prog" where
  "request c op = State (\<lambda>s. case op (ext s) of (r, w) \<Rightarrow> (r, s\<lparr>ext := w, calls := calls s @ [c]\<rparr>))"

definition ask :: "('w \<Rightarrow> 'r \<times> 'w) \<Rightarrow> ('w, 'r) prog" where
  \<comment> \<open>the clock and the timer: an answer of the world that is no API request\<close>
  "ask op = State (\<lambda>s. case op (ext s) of (r, w) \<Rightarrow> (r, s\<lparr>ext := w\<rparr>))"

definition get_task :: "('w, task_run) prog" where
  "get_task = State (\<lambda>s. (task s, s))"

definition put_task :: "task_run \<Rightarrow> ('w, unit) prog" where
  "put_task t = State (\<lambda>s. ((), s\<lparr>task := t\<rparr>))"

definition observe :: "metric list \<Rightarrow> ('w, unit) prog" where
  "observe ms = State (\<lambda>s. ((), s\<lparr>metrics := metrics s @ ms\<rparr>))"

definition update_status :: "'w client \<Rightarrow> ('w, api_error option) prog" where
  \<comment> \<open>\<open>client.Status().Update(ctx, taskRun)\<close>: the answer replaces the TaskRun in memory\<close>
  "update_status C =
     do { tr \<leftarrow> get_task;
          r \<leftarrow> request (UpdateStatus tr) (cl_update_status C tr);
          (case r of
             Inl e \<Rightarrow> return (Some e)
           | Inr tr' \<Rightarrow> do { put_task tr'; return None }) }"

definition modify_status :: "(task_run_status \<Rightarrow> task_run_status) \<Rightarrow> ('w, unit) prog" where
  \<comment> \<open>an assignment through \<open>taskRun.Status\<close>\<close>
  "modify_status f =
     do { tr \<leftarrow> get_task; put_task (tr\<lparr>tr_status := f (tr_status tr)\<rparr>) }"

section \<open>Weakest preconditions\<close>

definition wp :: "('s, 'a) state \<Rightarrow> ('a \<Rightarrow> 's \<Rightarrow> bool) \<Rightarrow> 's \<Rightarrow> bool" where
  "wp m Q s = (case run_state m s of (r, s') \<Rightarrow> Q r s')"

lemma wp_run: "wp m Q s \<longleftrightarrow> (\<forall>r s'. run_state m s = (r, s') \<longrightarrow> Q r s')"
  by (auto simp: wp_def split: prod.splits)

lemma wpD: "wp m Q s \<Longrightarrow> run_state m s = (r, s') \<Longrightarrow> Q r s'"
  by (simp add: wp_def)

lemma wp_mono: "wp m Q s \<Longrightarrow> (\<And>r s'. Q r s' \<Longrightarrow> R r s') \<Longrightarrow> wp m R s"
  by (auto simp: wp_def split: prod.splits)

lemma wp_conj: "wp m (\<lambda>r s'. Q r s' \<and> R r s') s \<longleftrightarrow> wp m Q s \<and> wp m R s"
  by (auto simp: wp_def split: prod.splits)

lemma wp_return [simp]: "wp (return x) Q s = Q x s"
  by (simp add: wp_def)

lemma wp_bind [simp]: "wp (State_Monad.bind m f) Q s = wp m (\<lambda>x. wp (f x) Q) s"
  by (simp add: wp_def split: prod.splits)

lemma wp_request [simp]:
  "wp (request c op) Q s =
     (case op (ext s) of (r, w) \<Rightarrow> Q r (s\<lparr>ext := w, calls := calls s @ [c]\<rparr>))"
  by (simp add: wp_def request_def split: prod.splits)

lemma wp_ask [simp]: "wp (ask op) Q s = (case op (ext s) of (r, w) \<Rightarrow> Q r (s\<lparr>ext := w\<rparr>))"
  by (simp add: wp_def ask_def split: prod.splits)

lemma wp_get_task [simp]: "wp get_task Q s = Q (task s) s"
  by (simp add: wp_def get_task_def)

lemma wp_put_task [simp]: "wp (put_task t) Q s = Q () (s\<lparr>task := t\<rparr>)"
  by (simp add: wp_def put_task_def)

lemma wp_observe [simp]: "wp (observe ms) Q s = Q () (s\<lparr>metrics := metrics s @ ms\<rparr>)"
  by (simp add: wp_def observe_def)

lemma wp_modify_status [simp]:
  "wp (modify_status f) Q s = Q () (s\<lparr>task := (task s)\<lparr>tr_status := f (tr_status (task s))\<rparr>\<rparr>)"
  by (simp add: modify_status_def)

lemma wp_if: "wp (if b then m else n) Q s = (if b then wp m Q s else wp n Q s)"
  by simp

lemma wp_case_sum [simp]:
  "wp (case x of Inl a \<Rightarrow> f a | Inr b \<Rightarrow> g b) Q s =
     (case x of Inl a \<Rightarrow> wp (f a) Q s | Inr b \<Rightarrow> wp (g b) Q s)"
  by (cases x) simp_all

lemma wp_case_option [simp]:
  "wp (case x of None \<Rightarrow> m | Some a \<Rightarrow> f a) Q s =
     (case x of None \<Rightarrow> wp m Q s | Some a \<Rightarrow> wp (f a) Q s)"
  by (cases x) simp_all

lemma wp_case_prod [simp]:
  "wp (case x of (a, b) \<Rightarrow> f a b) Q s = (case x of (a, b) \<Rightarrow> wp (f a b) Q s)"
  by (cases x) simp_all

lemma wp_let [simp]: "wp (let x = e in f x) Q s = (let x = e in wp (f x) Q s)"
  by simp

declare wp_if [simp]

section \<open>What a computation may send\<close>

text \<open>
  \<open>sends P m\<close>: \<open>m\<close> only appends to the log of requests, and only requests in \<open>P\<close>. The rules
  follow the structure of a computation, so that \<open>auto\<close> with \<open>sends_rules\<close> decides most
  instances; an operation's own fact joins the collection.
\<close>

definition sends :: "(api_call \<Rightarrow> bool) \<Rightarrow> ('w, 'a) prog \<Rightarrow> bool" where
  "sends P m \<longleftrightarrow> (\<forall>s. \<exists>cs. calls (snd (run_state m s)) = calls s @ cs \<and> list_all P cs)"

named_theorems sends_rules \<open>rules for the requests a computation may send\<close>

lemma sends_return [sends_rules, simp]: "sends P (return x)"
  by (simp add: sends_def)

lemma sends_bind [sends_rules]:
  assumes "sends P m" and "\<And>x. sends P (f x)"
  shows "sends P (State_Monad.bind m f)"
  unfolding sends_def
proof
  fix s
  obtain x s1 where m: "run_state m s = (x, s1)" by (cases "run_state m s")
  obtain y s2 where f: "run_state (f x) s1 = (y, s2)" by (cases "run_state (f x) s1")
  obtain cs where cs: "calls s1 = calls s @ cs" "list_all P cs"
    using assms(1) m unfolding sends_def by (metis snd_conv)
  obtain ds where ds: "calls s2 = calls s1 @ ds" "list_all P ds"
    using assms(2) [of x] f unfolding sends_def by (metis snd_conv)
  have "calls s2 = calls s @ (cs @ ds) \<and> list_all P (cs @ ds)"
    using cs ds by simp
  then show "\<exists>cs. calls (snd (run_state (State_Monad.bind m f) s)) = calls s @ cs \<and> list_all P cs"
    using m f by auto
qed

lemma sends_request [sends_rules]: "P c \<Longrightarrow> sends P (request c op)"
  by (auto simp: sends_def request_def split: prod.splits)

lemma sends_no_request [sends_rules, simp]:
  "sends P (ask op)"
  "sends P get_task"
  "sends P (put_task t)"
  "sends P (observe ms)"
  "sends P (modify_status f)"
  by (auto simp: sends_def ask_def get_task_def put_task_def observe_def modify_status_def
      split: prod.splits)

lemma sends_if [sends_rules]: "(b \<Longrightarrow> sends P m) \<Longrightarrow> (\<not> b \<Longrightarrow> sends P n) \<Longrightarrow> sends P (if b then m else n)"
  by simp

lemma sends_case_sum [sends_rules]:
  "(\<And>a. x = Inl a \<Longrightarrow> sends P (f a)) \<Longrightarrow> (\<And>b. x = Inr b \<Longrightarrow> sends P (g b)) \<Longrightarrow>
     sends P (case x of Inl a \<Rightarrow> f a | Inr b \<Rightarrow> g b)"
  by (cases x) simp_all

lemma sends_case_option [sends_rules]:
  "(x = None \<Longrightarrow> sends P m) \<Longrightarrow> (\<And>a. x = Some a \<Longrightarrow> sends P (f a)) \<Longrightarrow>
     sends P (case x of None \<Rightarrow> m | Some a \<Rightarrow> f a)"
  by (cases x) simp_all

lemma sends_case_prod [sends_rules]:
  "(\<And>a b. x = (a, b) \<Longrightarrow> sends P (f a b)) \<Longrightarrow> sends P (case x of (a, b) \<Rightarrow> f a b)"
  by (cases x) simp

lemma sends_let [sends_rules]: "sends P (f e) \<Longrightarrow> sends P (let x = e in f x)"
  by simp

lemma sends_mono: "sends P m \<Longrightarrow> (\<And>c. P c \<Longrightarrow> Q c) \<Longrightarrow> sends Q m"
  unfolding sends_def by (metis list.pred_mono_strong)

lemma sendsD:
  assumes "sends P m" and "run_state m s = (r, s')"
  obtains cs where "calls s' = calls s @ cs" and "list_all P cs"
  using assms unfolding sends_def by (metis snd_conv)

lemma sends_member:
  assumes "sends P m" and "run_state m s = (r, s')" and "c \<in> set (calls s')"
  shows "c \<in> set (calls s) \<or> P c"
proof -
  obtain cs where "calls s' = calls s @ cs" "list_all P cs"
    by (rule sendsD [OF assms(1,2)])
  with assms(3) show ?thesis by (auto simp: list_all_iff)
qed

lemma sends_update_status [sends_rules]: "(\<And>tr. P (UpdateStatus tr)) \<Longrightarrow> sends P (update_status C)"
  unfolding update_status_def
  by (intro sends_bind sends_case_sum sends_request sends_return sends_no_request)

lemma sends_wp: "sends P m \<Longrightarrow> wp m (\<lambda>_ s'. \<exists>cs. calls s' = calls s @ cs \<and> list_all P cs) s"
  by (simp add: wp_def sends_def split_beta)

end
