(* ===== verification/GoJson.thy ===== *)
theory GoJson
  imports GoStrings "HOL-Library.List_Lexorder" "HOL-Library.Char_ord"
begin

text \<open>
  The parts of \<open>encoding/json\<close> the source uses: \<open>Marshal\<close> of a \<open>map[string]string\<close>,
  \<open>Unmarshal\<close> into \<open>any\<close> and into a \<open>map[string]map[string]string\<close>. \<open>parse_json\<close> is the
  grammar of JSON with Go's limit on nesting; a string is decoded as Go decodes it, with the
  replacement character for bytes that are not UTF-8 and for lone surrogates. A number stays
  the literal it is; whether a literal fits a float is an argument of the conversion to
  \<open>any\<close>. The parser spends one unit of fuel per call, and one more than the length of the
  input is enough since every call consumes a character (\<open>JsonFacts\<close>).
\<close>

datatype json =
    JNull
  | JBool bool
  | JNum string
  | JStr string
  | JArr "json list"
  | JObj "(string \<times> json) list"

section \<open>Encoding\<close>

definition json_escape :: "nat \<Rightarrow> string" where
  \<comment> \<open>a byte below 128 inside a string, with HTML characters escaped\<close>
  "json_escape b =
     (if b = 34 \<or> b = 92 then [backslash, char_of b]
      else if b = 8 then backslash # ''b''
      else if b = 12 then backslash # ''f''
      else if b = 10 then backslash # ''n''
      else if b = 13 then backslash # ''r''
      else if b = 9 then backslash # ''t''
      else if b < 32 \<or> b = 60 \<or> b = 62 \<or> b = 38 then backslash # ''u'' @ hex 4 b
      else [char_of b])"

function json_string_body :: "string \<Rightarrow> string" where
  "json_string_body [] = []"
| "json_string_body (c # cs) =
     (if (of_char c :: nat) < 128 then json_escape (of_char c) @ json_string_body cs
      else case decode_rune (c # cs) of
             None \<Rightarrow> backslash # ''ufffd'' @ json_string_body cs
           | Some (r, w) \<Rightarrow>
               (if r = 8232 \<or> r = 8233 then backslash # ''u'' @ hex 4 r else take w (c # cs))
               @ json_string_body (drop w (c # cs)))"
  by pat_completeness auto
termination
  by (relation "measure length") (auto dest: decode_rune_width)

definition json_string :: "string \<Rightarrow> string" where
  "json_string s = dquote # json_string_body s @ [dquote]"

definition json_member :: "string \<times> string \<Rightarrow> string" where
  "json_member e = json_string (fst e) @ '':'' @ json_string (snd e)"

definition json_marshal_map :: "string gomap \<Rightarrow> string" where
  \<comment> \<open>\<open>json.Marshal\<close> of a \<open>map[string]string\<close>: keys in order, \<open>null\<close> for the nil map\<close>
  "json_marshal_map m =
     (case m of
        None \<Rightarrow> ''null''
      | Some es \<Rightarrow> ''{'' @ join '','' (map json_member (sort_key fst es)) @ ''}'')"

section \<open>Decoding strings\<close>

definition encode_rune :: "nat \<Rightarrow> string" where
  \<comment> \<open>UTF-8, the replacement character for a surrogate\<close>
  "encode_rune r =
     (let q = (if 55296 \<le> r \<and> r \<le> 57343 then 65533 else r) in
      if q < 128 then [char_of q]
      else if q < 2048 then [char_of (192 + q div 64), char_of (128 + q mod 64)]
      else if q < 65536 then
        [char_of (224 + q div 4096), char_of (128 + q div 64 mod 64), char_of (128 + q mod 64)]
      else [char_of (240 + q div 262144), char_of (128 + q div 4096 mod 64),
            char_of (128 + q div 64 mod 64), char_of (128 + q mod 64)])"

definition hex_val :: "char \<Rightarrow> nat option" where
  "hex_val c =
     (let b = (of_char c :: nat) in
      if 48 \<le> b \<and> b \<le> 57 then Some (b - 48)
      else if 97 \<le> b \<and> b \<le> 102 then Some (b - 87)
      else if 65 \<le> b \<and> b \<le> 70 then Some (b - 55)
      else None)"

definition hex4 :: "string \<Rightarrow> nat option" where
  "hex4 s =
     (case s of
        [a, b, c, d] \<Rightarrow>
          (case (hex_val a, hex_val b, hex_val c, hex_val d) of
             (Some w, Some x, Some y, Some z) \<Rightarrow> Some (((w * 16 + x) * 16 + y) * 16 + z)
           | _ \<Rightarrow> None)
      | _ \<Rightarrow> None)"

definition simple_escape :: "char \<Rightarrow> string option" where
  "simple_escape c =
     (let b = (of_char c :: nat) in
      if b = 34 \<or> b = 92 \<or> b = 47 then Some [c]
      else if c = CHR ''b'' then Some [char_of (8 :: nat)]
      else if c = CHR ''f'' then Some [char_of (12 :: nat)]
      else if c = CHR ''n'' then Some [char_of (10 :: nat)]
      else if c = CHR ''r'' then Some [char_of (13 :: nat)]
      else if c = CHR ''t'' then Some [char_of (9 :: nat)]
      else None)"

definition unicode_escape :: "string \<Rightarrow> (string \<times> nat) option" where
  \<comment> \<open>what follows a backslash and \<open>u\<close>: the text it stands for and the characters it takes; a
     high surrogate takes the low surrogate that follows it\<close>
  "unicode_escape s =
     (case hex4 (take 4 s) of
        None \<Rightarrow> None
      | Some r \<Rightarrow>
          if 55296 \<le> r \<and> r \<le> 56319 \<and> take 2 (drop 4 s) = [backslash, CHR ''u''] then
            (case hex4 (take 4 (drop 6 s)) of
               Some q \<Rightarrow>
                 if 56320 \<le> q \<and> q \<le> 57343
                 then Some (encode_rune (65536 + (r - 55296) * 1024 + (q - 56320)), 10)
                 else Some (encode_rune r, 4)
             | None \<Rightarrow> Some (encode_rune r, 4))
          else Some (encode_rune r, 4))"

function parse_string_body :: "string \<Rightarrow> (string \<times> string) option" where
  \<comment> \<open>after the opening quote: the decoded text and what follows the closing quote\<close>
  "parse_string_body [] = None"
| "parse_string_body (c # cs) =
     (let b = (of_char c :: nat) in
      if b = 34 then Some ([], cs)
      else if b = 92 then
        (case cs of
           [] \<Rightarrow> None
         | e # es \<Rightarrow>
             if e = CHR ''u'' then
               (case unicode_escape es of
                  None \<Rightarrow> None
                | Some (t, k) \<Rightarrow> map_option (\<lambda>(u, r). (t @ u, r)) (parse_string_body (drop k es)))
             else
               (case simple_escape e of
                  None \<Rightarrow> None
                | Some t \<Rightarrow> map_option (\<lambda>(u, r). (t @ u, r)) (parse_string_body es)))
      else if b < 32 then None
      else if b < 128 then map_option (\<lambda>(u, r). (c # u, r)) (parse_string_body cs)
      else
        (case decode_rune (c # cs) of
           None \<Rightarrow> map_option (\<lambda>(u, r). (encode_rune 65533 @ u, r)) (parse_string_body cs)
         | Some (_, w) \<Rightarrow>
             map_option (\<lambda>(u, r). (take w (c # cs) @ u, r)) (parse_string_body (drop w (c # cs)))))"
  by pat_completeness auto
termination
  by (relation "measure length") (auto dest: decode_rune_width)

section \<open>Numbers\<close>

definition json_exponent :: "string \<Rightarrow> string option" where
  \<comment> \<open>what follows an optional exponent\<close>
  "json_exponent s =
     (case s of
        c # cs \<Rightarrow>
          if c = CHR ''e'' \<or> c = CHR ''E'' then
            (let ds = (case cs of d # es \<Rightarrow> if d = CHR ''+'' \<or> d = CHR ''-'' then es else cs | [] \<Rightarrow> [])
             in if takeWhile is_digit ds = [] then None else Some (dropWhile is_digit ds))
          else Some s
      | [] \<Rightarrow> Some [])"

definition json_fraction :: "string \<Rightarrow> string option" where
  "json_fraction s =
     (case s of
        c # cs \<Rightarrow>
          if c = CHR ''.'' then
            (if takeWhile is_digit cs = [] then None else Some (dropWhile is_digit cs))
          else Some s
      | [] \<Rightarrow> Some [])"

definition json_number :: "string \<Rightarrow> (string \<times> string) option" where
  \<comment> \<open>a number literal at the front\<close>
  "json_number s =
     (let t = (case s of c # cs \<Rightarrow> if c = CHR ''-'' then cs else s | [] \<Rightarrow> []);
          int_rest = (case t of
             [] \<Rightarrow> None
           | c # cs \<Rightarrow> if c = CHR ''0'' then Some cs
                     else if is_digit c then Some (dropWhile is_digit cs) else None)
      in case int_rest of None \<Rightarrow> None | Some r1 \<Rightarrow>
         (case json_fraction r1 of None \<Rightarrow> None | Some r2 \<Rightarrow>
         (case json_exponent r2 of None \<Rightarrow> None | Some r3 \<Rightarrow>
            Some (take (length s - length r3) s, r3))))"

section \<open>Values\<close>

definition is_json_space :: "char \<Rightarrow> bool" where
  "is_json_space c \<longleftrightarrow> (of_char c :: nat) \<in> {9, 10, 13, 32}"

abbreviation skip_space :: "string \<Rightarrow> string" where
  "skip_space s \<equiv> dropWhile is_json_space s"

definition max_nesting :: nat where
  "max_nesting = 10000"

fun parse_value :: "nat \<Rightarrow> nat \<Rightarrow> string \<Rightarrow> (json \<times> string) option"
  and parse_members :: "nat \<Rightarrow> nat \<Rightarrow> string \<Rightarrow> ((string \<times> json) list \<times> string) option"
  and parse_elements :: "nat \<Rightarrow> nat \<Rightarrow> string \<Rightarrow> (json list \<times> string) option" where
  \<comment> \<open>fuel, levels of nesting left, input without leading white space\<close>
  "parse_value 0 d s = None"
| "parse_value (Suc k) d s =
     (case s of
        [] \<Rightarrow> None
      | c # cs \<Rightarrow>
          if c = CHR ''{'' then
            (case d of
               0 \<Rightarrow> None
             | Suc d' \<Rightarrow>
                 (case strip_lit ''}'' (skip_space cs) of
                    Some r \<Rightarrow> Some (JObj [], r)
                  | None \<Rightarrow> map_option (\<lambda>(ms, r). (JObj ms, r)) (parse_members k d' (skip_space cs))))
          else if c = CHR ''['' then
            (case d of
               0 \<Rightarrow> None
             | Suc d' \<Rightarrow>
                 (case strip_lit '']'' (skip_space cs) of
                    Some r \<Rightarrow> Some (JArr [], r)
                  | None \<Rightarrow> map_option (\<lambda>(vs, r). (JArr vs, r)) (parse_elements k d' (skip_space cs))))
          else if c = dquote then map_option (\<lambda>(t, r). (JStr t, r)) (parse_string_body cs)
          else case strip_lit ''null'' s of Some r \<Rightarrow> Some (JNull, r) | None \<Rightarrow>
          (case strip_lit ''true'' s of Some r \<Rightarrow> Some (JBool True, r) | None \<Rightarrow>
          (case strip_lit ''false'' s of Some r \<Rightarrow> Some (JBool False, r) | None \<Rightarrow>
             map_option (\<lambda>(t, r). (JNum t, r)) (json_number s))))"
| "parse_members 0 d s = None"
| "parse_members (Suc k) d s =
     (case strip_lit [dquote] s of None \<Rightarrow> None | Some s1 \<Rightarrow>
      case parse_string_body s1 of None \<Rightarrow> None | Some (key, s2) \<Rightarrow>
      case strip_lit '':'' (skip_space s2) of None \<Rightarrow> None | Some s3 \<Rightarrow>
      case parse_value k d (skip_space s3) of None \<Rightarrow> None | Some (v, s4) \<Rightarrow>
      case strip_lit '','' (skip_space s4) of
        Some s5 \<Rightarrow> map_option (\<lambda>(ms, r). ((key, v) # ms, r)) (parse_members k d (skip_space s5))
      | None \<Rightarrow> (case strip_lit ''}'' (skip_space s4) of
                  Some r \<Rightarrow> Some ([(key, v)], r) | None \<Rightarrow> None))"
| "parse_elements 0 d s = None"
| "parse_elements (Suc k) d s =
     (case parse_value k d s of None \<Rightarrow> None | Some (v, s1) \<Rightarrow>
      case strip_lit '','' (skip_space s1) of
        Some s2 \<Rightarrow> map_option (\<lambda>(vs, r). (v # vs, r)) (parse_elements k d (skip_space s2))
      | None \<Rightarrow> (case strip_lit '']'' (skip_space s1) of
                  Some r \<Rightarrow> Some ([v], r) | None \<Rightarrow> None))"

definition parse_json :: "string \<Rightarrow> json option" where
  "parse_json s =
     (case parse_value (Suc (length s)) max_nesting (skip_space s) of
        Some (v, r) \<Rightarrow> if skip_space r = [] then Some v else None
      | None \<Rightarrow> None)"

section \<open>Conversion to Go values\<close>

fun last_wins :: "(string \<times> 'a) list \<Rightarrow> (string \<times> 'a) list" where
  \<comment> \<open>a key that occurs again overwrites\<close>
  "last_wins es = fold (\<lambda>(k, v) m. AList.update k v m) es []"

declare last_wins.simps [simp del]

fun numbers_fit :: "(string \<Rightarrow> bool) \<Rightarrow> json \<Rightarrow> bool" where
  "numbers_fit fits (JNum t) = fits t"
| "numbers_fit fits (JArr vs) = list_all (numbers_fit fits) vs"
| "numbers_fit fits (JObj ms) = list_all (\<lambda>(k, v). numbers_fit fits v) ms"
| "numbers_fit fits _ = True"

fun json_any :: "json \<Rightarrow> json" where
  \<comment> \<open>the value as \<open>any\<close>: nested maps with each key once\<close>
  "json_any (JArr vs) = JArr (map json_any vs)"
| "json_any (JObj ms) = JObj (last_wins (map (\<lambda>(k, v). (k, json_any v)) ms))"
| "json_any v = v"

datatype json_error = JsonSyntaxError | JsonNumberError

definition json_unmarshal_any :: "(string \<Rightarrow> bool) \<Rightarrow> string \<Rightarrow> json_error + json" where
  "json_unmarshal_any fits s =
     (case parse_json s of
        None \<Rightarrow> Inl JsonSyntaxError
      | Some v \<Rightarrow> if numbers_fit fits v then Inr (json_any v) else Inl JsonNumberError)"

fun string_or_null :: "json \<Rightarrow> string option" where
  \<comment> \<open>decoding into a \<open>string\<close>: \<open>null\<close> leaves the empty string\<close>
  "string_or_null JNull = Some []"
| "string_or_null (JStr t) = Some t"
| "string_or_null _ = None"

fun json_inner_map :: "json \<Rightarrow> string gomap option" where
  \<comment> \<open>a \<open>map[string]string\<close>: \<open>None\<close> is the type error; \<open>null\<close> is the nil map, or the empty
     string as a value\<close>
  "json_inner_map JNull = Some None"
| "json_inner_map (JObj ms) =
     (if list_all (\<lambda>(k, v). string_or_null v \<noteq> None) ms
      then Some (Some (last_wins (map (\<lambda>(k, v). (k, the (string_or_null v))) ms)))
      else None)"
| "json_inner_map _ = None"

fun json_nested_map :: "json \<Rightarrow> (string gomap) gomap option" where
  \<comment> \<open>a \<open>map[string]map[string]string\<close>\<close>
  "json_nested_map JNull = Some None"
| "json_nested_map (JObj ms) =
     (if list_all (\<lambda>(k, v). json_inner_map v \<noteq> None) ms
      then Some (Some (last_wins (map (\<lambda>(k, v). (k, the (json_inner_map v))) ms)))
      else None)"
| "json_nested_map _ = None"

definition json_unmarshal_nested :: "string \<Rightarrow> (string gomap) gomap option" where
  "json_unmarshal_nested s = Option.bind (parse_json s) json_nested_map"

end
