(* ===== verification/External.thy ===== *)
theory External
  imports Client GoJson
begin

text \<open>
  Pure functions the source calls and that are not code of the repository, as one record of
  parameters: the JSON Schema compiler (santhosh-tekuri/jsonschema), two helpers of
  apimachinery and controller-runtime, the calendar and the floating-point parts of Go's
  standard library, and the texts of two kinds of its errors. Theorems hold for every value
  of the record; where one relies on documented behaviour, the behaviour is a named predicate
  of this theory.

  A compiled resource set is represented by its \<open>Compile\<close> method and a compiled schema by its
  \<open>Validate\<close> method, the only methods the source calls.
\<close>

record lib =
  lib_printable :: "nat \<Rightarrow> bool"
  lib_float_fits :: "string \<Rightarrow> bool"
  lib_json_error_text :: "string \<Rightarrow> json_error \<Rightarrow> string"
  lib_add_resource :: "string \<Rightarrow> json \<Rightarrow> string + (string \<Rightarrow> string + (json \<Rightarrow> string option))"
  lib_set_controller_reference :: "task_run \<Rightarrow> object_meta \<Rightarrow> string + object_meta"
  lib_set_status_condition :: "status_condition list \<Rightarrow> status_condition \<Rightarrow> status_condition list"
  lib_fraction :: "int \<Rightarrow> nat \<Rightarrow> int \<Rightarrow> nat"
  lib_rfc3339 :: "time \<Rightarrow> string"

definition find_condition :: "status_condition list \<Rightarrow> string \<Rightarrow> status_condition option" where
  "find_condition cs t = find (\<lambda>c. sc_type c = t) cs"

definition sets_conditions :: "lib \<Rightarrow> bool" where
  \<comment> \<open>what apimachinery documents of \<open>meta.SetStatusCondition\<close>: the condition of the given type
     has the given status, reason, message and generation afterwards, the conditions of other
     types are as before\<close>
  "sets_conditions L \<longleftrightarrow>
     (\<forall>cs c. (\<exists>d. find_condition (lib_set_status_condition L cs c) (sc_type c) = Some d
          \<and> sc_status d = sc_status c \<and> sc_reason d = sc_reason c \<and> sc_message d = sc_message c
          \<and> sc_observed_generation d = sc_observed_generation c)
        \<and> (\<forall>t. t \<noteq> sc_type c \<longrightarrow>
             find_condition (lib_set_status_condition L cs c) t = find_condition cs t))"

definition sets_owner :: "lib \<Rightarrow> bool" where
  \<comment> \<open>what controller-runtime documents of \<open>SetControllerReference\<close>: on success it adds an owner
     reference to the owner and changes nothing else\<close>
  "sets_owner L \<longleftrightarrow>
     (\<forall>tr m m'. lib_set_controller_reference L tr m = Inr m' \<longrightarrow>
        om_name m' = om_name m \<and> om_namespace m' = om_namespace m \<and> om_labels m' = om_labels m
        \<and> (\<exists>r\<in>set (om_owner_references m'). or_name r = tr_name tr \<and> or_controller r))"

text \<open>A record of concrete functions with the documented behaviour, for examples: no schema
  ever fails, conditions are appended or replaced in place, an owner reference is added.\<close>

fun put_condition :: "status_condition list \<Rightarrow> status_condition \<Rightarrow> status_condition list" where
  "put_condition [] c = [c]"
| "put_condition (d # ds) c = (if sc_type d = sc_type c then c # ds else d # put_condition ds c)"

definition example_lib :: lib where
  "example_lib =
     \<lparr>lib_printable = (\<lambda>_. True), lib_float_fits = (\<lambda>_. True),
      lib_json_error_text = (\<lambda>_ _. ''bad JSON''),
      lib_add_resource = (\<lambda>_ _. Inr (\<lambda>_. Inr (\<lambda>_. None))),
      lib_set_controller_reference =
        (\<lambda>tr m. Inr (m\<lparr>om_owner_references := om_owner_references m @
           [\<lparr>or_kind = ''TaskRun'', or_name = tr_name tr, or_controller = True\<rparr>]\<rparr>)),
      lib_set_status_condition = put_condition,
      lib_fraction = (\<lambda>f k unit. nat (f * unit div 10 ^ k)),
      lib_rfc3339 = (\<lambda>_. ''2026-01-01T00:00:00Z'')\<rparr>"

lemma example_lib_simps [simp]:
  "lib_set_controller_reference example_lib tr m =
     Inr (m\<lparr>om_owner_references := om_owner_references m @
            [\<lparr>or_kind = ''TaskRun'', or_name = tr_name tr, or_controller = True\<rparr>]\<rparr>)"
  "lib_set_status_condition example_lib = put_condition"
  "lib_rfc3339 example_lib = (\<lambda>_. ''2026-01-01T00:00:00Z'')"
  by (simp_all add: example_lib_def)

lemma find_put_condition:
  "find_condition (put_condition cs c) t = (if t = sc_type c then Some c else find_condition cs t)"
  by (induction cs c rule: put_condition.induct) (auto simp: find_condition_def)

lemma example_lib_laws: "sets_conditions example_lib" "sets_owner example_lib"
  by (auto simp: sets_conditions_def sets_owner_def example_lib_def find_put_condition)

end
