(* ===== verification/Validation.thy ===== *)
theory Validation
  imports External
begin

text \<open>
  Resolved steps and their validation (\<open>internal/controller/validation.go\<close>, with the type
  \<open>ResolvedStep\<close> of \<open>resolver.go\<close>), and the partition of steps into runner and API-native
  ones (\<open>PartitionSteps\<close> of \<open>jobbuilder.go\<close>). The lemmas tie the two together: the ordering
  check accepts a list of steps exactly when the partition does not reorder it.
\<close>

record resolved_step =
  rs_step :: step_spec
  rs_definition :: step_definition_spec

abbreviation rs_name :: "resolved_step \<Rightarrow> string" where
  "rs_name r \<equiv> ss_name (rs_step r)"

abbreviation rs_action :: "resolved_step \<Rightarrow> string" where
  "rs_action r \<equiv> ss_action (rs_step r)"

definition is_runner :: "resolved_step \<Rightarrow> bool" where
  "is_runner r \<longleftrightarrow> sds_runner (rs_definition r) \<noteq> None"

section \<open>Step ordering\<close>

definition ordering_error :: "lib \<Rightarrow> resolved_step \<Rightarrow> string" where
  "ordering_error L r =
     ''step '' @ quote (lib_printable L) (rs_name r)
     @ '' (runner) cannot follow an API-native step: all runner steps must precede all API-native steps in v1alpha1; interleaved ordering is not supported''"

fun check_ordering :: "lib \<Rightarrow> bool \<Rightarrow> resolved_step list \<Rightarrow> string option" where
  \<comment> \<open>the loop of \<open>ValidateStepOrdering\<close>; the flag is \<open>seenAPINative\<close>\<close>
  "check_ordering L seenAPINative [] = None"
| "check_ordering L seenAPINative (rs # steps) =
     (if is_runner rs \<and> seenAPINative then Some (ordering_error L rs)
      else check_ordering L (if \<not> is_runner rs then True else seenAPINative) steps)"

definition validate_step_ordering :: "lib \<Rightarrow> resolved_step list \<Rightarrow> string option" where
  "validate_step_ordering L steps = check_ordering L False steps"

section \<open>Step parameters\<close>

definition compile_schema ::
  "lib \<Rightarrow> string \<Rightarrow> string \<Rightarrow> string + (json \<Rightarrow> string option)" where
  \<comment> \<open>\<open>compileSchema\<close>, given the raw JSON of the schema\<close>
  "compile_schema L action raw =
     (case json_unmarshal_any (lib_float_fits L) raw of
        Inl e \<Rightarrow> Inl (''unmarshalling schema JSON for '' @ quote (lib_printable L) action @ '': ''
                     @ lib_json_error_text L raw e)
      | Inr schemaDoc \<Rightarrow>
          (case lib_add_resource L (action @ ''.json'') schemaDoc of
             Inl e \<Rightarrow> Inl (''adding schema resource: '' @ e)
           | Inr compile \<Rightarrow> compile (action @ ''.json'')))"

definition params_json :: "string gomap \<Rightarrow> json" where
  \<comment> \<open>the parameters as \<open>map[string]any\<close>\<close>
  "params_json params = JObj (map (\<lambda>(k, v). (k, JStr v)) (entries params))"

definition validate_one_step :: "lib \<Rightarrow> resolved_step \<Rightarrow> string option" where
  "validate_one_step L rs =
     (case sds_schema (rs_definition rs) of
        None \<Rightarrow> None
      | Some schema \<Rightarrow>
          (case re_raw schema of
             None \<Rightarrow> None
           | Some raw \<Rightarrow>
               (case compile_schema L (rs_action rs) raw of
                  Inl e \<Rightarrow> Some (''compiling schema: '' @ e)
                | Inr validate \<Rightarrow>
                    (case validate (params_json (ss_params (rs_step rs))) of
                       Some e \<Rightarrow> Some (''params invalid: '' @ e)
                     | None \<Rightarrow> None))))"

fun param_errors :: "lib \<Rightarrow> resolved_step list \<Rightarrow> string list" where
  \<comment> \<open>the slice \<open>errs\<close> of \<open>ValidateStepParams\<close>\<close>
  "param_errors L [] = []"
| "param_errors L (rs # steps) =
     (case validate_one_step L rs of
        Some e \<Rightarrow> (''step '' @ quote (lib_printable L) (rs_name rs) @ '': '' @ e) # param_errors L steps
      | None \<Rightarrow> param_errors L steps)"

definition validate_step_params :: "lib \<Rightarrow> resolved_step list \<Rightarrow> string option" where
  "validate_step_params L steps =
     (let errs = param_errors L steps in
      if length errs > 0 then Some (''param validation failed: '' @ fmt_strings errs) else None)"

section \<open>Partition\<close>

record step_order =
  so_name :: string
  so_is_runner :: bool

record partitioned_steps =
  ps_runner :: "resolved_step list"
  ps_api_native :: "resolved_step list"
  ps_order :: "step_order list"

fun partition_loop :: "partitioned_steps \<Rightarrow> resolved_step list \<Rightarrow> partitioned_steps" where
  "partition_loop p [] = p"
| "partition_loop p (rs # steps) =
     (let p1 = p\<lparr>ps_order := ps_order p @ [\<lparr>so_name = rs_name rs, so_is_runner = is_runner rs\<rparr>]\<rparr>
      in if is_runner rs then partition_loop (p1\<lparr>ps_runner := ps_runner p1 @ [rs]\<rparr>) steps
         else partition_loop (p1\<lparr>ps_api_native := ps_api_native p1 @ [rs]\<rparr>) steps)"

definition partition_steps :: "resolved_step list \<Rightarrow> partitioned_steps" where
  "partition_steps steps = partition_loop \<lparr>ps_runner = [], ps_api_native = [], ps_order = []\<rparr> steps"

lemma partition_loop_eq:
  "partition_loop p steps =
     \<lparr>ps_runner = ps_runner p @ filter is_runner steps,
      ps_api_native = ps_api_native p @ filter (\<lambda>r. \<not> is_runner r) steps,
      ps_order = ps_order p @ map (\<lambda>r. \<lparr>so_name = rs_name r, so_is_runner = is_runner r\<rparr>) steps\<rparr>"
  by (induction p steps rule: partition_loop.induct) (auto simp: Let_def)

lemma partition_steps_eq [simp]:
  "ps_runner (partition_steps steps) = filter is_runner steps"
  "ps_api_native (partition_steps steps) = filter (\<lambda>r. \<not> is_runner r) steps"
  "ps_order (partition_steps steps)
     = map (\<lambda>r. \<lparr>so_name = rs_name r, so_is_runner = is_runner r\<rparr>) steps"
  by (simp_all add: partition_steps_def partition_loop_eq)

section \<open>What the checks accept\<close>

lemma check_ordering_seen: "check_ordering L True steps = None \<longleftrightarrow> (\<forall>r\<in>set steps. \<not> is_runner r)"
  by (induction steps) auto

lemma check_ordering_None:
  "check_ordering L False steps = None \<longleftrightarrow>
     filter is_runner steps @ filter (\<lambda>r. \<not> is_runner r) steps = steps"
proof (induction steps)
  case Nil
  then show ?case by simp
next
  case (Cons r steps)
  show ?case
  proof (cases "is_runner r")
    case True
    with Cons show ?thesis by simp
  next
    case False
    have "filter is_runner steps @ r # filter (\<lambda>r. \<not> is_runner r) steps = r # steps
        \<longleftrightarrow> (\<forall>q\<in>set steps. \<not> is_runner q)"
    proof
      assume eq: "filter is_runner steps @ r # filter (\<lambda>r. \<not> is_runner r) steps = r # steps"
      show "\<forall>q\<in>set steps. \<not> is_runner q"
      proof (cases "filter is_runner steps")
        case Nil
        then show ?thesis by (simp add: filter_empty_conv)
      next
        case (Cons q qs)
        then have "is_runner q" by (metis filter_eq_ConsD)
        with eq Cons False show ?thesis by simp
      qed
    next
      assume "\<forall>q\<in>set steps. \<not> is_runner q"
      then show "filter is_runner steps @ r # filter (\<lambda>r. \<not> is_runner r) steps = r # steps"
        by (simp add: filter_id_conv)
    qed
    with False show ?thesis by (simp add: check_ordering_seen)
  qed
qed

lemma check_ordering_append:
  "check_ordering L seen xs = None \<Longrightarrow>
     check_ordering L seen (xs @ ys) = check_ordering L (seen \<or> (\<exists>q\<in>set xs. \<not> is_runner q)) ys"
  by (induction L seen xs rule: check_ordering.induct) (auto split: if_splits)

lemma check_ordering_SomeD:
  "check_ordering L seen steps = Some e \<Longrightarrow>
     \<exists>xs r ys. steps = xs @ r # ys \<and> is_runner r \<and> (seen \<or> (\<exists>q\<in>set xs. \<not> is_runner q))
        \<and> check_ordering L seen xs = None \<and> e = ordering_error L r"
proof (induction L seen steps rule: check_ordering.induct)
  case (1 L seen)
  then show ?case by simp
next
  case (2 L seen r steps)
  show ?case
  proof (cases "is_runner r \<and> seen")
    case True
    with "2.prems" show ?thesis
      by (intro exI [of _ "[]"] exI [of _ r] exI [of _ steps]) simp
  next
    case False
    let ?seen = "if \<not> is_runner r then True else seen"
    obtain xs q ys where "steps = xs @ q # ys" "is_runner q" "?seen \<or> (\<exists>q\<in>set xs. \<not> is_runner q)"
      "check_ordering L ?seen xs = None" "e = ordering_error L q"
      using "2.IH" [OF False] "2.prems" False by auto
    with False show ?thesis
      by (intro exI [of _ "r # xs"] exI [of _ q] exI [of _ ys]) auto
  qed
qed

lemma check_ordering_Some:
  "check_ordering L seen steps = Some e \<longleftrightarrow>
     (\<exists>xs r ys. steps = xs @ r # ys \<and> is_runner r \<and> (seen \<or> (\<exists>q\<in>set xs. \<not> is_runner q))
        \<and> check_ordering L seen xs = None \<and> e = ordering_error L r)"
proof
  assume "\<exists>xs r ys. steps = xs @ r # ys \<and> is_runner r \<and> (seen \<or> (\<exists>q\<in>set xs. \<not> is_runner q))
        \<and> check_ordering L seen xs = None \<and> e = ordering_error L r"
  then show "check_ordering L seen steps = Some e"
    by (auto simp: check_ordering_append)
qed (rule check_ordering_SomeD)

lemma param_errors_Nil: "param_errors L steps = [] \<longleftrightarrow> (\<forall>r\<in>set steps. validate_one_step L r = None)"
  by (induction steps) (auto split: option.splits)

lemma length_param_errors:
  "length (param_errors L steps) = length (filter (\<lambda>r. validate_one_step L r \<noteq> None) steps)"
  by (induction steps) (auto split: option.splits)

section \<open>Properties\<close>

text \<open>C25: the ordering check accepts a list of steps exactly when no runner step stands behind an
  API-native step, and exactly when running all runner steps first and all API-native steps
  afterwards, each group in the declared order, is the declared order.\<close>

theorem ordering_accepts_iff:
  "(validate_step_ordering L steps = None \<longleftrightarrow>
      ps_runner (partition_steps steps) @ ps_api_native (partition_steps steps) = steps)
   \<and> (validate_step_ordering L steps = None \<longleftrightarrow>
      \<not> (\<exists>i j. i < j \<and> j < length steps \<and> \<not> is_runner (steps ! i) \<and> is_runner (steps ! j)))"
proof
  show split: "validate_step_ordering L steps = None \<longleftrightarrow>
      ps_runner (partition_steps steps) @ ps_api_native (partition_steps steps) = steps"
    by (simp add: validate_step_ordering_def check_ordering_None)
  let ?bad = "\<exists>i j. i < j \<and> j < length steps \<and> \<not> is_runner (steps ! i) \<and> is_runner (steps ! j)"
  show "validate_step_ordering L steps = None \<longleftrightarrow> \<not> ?bad"
  proof (cases "validate_step_ordering L steps")
    case None
    let ?n = "length (filter is_runner steps)"
    have eq: "filter is_runner steps @ filter (\<lambda>r. \<not> is_runner r) steps = steps"
      using None by (simp add: validate_step_ordering_def check_ordering_None)
    have "is_runner (steps ! j) \<longleftrightarrow> j < ?n" if "j < length steps" for j
    proof (cases "j < ?n")
      case True
      then have "steps ! j = filter is_runner steps ! j" by (metis eq nth_append)
      with nth_mem [OF True] True show ?thesis by (simp del: nth_mem)
    next
      case False
      then have "steps ! j = filter (\<lambda>r. \<not> is_runner r) steps ! (j - ?n)" by (metis eq nth_append)
      moreover have "j - ?n < length (filter (\<lambda>r. \<not> is_runner r) steps)"
        using False that length_filter_partition [of is_runner steps] by simp
      then have "filter (\<lambda>r. \<not> is_runner r) steps ! (j - ?n) \<in> set (filter (\<lambda>r. \<not> is_runner r) steps)"
        by (rule nth_mem)
      ultimately have "\<not> is_runner (steps ! j)" by simp
      with False show ?thesis by simp
    qed
    with None show ?thesis by (auto dest: less_trans)
  next
    case (Some e)
    then obtain xs r ys q where "steps = xs @ r # ys" "is_runner r" "q \<in> set xs" "\<not> is_runner q"
      by (auto simp: validate_step_ordering_def check_ordering_Some)
    then obtain i where "i < length xs" "xs ! i = q" by (auto simp: in_set_conv_nth)
    with \<open>steps = xs @ r # ys\<close> \<open>is_runner r\<close> \<open>\<not> is_runner q\<close> have ?bad
      by (intro exI [of _ i] exI [of _ "length xs"]) (simp add: nth_append)
    with Some show ?thesis by simp
  qed
qed

text \<open>The error of the ordering check names the first runner step that stands behind an
  API-native step: the steps before it are in order, and one of them is API-native.\<close>

theorem ordering_error_names_first:
  "validate_step_ordering L steps = Some e \<longleftrightarrow>
     (\<exists>xs r ys. steps = xs @ r # ys \<and> is_runner r \<and> (\<exists>q\<in>set xs. \<not> is_runner q)
        \<and> validate_step_ordering L xs = None \<and> e = ordering_error L r)"
  by (simp add: validate_step_ordering_def check_ordering_Some)

text \<open>The parameter check accepts exactly the lists in which every step with a schema has
  parameters its schema accepts; a step without schema is never looked at; otherwise the
  error lists one entry per failing step.\<close>

theorem params_accepts_iff:
  "(validate_step_params L steps = None \<longleftrightarrow>
      list_all (\<lambda>r.
         sds_schema (rs_definition r) = None
         \<or> re_raw (the (sds_schema (rs_definition r))) = None
         \<or> (\<exists>validate. compile_schema L (rs_action r) (the (re_raw (the (sds_schema (rs_definition r)))))
                = Inr validate
              \<and> validate (params_json (ss_params (rs_step r))) = None)) steps)
   \<and> length (param_errors L steps) = length (filter (\<lambda>r. validate_one_step L r \<noteq> None) steps)"
proof -
  have one: "validate_one_step L r = None \<longleftrightarrow>
      sds_schema (rs_definition r) = None
      \<or> re_raw (the (sds_schema (rs_definition r))) = None
      \<or> (\<exists>validate. compile_schema L (rs_action r) (the (re_raw (the (sds_schema (rs_definition r)))))
             = Inr validate
           \<and> validate (params_json (ss_params (rs_step r))) = None)" for r
    by (auto simp: validate_one_step_def split: option.splits sum.splits)
  show ?thesis
    by (simp add: validate_step_params_def param_errors_Nil one length_param_errors list_all_iff)
qed

text \<open>Partitioning loses and invents nothing: both groups keep the declared order, together
  they have the declared length, and the recorded order lists every step's name with its kind.\<close>

lemma partition_steps_complete:
  "ps_runner (partition_steps steps) = filter is_runner steps
   \<and> ps_api_native (partition_steps steps) = filter (\<lambda>r. \<not> is_runner r) steps
   \<and> length (ps_runner (partition_steps steps)) + length (ps_api_native (partition_steps steps)) = length steps
   \<and> map so_name (ps_order (partition_steps steps)) = map rs_name steps
   \<and> map so_is_runner (ps_order (partition_steps steps)) = map is_runner steps"
  by (simp add: length_filter_partition o_def)

end
