(* ===== verification/ExampleCluster.thy ===== *)
theory ExampleCluster
  imports External
begin

text \<open>
  One concrete instance of the client: an API server as a record of object stores, with a
  clock that advances by a second per reading and pods that have the logs the record gives
  them. It shows that the behaviour named hypotheses ask of a client can be had, and it is
  what the examples of the development run against. It models no code of the repository and
  no property is about it.
\<close>

record cluster =
  k_task_runs :: "namespaced_name \<rightharpoonup> task_run"
  k_step_definitions :: "namespaced_name \<rightharpoonup> step_definition"
  k_cluster_step_definitions :: "string \<rightharpoonup> cluster_step_definition"
  k_secrets :: "namespaced_name \<rightharpoonup> secret"
  k_config_maps :: "namespaced_name \<rightharpoonup> config_map"
  k_workloads :: "workload_kind \<times> namespaced_name \<rightharpoonup> workload"
  k_jobs :: "namespaced_name \<rightharpoonup> job"
  k_cron_jobs :: "namespaced_name \<rightharpoonup> cron_job"
  k_pods :: "string list"
  k_logs :: "string \<rightharpoonup> string"
  k_clock :: time

definition empty_cluster :: cluster where
  "empty_cluster =
     \<lparr>k_task_runs = Map.empty, k_step_definitions = Map.empty, k_cluster_step_definitions = Map.empty,
      k_secrets = Map.empty, k_config_maps = Map.empty, k_workloads = Map.empty, k_jobs = Map.empty,
      k_cron_jobs = Map.empty, k_pods = [], k_logs = Map.empty, k_clock = 0\<rparr>"

abbreviation meta_key :: "object_meta \<Rightarrow> namespaced_name" where
  "meta_key m \<equiv> NamespacedName (om_namespace m) (om_name m)"

definition found :: "'a option \<Rightarrow> 'w \<Rightarrow> (api_error + 'a) \<times> 'w" where
  "found x w = (case x of None \<Rightarrow> Inl (NotFound ''not found'') | Some v \<Rightarrow> Inr v, w)"

definition named :: "('v \<Rightarrow> object_meta) \<Rightarrow> namespaced_name \<Rightarrow> 'v option \<Rightarrow> 'v option" where
  \<comment> \<open>an object is found only under its own name\<close>
  "named m k x = (case x of None \<Rightarrow> None | Some v \<Rightarrow> if meta_key (m v) = k then Some v else None)"

definition create_in ::
  "('k \<rightharpoonup> 'v) \<Rightarrow> 'k \<Rightarrow> (('k \<rightharpoonup> 'v) \<Rightarrow> 'w) \<Rightarrow> 'v \<Rightarrow> 'w \<Rightarrow> api_error option \<times> 'w" where
  "create_in m k put v w =
     (case m k of None \<Rightarrow> (None, put (m(k \<mapsto> v))) | Some _ \<Rightarrow> (Some (ApiError ''already exists''), w))"

definition update_in ::
  "('k \<rightharpoonup> 'v) \<Rightarrow> 'k \<Rightarrow> (('k \<rightharpoonup> 'v) \<Rightarrow> 'w) \<Rightarrow> 'v \<Rightarrow> 'w \<Rightarrow> api_error option \<times> 'w" where
  "update_in m k put v w =
     (case m k of None \<Rightarrow> (Some (NotFound ''not found''), w) | Some _ \<Rightarrow> (None, put (m(k \<mapsto> v))))"

definition example_client :: "cluster client" where
  "example_client =
     \<lparr>cl_get_task_run = (\<lambda>k w. found (k_task_runs w k) w),
      cl_get_step_definition = (\<lambda>k w. found (k_step_definitions w k) w),
      cl_get_cluster_step_definition = (\<lambda>k w. found (k_cluster_step_definitions w k) w),
      cl_get_secret = (\<lambda>k w. found (named sec_meta k (k_secrets w k)) w),
      cl_get_config_map = (\<lambda>k w. found (named cm_meta k (k_config_maps w k)) w),
      cl_get_workload = (\<lambda>kind k w. found (named wl_meta k (k_workloads w (kind, k))) w),
      cl_get_job = (\<lambda>k w. found (k_jobs w k) w),
      cl_get_cron_job = (\<lambda>k w. found (k_cron_jobs w k) w),
      cl_create_secret = (\<lambda>v w. create_in (k_secrets w) (meta_key (sec_meta v)) (\<lambda>m. w\<lparr>k_secrets := m\<rparr>) v w),
      cl_create_config_map =
        (\<lambda>v w. create_in (k_config_maps w) (meta_key (cm_meta v)) (\<lambda>m. w\<lparr>k_config_maps := m\<rparr>) v w),
      cl_create_job = (\<lambda>v w. create_in (k_jobs w) (meta_key (job_meta v)) (\<lambda>m. w\<lparr>k_jobs := m\<rparr>) v w),
      cl_create_cron_job =
        (\<lambda>v w. create_in (k_cron_jobs w) (meta_key (cj_meta v)) (\<lambda>m. w\<lparr>k_cron_jobs := m\<rparr>) v w),
      cl_update_secret = (\<lambda>v w. update_in (k_secrets w) (meta_key (sec_meta v)) (\<lambda>m. w\<lparr>k_secrets := m\<rparr>) v w),
      cl_update_config_map =
        (\<lambda>v w. update_in (k_config_maps w) (meta_key (cm_meta v)) (\<lambda>m. w\<lparr>k_config_maps := m\<rparr>) v w),
      cl_update_workload =
        (\<lambda>kind v w. update_in (k_workloads w) (kind, meta_key (wl_meta v)) (\<lambda>m. w\<lparr>k_workloads := m\<rparr>) v w),
      cl_update_status =
        (\<lambda>tr w. (Inr tr, w\<lparr>k_task_runs := (k_task_runs w)(meta_key (tr_meta tr) \<mapsto> tr)\<rparr>)),
      cl_list_pods = (\<lambda>ns labels w. (Inr (k_pods w), w)),
      cl_pod_logs = (\<lambda>ns pod ctr n w.
        (case k_logs w ctr of None \<Rightarrow> StreamError ''container not found'' | Some t \<Rightarrow> LogBytes t, w)),
      cl_now = (\<lambda>w. (k_clock w, w\<lparr>k_clock := k_clock w + 1000000000\<rparr>)),
      cl_wait = (\<lambda>d w. (None, w\<lparr>k_clock := k_clock w + max 0 d\<rparr>))\<rparr>"

definition example_step :: "string \<Rightarrow> string \<Rightarrow> (string \<times> string) list \<Rightarrow> step_spec" where
  "example_step name action params =
     \<lparr>ss_name = name, ss_action = action, ss_params = Some params, ss_outputs = []\<rparr>"

definition example_definition :: "string option \<Rightarrow> step_definition_spec" where
  "example_definition img =
     \<lparr>sds_schema = None, sds_runner = map_option (\<lambda>i. \<lparr>rs_image = i\<rparr>) img,
      sds_outputs = [], sds_auth_aware = False\<rparr>"

definition example_csd :: "string \<Rightarrow> string option \<Rightarrow> cluster_step_definition" where
  "example_csd name img =
     \<lparr>csd_meta = fresh_meta name [] None, csd_spec = example_definition img, csd_conditions = []\<rparr>"

definition example_task_run :: "string \<Rightarrow> step_spec list \<Rightarrow> task_run" where
  "example_task_run schedule steps =
     \<lparr>tr_meta = fresh_meta ''demo'' ''apps'' None,
      tr_spec = \<lparr>trs_schedule = schedule, trs_concurrency_policy = ConcurrencyPolicyForbid,
                 trs_auth = None, trs_steps = steps, trs_on_failure = None\<rparr>,
      tr_status = \<lparr>ts_phase = TaskRunPhaseUnset, ts_start_time = None, ts_completion_time = None,
                   ts_steps = [], ts_conditions = []\<rparr>\<rparr>"

definition example_state :: "cluster \<Rightarrow> task_run \<Rightarrow> cluster st" where
  "example_state w tr = \<lparr>ext = w, calls = [], metrics = [], task = tr\<rparr>"

lemmas example_defs =
  example_client_def empty_cluster_def example_step_def example_definition_def example_csd_def
  example_task_run_def example_state_def found_def named_def create_in_def update_in_def

end
