(* ===== verification/Resolver.thy ===== *)
theory Resolver
  imports Validation ExampleCluster
begin

text \<open>
  Resolution of step actions (\<open>internal/controller/resolver.go\<close>). The resolver is its
  namespace and its cache, handed from call to call; the client answers its two kinds of
  lookup. The lemmas compare it with \<open>definition_of\<close>: the namespaced StepDefinition if there
  is one, otherwise the ClusterStepDefinition.
\<close>

record step_resolver =
  sr_namespace :: string
  sr_cache :: "string \<rightharpoonup> step_definition_spec"

definition new_step_resolver :: "string \<Rightarrow> step_resolver" where
  "new_step_resolver namespace = \<lparr>sr_namespace = namespace, sr_cache = Map.empty\<rparr>"

definition resolve ::
  "'w client \<Rightarrow> lib \<Rightarrow> step_resolver \<Rightarrow> string
     \<Rightarrow> ('w, (string + step_definition_spec) \<times> step_resolver) prog" where
  "resolve C L r action =
     (case sr_cache r action of
        Some def \<Rightarrow> return (Inr def, r)
      | None \<Rightarrow> do {
          a \<leftarrow> request (GetStepDefinition (NamespacedName (sr_namespace r) action))
                 (cl_get_step_definition C (NamespacedName (sr_namespace r) action));
          (case a of
             Inr sd \<Rightarrow> return (Inr (sd_spec sd), r\<lparr>sr_cache := (sr_cache r)(action \<mapsto> sd_spec sd)\<rparr>)
           | Inl err \<Rightarrow>
               if \<not> is_not_found err then
                 return (Inl (''looking up StepDefinition '' @ sr_namespace r @ ''/'' @ action
                              @ '': '' @ api_error_text err), r)
               else do {
                 b \<leftarrow> request (GetClusterStepDefinition action) (cl_get_cluster_step_definition C action);
                 (case b of
                    Inr csd \<Rightarrow>
                      return (Inr (csd_spec csd), r\<lparr>sr_cache := (sr_cache r)(action \<mapsto> csd_spec csd)\<rparr>)
                  | Inl err' \<Rightarrow>
                      if \<not> is_not_found err' then
                        return (Inl (''looking up ClusterStepDefinition '' @ action
                                     @ '': '' @ api_error_text err'), r)
                      else
                        return (Inl (''step action '' @ quote (lib_printable L) action
                                     @ '' not found as StepDefinition or ClusterStepDefinition''), r)) }) })"

fun resolve_loop ::
  "'w client \<Rightarrow> lib \<Rightarrow> step_resolver \<Rightarrow> step_spec list \<Rightarrow> resolved_step list \<Rightarrow> string list
     \<Rightarrow> ('w, resolved_step list \<times> string list) prog" where
  \<comment> \<open>the loop of \<open>ResolveAll\<close> with its slices \<open>resolved\<close> and \<open>unresolved\<close>\<close>
  "resolve_loop C L r [] resolved unresolved = return (resolved, unresolved)"
| "resolve_loop C L r (step # steps) resolved unresolved = do {
     x \<leftarrow> resolve C L r (ss_action step);
     (case x of
        (Inl err, r') \<Rightarrow> resolve_loop C L r' steps resolved (unresolved @ [ss_action step])
      | (Inr def, r') \<Rightarrow>
          resolve_loop C L r' steps (resolved @ [\<lparr>rs_step = step, rs_definition = def\<rparr>]) unresolved) }"

definition resolve_all ::
  "'w client \<Rightarrow> lib \<Rightarrow> step_resolver \<Rightarrow> step_spec list \<Rightarrow> ('w, string + resolved_step list) prog" where
  "resolve_all C L r steps = do {
     x \<leftarrow> resolve_loop C L r steps [] [];
     (case x of (resolved, unresolved) \<Rightarrow>
        if length unresolved > 0 then return (Inl (''unresolvable step actions: '' @ fmt_strings unresolved))
        else return (Inr resolved)) }"

section \<open>Requests of the resolver\<close>

fun is_definition_read :: "api_call \<Rightarrow> bool" where
  "is_definition_read (GetStepDefinition _) = True"
| "is_definition_read (GetClusterStepDefinition _) = True"
| "is_definition_read _ = False"

lemma sends_resolve [sends_rules]: "sends is_definition_read (resolve C L r a)"
  unfolding resolve_def
  by (intro sends_case_option sends_bind sends_case_sum sends_request sends_if sends_return) simp_all

lemma sends_resolve_loop [sends_rules]:
  "sends is_definition_read (resolve_loop C L r steps resolved unresolved)"
proof (induction steps arbitrary: r resolved unresolved)
  case Nil
  then show ?case by simp
next
  case (Cons step steps)
  show ?case
    unfolding resolve_loop.simps
    by (intro sends_bind sends_resolve sends_case_prod sends_case_sum Cons.IH)
qed

lemma sends_resolve_all [sends_rules]: "sends is_definition_read (resolve_all C L r steps)"
  unfolding resolve_all_def
  by (intro sends_bind sends_resolve_loop sends_case_prod sends_if sends_return)

section \<open>Definitions that do not change while they are read\<close>

text \<open>
  \<open>answers_with C sd csd\<close>: the client's lookups answer with \<open>sd\<close> and \<open>csd\<close> whatever the state of
  the world. It is how the correctness of the result is stated: a resolver that reads a
  changing store can only promise what each of its reads saw.
\<close>

type_synonym step_definitions = "namespaced_name \<Rightarrow> api_error + step_definition"
type_synonym cluster_step_definitions = "string \<Rightarrow> api_error + cluster_step_definition"

definition answers_with :: "'w client \<Rightarrow> step_definitions \<Rightarrow> cluster_step_definitions \<Rightarrow> bool" where
  "answers_with C sd csd \<longleftrightarrow>
     (\<forall>k w. fst (cl_get_step_definition C k w) = sd k)
     \<and> (\<forall>a w. fst (cl_get_cluster_step_definition C a w) = csd a)"

definition definition_of ::
  "step_definitions \<Rightarrow> cluster_step_definitions \<Rightarrow> string \<Rightarrow> string \<Rightarrow> step_definition_spec option" where
  "definition_of sd csd ns action =
     (case sd (NamespacedName ns action) of
        Inr d \<Rightarrow> Some (sd_spec d)
      | Inl e \<Rightarrow>
          if is_not_found e then (case csd action of Inr d \<Rightarrow> Some (csd_spec d) | Inl _ \<Rightarrow> None) else None)"

definition cache_agrees :: "step_definitions \<Rightarrow> cluster_step_definitions \<Rightarrow> step_resolver \<Rightarrow> bool" where
  "cache_agrees sd csd r \<longleftrightarrow>
     (\<forall>a d. sr_cache r a = Some d \<longrightarrow> definition_of sd csd (sr_namespace r) a = Some d)"

lemma cache_agrees_new: "cache_agrees sd csd (new_step_resolver ns)"
  by (simp add: cache_agrees_def new_step_resolver_def)

lemma wp_resolve:
  assumes "answers_with C sd csd" and "cache_agrees sd csd r"
  shows "wp (resolve C L r a)
    (\<lambda>x s'. cache_agrees sd csd (snd x) \<and> sr_namespace (snd x) = sr_namespace r \<and> task s' = task s
       \<and> metrics s' = metrics s
       \<and> (case definition_of sd csd (sr_namespace r) a of Some d \<Rightarrow> fst x = Inr d | None \<Rightarrow> isl (fst x))) s"
proof -
  have sd: "sd k = x" if "cl_get_step_definition C k w = (x, w')" for k w x w'
    using assms(1) that unfolding answers_with_def by (metis fst_conv)
  have csd: "csd b = x" if "cl_get_cluster_step_definition C b w = (x, w')" for b w x w'
    using assms(1) that unfolding answers_with_def by (metis fst_conv)
  show ?thesis
    using assms(2)
    by (auto simp: resolve_def cache_agrees_def definition_of_def sd csd
        split: option.splits sum.splits prod.splits)
qed

fun resolved_steps :: "(string \<Rightarrow> step_definition_spec option) \<Rightarrow> step_spec list \<Rightarrow> resolved_step list" where
  "resolved_steps f [] = []"
| "resolved_steps f (s # ss) =
     (case f (ss_action s) of
        Some d \<Rightarrow> \<lparr>rs_step = s, rs_definition = d\<rparr> # resolved_steps f ss
      | None \<Rightarrow> resolved_steps f ss)"

definition unresolved_actions :: "(string \<Rightarrow> step_definition_spec option) \<Rightarrow> step_spec list \<Rightarrow> string list" where
  "unresolved_actions f steps = filter (\<lambda>a. f a = None) (map ss_action steps)"

lemma wp_resolve_loop:
  assumes "answers_with C sd csd" and "cache_agrees sd csd r"
  shows "wp (resolve_loop C L r steps resolved unresolved)
    (\<lambda>x s'. x = (resolved @ resolved_steps (definition_of sd csd (sr_namespace r)) steps,
                unresolved @ unresolved_actions (definition_of sd csd (sr_namespace r)) steps)
       \<and> task s' = task s \<and> metrics s' = metrics s) s"
  using assms(2)
proof (induction steps arbitrary: r resolved unresolved s)
  case Nil
  then show ?case by (simp add: unresolved_actions_def)
next
  case (Cons step steps)
  show ?case
    unfolding resolve_loop.simps wp_bind
    by (rule wp_mono [OF wp_resolve [OF assms(1) Cons.prems]])
       (auto split: prod.splits sum.splits option.splits simp: unresolved_actions_def
         intro!: wp_mono [OF Cons.IH])
qed

lemma wp_resolve_all:
  assumes "answers_with C sd csd"
  shows "wp (resolve_all C L (new_step_resolver ns) steps)
    (\<lambda>x s'. x = (let f = definition_of sd csd ns in
                 if unresolved_actions f steps = [] then Inr (resolved_steps f steps)
                 else Inl (''unresolvable step actions: '' @ fmt_strings (unresolved_actions f steps)))
       \<and> task s' = task s \<and> metrics s' = metrics s) s"
  unfolding resolve_all_def wp_bind
  by (rule wp_mono [OF wp_resolve_loop [OF assms cache_agrees_new]])
     (auto simp: new_step_resolver_def Let_def)

lemma frame_resolve [frame_facts]:
  "wp (resolve C L r a) (\<lambda>x s'. task s' = task s \<and> metrics s' = metrics s) s"
  by (simp add: resolve_def split: option.splits sum.splits prod.splits)

lemma frame_resolve_loop [frame_facts]:
  "wp (resolve_loop C L r steps resolved unresolved) (\<lambda>x s'. task s' = task s \<and> metrics s' = metrics s) s"
proof (induction steps arbitrary: r resolved unresolved s)
  case Nil
  then show ?case by simp
next
  case (Cons step steps)
  show ?case
    unfolding resolve_loop.simps wp_bind
    by (rule wp_mono [OF frame_resolve])
       (auto split: prod.splits sum.splits intro: wp_mono [OF Cons.IH])
qed

lemma frame_resolve_all [frame_facts]:
  "wp (resolve_all C L r steps) (\<lambda>x s'. task s' = task s \<and> metrics s' = metrics s) s"
  unfolding resolve_all_def wp_bind
  by (rule wp_mono [OF frame_resolve_loop]) (auto split: prod.splits)

lemma resolved_steps_all:
  "unresolved_actions f steps = [] \<Longrightarrow>
     map rs_step (resolved_steps f steps) = steps
     \<and> (\<forall>q\<in>set (resolved_steps f steps). f (rs_action q) = Some (rs_definition q))"
  by (induction steps) (auto simp: unresolved_actions_def split: option.splits if_splits)

section \<open>The cache\<close>

fun read_action :: "api_call \<Rightarrow> string" where
  "read_action (GetStepDefinition k) = nn_name k"
| "read_action (GetClusterStepDefinition a) = a"
| "read_action _ = []"

lemma wp_resolve_reads:
  "wp (resolve C L r a)
    (\<lambda>x s'. \<exists>cs. calls s' = calls s @ cs \<and> distinct cs \<and> length cs \<le> 2
       \<and> (\<forall>c\<in>set cs. read_action c = a \<and> a \<notin> dom (sr_cache r))
       \<and> (case fst x of
            Inr d \<Rightarrow> sr_cache (snd x) = (sr_cache r)(a \<mapsto> d)
          | Inl _ \<Rightarrow> snd x = r)) s"
  by (auto simp: resolve_def split: option.splits sum.splits prod.splits)

lemma resolve_loop_unresolved:
  "wp (resolve_loop C L r steps resolved unresolved)
    (\<lambda>x s'. length unresolved \<le> length (snd x)) s"
proof (induction steps arbitrary: r resolved unresolved s)
  case Nil
  then show ?case by simp
next
  case (Cons step steps)
  show ?case
    unfolding resolve_loop.simps wp_bind
    by (rule wp_mono [OF frame_resolve])
       (auto split: prod.splits sum.splits intro: wp_mono [OF Cons.IH])
qed

lemma wp_resolve_loop_reads:
  "wp (resolve_loop C L r steps resolved unresolved)
    (\<lambda>x s'. snd x = [] \<longrightarrow>
       (\<exists>cs. calls s' = calls s @ cs \<and> distinct cs \<and> length cs \<le> 2 * length steps
          \<and> (\<forall>c\<in>set cs. read_action c \<notin> dom (sr_cache r)))) s"
proof (induction steps arbitrary: r resolved unresolved s)
  case Nil
  then show ?case by simp
next
  case (Cons step steps)
  let ?a = "ss_action step"
  show ?case
    unfolding resolve_loop.simps wp_bind
  proof (rule wp_mono [OF wp_resolve_reads [of C L r ?a s]], goal_cases)
    case (1 x s1)
    then obtain cs where cs: "calls s1 = calls s @ cs" "distinct cs" "length cs \<le> 2"
        "\<forall>c\<in>set cs. read_action c = ?a \<and> ?a \<notin> dom (sr_cache r)"
      by blast
    obtain y r' where x: "x = (y, r')" by (cases x)
    show ?case
    proof (cases y)
      case (Inl e)
      have "wp (resolve_loop C L r' steps resolved (unresolved @ [?a]))
          (\<lambda>x s'. snd x \<noteq> []) s1"
        by (rule wp_mono [OF resolve_loop_unresolved]) auto
      then have "wp (resolve_loop C L r' steps resolved (unresolved @ [?a]))
          (\<lambda>x s'. snd x = [] \<longrightarrow>
             (\<exists>cs. calls s' = calls s @ cs \<and> distinct cs \<and> length cs \<le> 2 * length (step # steps)
                \<and> (\<forall>c\<in>set cs. read_action c \<notin> dom (sr_cache r)))) s1"
        by (rule wp_mono) simp
      with x Inl show ?thesis by simp
    next
      case (Inr d)
      with 1 x have r': "sr_cache r' = (sr_cache r)(?a \<mapsto> d)" by auto
      have "wp (resolve_loop C L r' steps (resolved @ [\<lparr>rs_step = step, rs_definition = d\<rparr>]) unresolved)
          (\<lambda>x s'. snd x = [] \<longrightarrow>
             (\<exists>cs. calls s' = calls s @ cs \<and> distinct cs \<and> length cs \<le> 2 * length (step # steps)
                \<and> (\<forall>c\<in>set cs. read_action c \<notin> dom (sr_cache r)))) s1"
      proof (rule wp_mono [OF Cons.IH], goal_cases)
        case (1 z s2)
        show ?case
        proof
          assume "snd z = []"
          with 1 obtain ds where "calls s2 = calls s1 @ ds" "distinct ds" "length ds \<le> 2 * length steps"
              "\<forall>c\<in>set ds. read_action c \<notin> dom (sr_cache r')" by blast
          with cs r' show "\<exists>cs. calls s2 = calls s @ cs \<and> distinct cs
              \<and> length cs \<le> 2 * length (step # steps) \<and> (\<forall>c\<in>set cs. read_action c \<notin> dom (sr_cache r))"
            by (intro exI [of _ "cs @ ds"]) auto
        qed
      qed
      with x Inr show ?thesis by simp
    qed
  qed
qed

section \<open>Properties\<close>

text \<open>C38: as long as the definitions do not change while they are read, \<open>ResolveAll\<close> succeeds exactly
  when every action has a definition, and then pairs each step, in order, with the
  definition of its action: the namespaced StepDefinition if there is one, otherwise the
  ClusterStepDefinition. Otherwise its error lists the actions without definition, in order.\<close>

theorem resolve_all_correct:
  assumes "answers_with C sd csd"
    and "run_state (resolve_all C L (new_step_resolver ns) steps) s = (r, s')"
  shows "case r of
      Inr rs \<Rightarrow> map rs_step rs = steps
        \<and> (\<forall>q\<in>set rs. definition_of sd csd ns (rs_action q) = Some (rs_definition q))
    | Inl e \<Rightarrow> unresolved_actions (definition_of sd csd ns) steps \<noteq> []
        \<and> e = ''unresolvable step actions: ''
              @ fmt_strings (unresolved_actions (definition_of sd csd ns) steps)"
  using wpD [OF wp_resolve_all [OF assms(1)] assms(2)]
    resolved_steps_all [of "definition_of sd csd ns" steps]
  by (auto simp: Let_def split: sum.splits if_splits)

theorem resolve_all_correct_witness:
  "case fst (run_state (resolve_all (example_client\<lparr>cl_get_step_definition := (\<lambda>k w. (Inl (NotFound []), w)),
         cl_get_cluster_step_definition := (\<lambda>a w. (Inr (example_csd a None), w))\<rparr>)
       example_lib (new_step_resolver ''apps'') [example_step ''s'' ''wait'' []])
     (example_state empty_cluster (example_task_run [] []))) of
      Inr rs \<Rightarrow> map rs_step rs = [example_step ''s'' ''wait'' []]
        \<and> (\<forall>q\<in>set rs. definition_of (\<lambda>_. Inl (NotFound [])) (\<lambda>a. Inr (example_csd a None)) ''apps''
             (rs_action q) = Some (rs_definition q))
    | Inl e \<Rightarrow> unresolved_actions (definition_of (\<lambda>_. Inl (NotFound [])) (\<lambda>a. Inr (example_csd a None)) ''apps'')
            [example_step ''s'' ''wait'' []] \<noteq> []
        \<and> e = ''unresolvable step actions: '' @ fmt_strings (unresolved_actions
            (definition_of (\<lambda>_. Inl (NotFound [])) (\<lambda>a. Inr (example_csd a None)) ''apps'')
            [example_step ''s'' ''wait'' []])"
  by (rule resolve_all_correct [OF _ prod.collapse [symmetric]]) (simp add: answers_with_def)

text \<open>When every action resolves, the resolver has asked for each definition at most once,
  however often its action occurs among the steps, whatever the client answers.\<close>

theorem resolve_all_reads_once:
  assumes "run_state (resolve_all C L (new_step_resolver ns) steps) s = (Inr rs, s')"
  shows "\<exists>cs. calls s' = calls s @ cs \<and> distinct cs \<and> list_all is_definition_read cs
    \<and> length cs \<le> 2 * length steps"
proof -
  have "wp (resolve_all C L (new_step_resolver ns) steps)
      (\<lambda>x s'. isl x \<or> (\<exists>cs. calls s' = calls s @ cs \<and> distinct cs \<and> length cs \<le> 2 * length steps)) s"
    unfolding resolve_all_def wp_bind
    by (rule wp_mono [OF wp_resolve_loop_reads]) (auto split: prod.splits)
  from wpD [OF this assms] obtain cs where
    cs: "calls s' = calls s @ cs" "distinct cs" "length cs \<le> 2 * length steps" by auto
  from sendsD [OF sends_resolve_all assms] obtain ds where
    "calls s' = calls s @ ds" "list_all is_definition_read ds" .
  with cs show ?thesis by auto
qed

theorem resolve_all_reads_once_witness:
  "\<exists>cs. calls (snd (run_state (resolve_all (example_client\<lparr>
           cl_get_step_definition := (\<lambda>k w. (Inl (NotFound []), w)),
           cl_get_cluster_step_definition := (\<lambda>a w. (Inr (example_csd a None), w))\<rparr>)
         example_lib (new_step_resolver ''apps'') [example_step ''s'' ''wait'' [], example_step ''t'' ''wait'' []])
       (example_state empty_cluster (example_task_run [] [])))) = [] @ cs
     \<and> distinct cs \<and> list_all is_definition_read cs \<and> length cs \<le> 4"
proof -
  let ?C = "example_client\<lparr>cl_get_step_definition := (\<lambda>k w. (Inl (NotFound []), w)),
      cl_get_cluster_step_definition := (\<lambda>a w. (Inr (example_csd a None), w))\<rparr>"
  let ?steps = "[example_step ''s'' ''wait'' [], example_step ''t'' ''wait'' []]"
  let ?s = "example_state empty_cluster (example_task_run [] [])"
  have "\<exists>rs. fst (run_state (resolve_all ?C example_lib (new_step_resolver ''apps'') ?steps) ?s) = Inr rs"
    by (simp add: resolve_all_def resolve_def new_step_resolver_def request_def example_defs)
  then obtain rs s' where run:
    "run_state (resolve_all ?C example_lib (new_step_resolver ''apps'') ?steps) ?s = (Inr rs, s')"
    by (metis prod.collapse)
  from resolve_all_reads_once [OF this] show ?thesis
    unfolding run by (simp add: example_state_def)
qed

end
