(* ===== verification/Status.thy ===== *)
theory Status
  imports Validation ExampleCluster
begin

text \<open>
  Status transitions, conditions and metrics (\<open>internal/controller/status.go\<close>,
  \<open>internal/metrics/metrics.go\<close>). Every operation works on the TaskRun in memory; the two that
  change the phase also write the status to the API. The table of step statuses is a list
  that \<open>SetStepStatus\<close> searches by name; the locale \<open>keyed_table\<close> is what its callers rely
  on.
\<close>

section \<open>Operations\<close>

fun put_step_status :: "step_status list \<Rightarrow> step_status \<Rightarrow> step_status list" where
  \<comment> \<open>overwrites the first entry of that name, appends if there is none\<close>
  "put_step_status [] new = [new]"
| "put_step_status (s # ss) new = (if st_name s = st_name new then new # ss else s # put_step_status ss new)"

definition set_step_status :: "step_status \<Rightarrow> ('w, unit) prog" where
  "set_step_status stepStatus = modify_status (\<lambda>st. st\<lparr>ts_steps := put_step_status (ts_steps st) stepStatus\<rparr>)"

definition pending_status :: "resolved_step \<Rightarrow> step_status" where
  "pending_status rs =
     \<lparr>st_name = rs_name rs, st_phase = StepPhasePending, st_duration = [], st_outputs = None, st_logs = []\<rparr>"

definition init_step_statuses :: "resolved_step list \<Rightarrow> ('w, unit) prog" where
  "init_step_statuses steps = modify_status (\<lambda>st. st\<lparr>ts_steps := map pending_status steps\<rparr>)"

definition set_condition ::
  "'w client \<Rightarrow> lib \<Rightarrow> string \<Rightarrow> condition_status \<Rightarrow> string \<Rightarrow> string \<Rightarrow> ('w, unit) prog" where
  "set_condition C L condType status reason message = do {
     tr \<leftarrow> get_task;
     now \<leftarrow> ask (cl_now C);
     modify_status (\<lambda>st. st\<lparr>ts_conditions := lib_set_status_condition L (ts_conditions st)
       \<lparr>sc_type = condType, sc_status = status, sc_observed_generation = om_generation (tr_meta tr),
        sc_last_transition_time = now, sc_reason = reason, sc_message = message\<rparr>\<rparr>) }"

definition record_task_metrics :: "('w, unit) prog" where
  "record_task_metrics = do {
     tr \<leftarrow> get_task;
     observe [TaskRunTotal (tr_namespace tr) (task_run_phase_string (ts_phase (tr_status tr)))];
     (case ts_start_time (tr_status tr) of
        None \<Rightarrow> return ()
      | Some start \<Rightarrow>
          (case ts_completion_time (tr_status tr) of
             None \<Rightarrow> return ()
           | Some completion \<Rightarrow> observe [TaskRunDuration (tr_namespace tr) (time_sub completion start)])) }"

definition set_phase :: "'w client \<Rightarrow> task_run_phase \<Rightarrow> ('w, api_error option) prog" where
  "set_phase C phase = do {
     now \<leftarrow> ask (cl_now C);
     modify_status (\<lambda>st. st\<lparr>ts_phase := phase\<rparr>);
     (if phase = TaskRunPhaseRunning then
        modify_status (\<lambda>st. if ts_start_time st = None then st\<lparr>ts_start_time := Some now\<rparr> else st)
      else if phase = TaskRunPhaseSucceeded \<or> phase = TaskRunPhaseFailed then do {
        modify_status (\<lambda>st. st\<lparr>ts_completion_time := Some now\<rparr>);
        record_task_metrics }
      else return ());
     update_status C }"

definition duration_text :: "duration \<Rightarrow> string" where
  \<comment> \<open>\<open>duration.Round(time.Millisecond).String()\<close>\<close>
  "duration_text d = dur_string (dur_round d millisecond)"

definition mark_step_succeeded ::
  "string \<Rightarrow> duration \<Rightarrow> string gomap \<Rightarrow> string \<Rightarrow> ('w, unit) prog" where
  "mark_step_succeeded stepName duration outputs action = do {
     set_step_status \<lparr>st_name = stepName, st_phase = StepPhaseSucceeded,
       st_duration = duration_text duration, st_outputs = outputs, st_logs = []\<rparr>;
     tr \<leftarrow> get_task;
     observe [StepTotal (tr_namespace tr) action (step_phase_string StepPhaseSucceeded),
              StepDuration (tr_namespace tr) action duration] }"

definition mark_step_failed :: "string \<Rightarrow> duration \<Rightarrow> string \<Rightarrow> string \<Rightarrow> ('w, unit) prog" where
  "mark_step_failed stepName duration errMsg action = do {
     set_step_status \<lparr>st_name = stepName, st_phase = StepPhaseFailed,
       st_duration = duration_text duration, st_outputs = None, st_logs = errMsg\<rparr>;
     tr \<leftarrow> get_task;
     observe [StepTotal (tr_namespace tr) action (step_phase_string StepPhaseFailed),
              StepDuration (tr_namespace tr) action duration] }"

definition mark_failed :: "'w client \<Rightarrow> lib \<Rightarrow> string \<Rightarrow> string \<Rightarrow> ('w, api_error option) prog" where
  "mark_failed C L reason message = do {
     set_condition C L ''Failed'' ConditionTrue reason message;
     set_phase C TaskRunPhaseFailed }"

definition mark_succeeded :: "'w client \<Rightarrow> lib \<Rightarrow> ('w, api_error option) prog" where
  "mark_succeeded C L = do {
     tr \<leftarrow> get_task;
     set_condition C L ''Complete'' ConditionTrue ''AllStepsSucceeded''
       (dec (int (length (ts_steps (tr_status tr)))) @ '' steps completed'');
     set_phase C TaskRunPhaseSucceeded }"

section \<open>The table of step statuses\<close>

text \<open>A table of rows with a key: what a lookup finds after a row is stored.\<close>

locale keyed_table =
  fixes put :: "'t \<Rightarrow> 'r \<Rightarrow> 't" and row :: "'t \<Rightarrow> 'k \<Rightarrow> 'r option" and key :: "'r \<Rightarrow> 'k"
  assumes row_put: "row (put t r) k = (if k = key r then Some r else row t k)"
begin

lemma row_fold_other: "k \<notin> key ` set rs \<Longrightarrow> row (fold (\<lambda>r t. put t r) rs t) k = row t k"
  by (induction rs arbitrary: t) (auto simp: row_put)

lemma row_fold_distinct:
  "distinct (map key rs) \<Longrightarrow> r \<in> set rs \<Longrightarrow> row (fold (\<lambda>r t. put t r) rs t) (key r) = Some r"
proof (induction rs arbitrary: t)
  case Nil
  then show ?case by simp
next
  case (Cons q rs)
  then show ?case by (cases "r = q") (auto simp: row_fold_other row_put)
qed

lemma put_put_same: "key q = key r \<Longrightarrow> row (put (put t q) r) = row (put t r)"
  by (auto simp: row_put)

end

definition step_row :: "step_status list \<Rightarrow> string \<Rightarrow> step_status option" where
  "step_row ss n = find (\<lambda>s. st_name s = n) ss"

interpretation step_table: keyed_table put_step_status step_row st_name
proof
  show "step_row (put_step_status t r) k = (if k = st_name r then Some r else step_row t k)" for t r k
    by (induction t r rule: put_step_status.induct) (auto simp: step_row_def)
qed

lemma step_row_name: "step_row ss n = Some s \<Longrightarrow> st_name s = n \<and> s \<in> set ss"
  by (auto simp: step_row_def find_Some_iff)

lemma step_row_in: "n \<in> st_name ` set ss \<Longrightarrow> \<exists>s. step_row ss n = Some s"
  by (induction ss) (auto simp: step_row_def)

lemma step_row_distinct: "distinct (map st_name ss) \<Longrightarrow> s \<in> set ss \<Longrightarrow> step_row ss (st_name s) = Some s"
  by (induction ss) (auto simp: step_row_def)

lemma put_step_status_names:
  "map st_name (put_step_status ss s) =
     (if st_name s \<in> st_name ` set ss then map st_name ss else map st_name ss @ [st_name s])"
  by (induction ss s rule: put_step_status.induct) auto

lemma put_step_status_distinct:
  "distinct (map st_name ss) \<Longrightarrow> distinct (map st_name (put_step_status ss s))"
  by (simp add: put_step_status_names)

section \<open>What the operations do\<close>

abbreviation steps_of :: "task_run \<Rightarrow> step_status list" where
  "steps_of tr \<equiv> ts_steps (tr_status tr)"

abbreviation phase_of :: "task_run \<Rightarrow> task_run_phase" where
  "phase_of tr \<equiv> ts_phase (tr_status tr)"

lemma wp_set_step_status [simp]:
  "wp (set_step_status x) Q s =
     Q () (s\<lparr>task := (task s)\<lparr>tr_status := (tr_status (task s))\<lparr>ts_steps := put_step_status (steps_of (task s)) x\<rparr>\<rparr>\<rparr>)"
  by (simp add: set_step_status_def)

lemma wp_init_step_statuses [simp]:
  "wp (init_step_statuses steps) Q s =
     Q () (s\<lparr>task := (task s)\<lparr>tr_status := (tr_status (task s))\<lparr>ts_steps := map pending_status steps\<rparr>\<rparr>\<rparr>)"
  by (simp add: init_step_statuses_def)

lemma wp_mark_step_succeeded [simp]:
  "wp (mark_step_succeeded n d outs a) Q s =
     Q () (s\<lparr>task := (task s)\<lparr>tr_status := (tr_status (task s))\<lparr>ts_steps := put_step_status (steps_of (task s))
              \<lparr>st_name = n, st_phase = StepPhaseSucceeded, st_duration = duration_text d,
               st_outputs = outs, st_logs = []\<rparr>\<rparr>\<rparr>,
            metrics := metrics s @ [StepTotal (tr_namespace (task s)) a ''Succeeded'',
              StepDuration (tr_namespace (task s)) a d]\<rparr>)"
  by (simp add: mark_step_succeeded_def)

lemma wp_mark_step_failed [simp]:
  "wp (mark_step_failed n d msg a) Q s =
     Q () (s\<lparr>task := (task s)\<lparr>tr_status := (tr_status (task s))\<lparr>ts_steps := put_step_status (steps_of (task s))
              \<lparr>st_name = n, st_phase = StepPhaseFailed, st_duration = duration_text d,
               st_outputs = None, st_logs = msg\<rparr>\<rparr>\<rparr>,
            metrics := metrics s @ [StepTotal (tr_namespace (task s)) a ''Failed'',
              StepDuration (tr_namespace (task s)) a d]\<rparr>)"
  by (simp add: mark_step_failed_def)

lemma wp_update_status [simp]:
  "wp (update_status C) Q s =
     (case cl_update_status C (task s) (ext s) of
        (Inl e, w) \<Rightarrow> Q (Some e) (s\<lparr>ext := w, calls := calls s @ [UpdateStatus (task s)]\<rparr>)
      | (Inr tr, w) \<Rightarrow> Q None (s\<lparr>ext := w, calls := calls s @ [UpdateStatus (task s)], task := tr\<rparr>))"
  by (auto simp: update_status_def split: prod.splits sum.splits)

definition with_phase :: "task_run_phase \<Rightarrow> time \<Rightarrow> task_run_status \<Rightarrow> task_run_status" where
  \<comment> \<open>the status \<open>SetPhase\<close> writes\<close>
  "with_phase p now st =
     (if p = TaskRunPhaseRunning then
        (case ts_start_time st of
           None \<Rightarrow> st\<lparr>ts_phase := p, ts_start_time := Some now\<rparr>
         | Some _ \<Rightarrow> st\<lparr>ts_phase := p\<rparr>)
      else if terminal p then st\<lparr>ts_phase := p, ts_completion_time := Some now\<rparr>
      else st\<lparr>ts_phase := p\<rparr>)"

definition phase_metrics :: "task_run_phase \<Rightarrow> time \<Rightarrow> task_run \<Rightarrow> metric list" where
  "phase_metrics p now tr =
     (if terminal p then
        TaskRunTotal (tr_namespace tr) (task_run_phase_string p)
        # (case ts_start_time (tr_status tr) of
             None \<Rightarrow> [] | Some t \<Rightarrow> [TaskRunDuration (tr_namespace tr) (time_sub now t)])
      else [])"

lemma with_phase_simps [simp]:
  "ts_phase (with_phase p now st) = p"
  "ts_steps (with_phase p now st) = ts_steps st"
  "ts_conditions (with_phase p now st) = ts_conditions st"
  by (simp_all add: with_phase_def split: option.split)

lemma wp_set_phase:
  "wp (set_phase C p) Q s =
     (case cl_now C (ext s) of (now, w) \<Rightarrow>
        let tr = (task s)\<lparr>tr_status := with_phase p now (tr_status (task s))\<rparr>;
            s1 = s\<lparr>ext := w, task := tr, metrics := metrics s @ phase_metrics p now (task s)\<rparr>
        in wp (update_status C) Q s1)"
proof -
  obtain now w where now: "cl_now C (ext s) = (now, w)" by (cases "cl_now C (ext s)")
  show ?thesis
    by (cases p; cases "ts_start_time (tr_status (task s))")
      (simp_all del: wp_update_status
        add: now set_phase_def record_task_metrics_def with_phase_def phase_metrics_def
          task_run_status.defs st.defs)
qed

lemma wp_set_condition [simp]:
  "wp (set_condition C L t status reason message) Q s =
     (case cl_now C (ext s) of (now, w) \<Rightarrow>
        Q () (s\<lparr>ext := w, task := (task s)\<lparr>tr_status := (tr_status (task s))\<lparr>ts_conditions :=
          lib_set_status_condition L (ts_conditions (tr_status (task s)))
            \<lparr>sc_type = t, sc_status = status, sc_observed_generation = om_generation (tr_meta (task s)),
             sc_last_transition_time = now, sc_reason = reason, sc_message = message\<rparr>\<rparr>\<rparr>\<rparr>))"
  by (simp add: set_condition_def split: prod.splits)

lemma sends_status_ops [sends_rules, simp]:
  "sends P (set_step_status x)"
  "sends P (init_step_statuses steps)"
  "sends P (mark_step_succeeded n d outs a)"
  "sends P (mark_step_failed n d msg a)"
  "sends P (set_condition C L t status reason message)"
  by (simp_all add: set_step_status_def init_step_statuses_def mark_step_succeeded_def
      mark_step_failed_def set_condition_def sends_bind)

lemma wp_mark_failed_status:
  "wp (mark_failed C L reason message) (\<lambda>r s'. \<exists>tr. calls s' = calls s @ [UpdateStatus tr]
     \<and> phase_of tr = TaskRunPhaseFailed \<and> steps_of tr = steps_of (task s)) s"
  by (auto simp: mark_failed_def wp_set_phase Let_def split: prod.splits sum.splits)

lemma wp_mark_succeeded_status:
  "wp (mark_succeeded C L) (\<lambda>r s'. \<exists>tr. calls s' = calls s @ [UpdateStatus tr]
     \<and> phase_of tr = TaskRunPhaseSucceeded \<and> steps_of tr = steps_of (task s)) s"
  by (auto simp: mark_succeeded_def wp_set_phase Let_def split: prod.splits sum.splits)

lemma sends_marks [sends_rules]:
  assumes "\<And>tr. P (UpdateStatus tr)"
  shows "sends P (set_phase C p)"
    and "sends P (mark_failed C L reason message)"
    and "sends P (mark_succeeded C L)"
proof -
  show phase: "sends P (set_phase C p)" for p
    unfolding set_phase_def record_task_metrics_def
    by (intro sends_bind sends_no_request sends_if sends_return sends_case_option
        sends_update_status assms)
  show "sends P (mark_failed C L reason message)" "sends P (mark_succeeded C L)"
    unfolding mark_failed_def mark_succeeded_def
    by (intro sends_bind sends_no_request sends_status_ops phase)+
qed

section \<open>Properties\<close>

text \<open>\<open>SetStepStatus\<close> is an upsert by name: the step's row is the new status, every other
  step's row is untouched, the order of the rows is kept, a row is appended only for a new
  name, and names stay distinct if they were.\<close>

theorem put_step_status_upserts:
  "step_row (put_step_status ss x) n = (if n = st_name x then Some x else step_row ss n)
   \<and> map st_name (put_step_status ss x) =
       (if st_name x \<in> set (map st_name ss) then map st_name ss else map st_name ss @ [st_name x])
   \<and> distinct (map st_name (put_step_status ss x)) = distinct (map st_name ss)"
  by (simp add: step_table.row_put put_step_status_names)

text \<open>\<open>SetPhase\<close> sends exactly one request, the status update, and the object it sends has
  the new phase, the old spec, steps and conditions; the start time is set on entering Running
  and only if it was unset, the completion time on entering Succeeded or Failed and only then.
  The metrics of a terminal phase are observed whether or not that update succeeds, and a
  failed update leaves the sent object in memory.\<close>

theorem set_phase_writes_once:
  assumes run: "run_state (set_phase C p) s = (r, s')"
  shows "\<exists>now tr. calls s' = calls s @ [UpdateStatus tr]
      \<and> phase_of tr = p \<and> tr_meta tr = tr_meta (task s) \<and> tr_spec tr = tr_spec (task s)
      \<and> steps_of tr = steps_of (task s)
      \<and> ts_conditions (tr_status tr) = ts_conditions (tr_status (task s))
      \<and> ts_start_time (tr_status tr) =
          (if p = TaskRunPhaseRunning \<and> ts_start_time (tr_status (task s)) = None then Some now
           else ts_start_time (tr_status (task s)))
      \<and> ts_completion_time (tr_status tr) =
          (if p = TaskRunPhaseSucceeded \<or> p = TaskRunPhaseFailed then Some now
           else ts_completion_time (tr_status (task s)))
      \<and> metrics s' = metrics s @ phase_metrics p now (task s)
      \<and> (r = None \<or> task s' = tr)"
proof -
  obtain now w where now: "cl_now C (ext s) = (now, w)" by (cases "cl_now C (ext s)")
  define tr where "tr = (task s)\<lparr>tr_status := with_phase p now (tr_status (task s))\<rparr>"
  have wp: "wp (set_phase C p) (\<lambda>r s'. calls s' = calls s @ [UpdateStatus tr]
      \<and> metrics s' = metrics s @ phase_metrics p now (task s) \<and> (r = None \<or> task s' = tr)) s"
    by (auto simp: wp_set_phase now tr_def Let_def split: prod.splits sum.splits)
  show ?thesis
    using wpD [OF wp run]
    by (intro exI [of _ now] exI [of _ tr]) (auto simp: tr_def with_phase_def terminal_def split: option.splits)
qed

theorem set_phase_writes_once_witness:
  "\<exists>now tr. calls (snd (run_state (set_phase example_client TaskRunPhaseRunning)
       (example_state empty_cluster (example_task_run [] [])))) = [UpdateStatus tr]
     \<and> ts_start_time (tr_status tr) = Some now"
  using set_phase_writes_once
    [of example_client TaskRunPhaseRunning "example_state empty_cluster (example_task_run [] [])",
     OF surjective_pairing]
  by (auto simp: example_defs)

definition ended_as ::
  "task_run \<Rightarrow> task_run \<Rightarrow> task_run_phase \<Rightarrow> string \<Rightarrow> string \<Rightarrow> string \<Rightarrow> bool" where
  "ended_as old tr p ct reason message \<longleftrightarrow>
     phase_of tr = p \<and> ts_completion_time (tr_status tr) \<noteq> None \<and> steps_of tr = steps_of old
     \<and> (\<exists>d. find_condition (ts_conditions (tr_status tr)) ct = Some d
          \<and> sc_status d = ConditionTrue \<and> sc_reason d = reason \<and> sc_message d = message
          \<and> sc_observed_generation d = om_generation (tr_meta old))
     \<and> (\<forall>t. t \<noteq> ct \<longrightarrow> find_condition (ts_conditions (tr_status tr)) t
                       = find_condition (ts_conditions (tr_status old)) t)"

lemma condition_then_phase:
  assumes L: "sets_conditions L" and p: "terminal p"
  shows "wp (set_condition C L ct ConditionTrue reason message) (\<lambda>_. wp (set_phase C p)
           (\<lambda>r s'. \<exists>tr. calls s' = calls s @ [UpdateStatus tr]
              \<and> ended_as (task s) tr p ct reason message)) s"
proof -
  have law: "(\<exists>d. find_condition (lib_set_status_condition L cs c) (sc_type c) = Some d
          \<and> sc_status d = sc_status c \<and> sc_reason d = sc_reason c \<and> sc_message d = sc_message c
          \<and> sc_observed_generation d = sc_observed_generation c)
        \<and> (\<forall>t. t \<noteq> sc_type c \<longrightarrow>
             find_condition (lib_set_status_condition L cs c) t = find_condition cs t)" for cs c
    using L unfolding sets_conditions_def by blast
  obtain now w where now: "cl_now C (ext s) = (now, w)" by (cases "cl_now C (ext s)")
  obtain now2 w2 where now2: "cl_now C w = (now2, w2)" by (cases "cl_now C w")
  let ?c = "\<lparr>sc_type = ct, sc_status = ConditionTrue,
      sc_observed_generation = om_generation (tr_meta (task s)),
      sc_last_transition_time = now, sc_reason = reason, sc_message = message\<rparr>"
  have ended: "ended_as (task s)
     ((task s)\<lparr>tr_status := with_phase p now2 ((tr_status (task s))\<lparr>ts_conditions :=
        lib_set_status_condition L (ts_conditions (tr_status (task s))) ?c\<rparr>)\<rparr>) p ct reason message"
    using law [of "ts_conditions (tr_status (task s))" ?c] p
    by (auto simp: ended_as_def with_phase_def)
  then show ?thesis
    by (auto simp: wp_set_phase now now2 Let_def split: prod.splits sum.splits)
qed

text \<open>\<open>MarkFailed\<close> and \<open>MarkSucceeded\<close> end the TaskRun in one status update: the object they
  send is in the terminal phase with a completion time, carries the condition \<open>Failed\<close> with the
  given reason and message (\<open>Complete\<close> with \<open>AllStepsSucceeded\<close> and the number of steps), for
  the current generation, and keeps every other condition and every step status.\<close>

theorem mark_ends_task:
  assumes "sets_conditions L"
  shows "wp (mark_failed C L reason message) (\<lambda>r s'. \<exists>tr. calls s' = calls s @ [UpdateStatus tr]
           \<and> ended_as (task s) tr TaskRunPhaseFailed ''Failed'' reason message) s
       \<and> wp (mark_succeeded C L) (\<lambda>r s'. \<exists>tr. calls s' = calls s @ [UpdateStatus tr]
           \<and> ended_as (task s) tr TaskRunPhaseSucceeded ''Complete'' ''AllStepsSucceeded''
               (dec (int (length (steps_of (task s)))) @ '' steps completed'')) s"
  unfolding mark_failed_def mark_succeeded_def wp_bind wp_get_task
  by (intro conjI condition_then_phase [OF assms] terminal_phases)

theorem mark_ends_task_witness:
  "\<exists>tr. calls (snd (run_state (mark_failed example_client example_lib ''why'' ''text'')
       (example_state empty_cluster (example_task_run [] [])))) = [UpdateStatus tr]
     \<and> phase_of tr = TaskRunPhaseFailed"
  using mark_ends_task [OF example_lib_laws(1), of example_client "''why''" "''text''"
      "example_state empty_cluster (example_task_run [] [])"]
  by (auto simp: wp_def ended_as_def example_state_def split: prod.splits)

end
