(* ===== verification/JobBuilder.thy ===== *)
theory JobBuilder
  imports Validation ExampleCluster
begin

text \<open>
  Jobs and cron jobs for the runner steps (\<open>internal/controller/jobbuilder.go\<close>). A result of
  the option type is \<open>None\<close> where the Go code dereferences a nil pointer: the image of a step
  without runner, and the Job that \<open>BuildCronJob\<close> asks of \<open>Build\<close> for no steps at all.
  The lemmas show that neither happens on the steps the controller passes, and what the
  objects built look like.
\<close>

section \<open>Constants\<close>

definition step_volume_name :: string where "step_volume_name = ''step-data''"
definition step_mount_path :: string where "step_mount_path = ''/etc/step''"
definition params_volume_name :: string where "params_volume_name = ''step-params''"
definition params_mount_path :: string where "params_mount_path = ''/etc/step/params''"
definition collector_image :: string where
  "collector_image = ''ghcr.io/davidkenelm/taskrun-runners/collector:0.1.0''"
definition outputs_log_prefix :: string where "outputs_log_prefix = ''TASKRUN_OUTPUTS=''"
definition max_log_lines :: nat where "max_log_lines = 100"

section \<open>Parts of a Job\<close>

definition job_name :: "task_run \<Rightarrow> string" where
  "job_name taskRun = tr_name taskRun @ ''-runner''"

definition job_labels :: "task_run \<Rightarrow> string gomap" where
  "job_labels taskRun =
     Some [(''taskrun.io/taskrun'', tr_name taskRun),
           (''app.kubernetes.io/managed-by'', ''taskrun-controller'')]"

fun map_concurrency_policy :: "concurrency_policy \<Rightarrow> batch_concurrency_policy" where
  "map_concurrency_policy ConcurrencyPolicyAllow = AllowConcurrent"
| "map_concurrency_policy ConcurrencyPolicyReplace = ReplaceConcurrent"
| "map_concurrency_policy _ = ForbidConcurrent"

definition build_volumes :: "task_run \<Rightarrow> volume list" where
  "build_volumes taskRun =
     [\<lparr>vol_name = step_volume_name, vol_source = EmptyDir\<rparr>,
      \<lparr>vol_name = params_volume_name, vol_source = ConfigMapSource (tr_name taskRun @ ''-params'')\<rparr>]"

definition auth_init_container :: "auth_spec \<Rightarrow> container" where
  "auth_init_container auth =
     (let c = \<lparr>ctr_name = ''auth'',
               ctr_image = ''ghcr.io/davidkenelm/taskrun-runners/auth:0.1.0'',
               ctr_command = [''/auth-init'', ''--type'', auth_type_string (as_type auth)],
               ctr_env = [],
               ctr_env_from_secrets = [],
               ctr_volume_mounts =
                 [\<lparr>vm_name = step_volume_name, vm_mount_path = step_mount_path, vm_read_only = False\<rparr>]\<rparr>;
          c1 = (if as_token_endpoint auth \<noteq> [] then
                  c\<lparr>ctr_env := ctr_env c @ [\<lparr>ev_name = ''TOKEN_ENDPOINT'', ev_value = as_token_endpoint auth\<rparr>]\<rparr>
                else c)
      in case as_credentials_from auth of
           None \<Rightarrow> c1
         | Some cs \<Rightarrow>
             c1\<lparr>ctr_env_from_secrets := ctr_env_from_secrets c1 @ [sks_name (cs_secret_ref cs)]\<rparr>)"

definition step_container_name :: "int \<Rightarrow> string \<Rightarrow> string" where
  \<comment> \<open>\<open>fmt.Sprintf("step-%d-%s", i, rs.Step.Name)\<close>\<close>
  "step_container_name i n = ''step-'' @ dec i @ ''-'' @ n"

definition step_container :: "int \<Rightarrow> step_spec \<Rightarrow> runner_spec \<Rightarrow> container" where
  \<comment> \<open>the body of the loop of \<open>buildInitContainers\<close>\<close>
  "step_container i step runner =
     \<lparr>ctr_name = step_container_name i (ss_name step),
      ctr_image = rs_image runner,
      ctr_command = [''/runner''],
      ctr_env = [\<lparr>ev_name = ''STEP_NAME'', ev_value = ss_name step\<rparr>],
      ctr_env_from_secrets = [],
      ctr_volume_mounts =
        [\<lparr>vm_name = step_volume_name, vm_mount_path = step_mount_path, vm_read_only = False\<rparr>,
         \<lparr>vm_name = params_volume_name, vm_mount_path = params_mount_path, vm_read_only = True\<rparr>]\<rparr>"

fun step_containers :: "int \<Rightarrow> resolved_step list \<Rightarrow> container list option" where
  \<comment> \<open>the loop, from index \<open>i\<close>\<close>
  "step_containers i [] = Some []"
| "step_containers i (rs # steps) =
     (case sds_runner (rs_definition rs) of
        None \<Rightarrow> None
      | Some runner \<Rightarrow>
          map_option (Cons (step_container i (rs_step rs) runner)) (step_containers (i + 1) steps))"

definition build_init_containers :: "task_run \<Rightarrow> resolved_step list \<Rightarrow> container list option" where
  "build_init_containers taskRun steps =
     (let containers = (case trs_auth (tr_spec taskRun) of
                          None \<Rightarrow> [] | Some auth \<Rightarrow> [auth_init_container auth])
      in map_option (append containers) (step_containers 0 steps))"

section \<open>Build and BuildCronJob\<close>

definition collect_outputs_container :: container where
  "collect_outputs_container =
     \<lparr>ctr_name = ''collect-outputs'', ctr_image = collector_image, ctr_command = [''/collector''],
      ctr_env = [], ctr_env_from_secrets = [],
      ctr_volume_mounts =
        [\<lparr>vm_name = step_volume_name, vm_mount_path = step_mount_path, vm_read_only = False\<rparr>]\<rparr>"

definition build :: "lib \<Rightarrow> task_run \<Rightarrow> resolved_step list \<Rightarrow> (string + job option) option" where
  \<comment> \<open>\<open>Some (Inr None)\<close> is the result \<open>nil, nil\<close>\<close>
  "build L taskRun runnerSteps =
     (if length runnerSteps = 0 then Some (Inr None)
      else case build_init_containers taskRun runnerSteps of
        None \<Rightarrow> None
      | Some initContainers \<Rightarrow>
          (let job = \<lparr>job_meta = fresh_meta (job_name taskRun) (tr_namespace taskRun) (job_labels taskRun),
                      job_spec = \<lparr>jbs_backoff_limit = Some 0,
                        jbs_template = \<lparr>pts_labels = job_labels taskRun,
                          pts_spec = \<lparr>ps_restart_policy = RestartPolicyNever,
                            ps_init_containers = initContainers,
                            ps_containers = [collect_outputs_container],
                            ps_volumes = build_volumes taskRun\<rparr>\<rparr>\<rparr>,
                      job_status = empty_job_status\<rparr>
           in case lib_set_controller_reference L taskRun (job_meta job) of
                Inl err \<Rightarrow> Some (Inl (''setting owner reference: '' @ err))
              | Inr meta \<Rightarrow> Some (Inr (Some (job\<lparr>job_meta := meta\<rparr>)))))"

definition build_cron_job :: "lib \<Rightarrow> task_run \<Rightarrow> resolved_step list \<Rightarrow> (string + cron_job) option" where
  "build_cron_job L taskRun runnerSteps =
     (case build L taskRun runnerSteps of
        None \<Rightarrow> None
      | Some (Inl err) \<Rightarrow> Some (Inl err)
      | Some (Inr None) \<Rightarrow> None
      | Some (Inr (Some job)) \<Rightarrow>
          (let cronJob =
             \<lparr>cj_meta = fresh_meta (job_name taskRun) (tr_namespace taskRun) (job_labels taskRun),
              cj_schedule = trs_schedule (tr_spec taskRun),
              cj_concurrency_policy = map_concurrency_policy (trs_concurrency_policy (tr_spec taskRun)),
              cj_job_template_meta = job_meta job,
              cj_job_template_spec = job_spec job\<rparr>
           in case lib_set_controller_reference L taskRun (cj_meta cronJob) of
                Inl err \<Rightarrow> Some (Inl (''setting owner reference: '' @ err))
              | Inr meta \<Rightarrow> Some (Inr (cronJob\<lparr>cj_meta := meta\<rparr>))))"

section \<open>Container names\<close>

text \<open>The builder names the container of step \<open>i\<close> and the log collector asks for it by name,
  so the name must determine the index.\<close>

fun names_from :: "(int \<Rightarrow> string \<Rightarrow> string) \<Rightarrow> int \<Rightarrow> string list \<Rightarrow> string list" where
  "names_from nm i [] = []"
| "names_from nm i (x # xs) = nm i x # names_from nm (i + 1) xs"

lemma names_from_nth: "k < length xs \<Longrightarrow> names_from nm i xs ! k = nm (i + int k) (xs ! k)"
  by (induction xs arbitrary: i k) (auto simp: nth_Cons algebra_simps split: nat.split)

lemma length_names_from [simp]: "length (names_from nm i xs) = length xs"
  by (induction xs arbitrary: i) auto

locale indexed_names =
  fixes nm :: "int \<Rightarrow> string \<Rightarrow> string"
  assumes nm_inject: "0 \<le> i \<Longrightarrow> 0 \<le> j \<Longrightarrow> nm i x = nm j y \<Longrightarrow> i = j \<and> x = y"
begin

lemma names_from_distinct: "distinct (names_from nm 0 xs)"
proof (unfold distinct_conv_nth, intro allI impI)
  fix i j
  assume "i < length (names_from nm 0 xs)" "j < length (names_from nm 0 xs)" "i \<noteq> j"
  then show "names_from nm 0 xs ! i \<noteq> names_from nm 0 xs ! j"
    using nm_inject [of "int i" "int j" "xs ! i" "xs ! j"] by (auto simp: names_from_nth)
qed

lemma names_from_inject: "names_from nm 0 xs = names_from nm 0 ys \<longleftrightarrow> xs = ys"
proof
  assume eq: "names_from nm 0 xs = names_from nm 0 ys"
  then have len: "length xs = length ys" by (metis length_names_from)
  show "xs = ys"
  proof (rule nth_equalityI [OF len])
    fix k assume "k < length xs"
    with eq len have "nm (int k) (xs ! k) = nm (int k) (ys ! k)"
      by (metis add_0 names_from_nth)
    then show "xs ! k = ys ! k" using nm_inject [of "int k" "int k"] by simp
  qed
qed simp

end

interpretation step_names: indexed_names step_container_name
proof
  show "i = j \<and> x = y"
    if "0 \<le> i" "0 \<le> j" "step_container_name i x = step_container_name j y" for i j x y
    using dec_delimited [of "CHR ''-''" i j x y] that
    by (simp add: step_container_name_def is_digit_def)
qed

section \<open>What is built\<close>

lemma step_containers_defined:
  "(\<exists>cs. step_containers i steps = Some cs) \<longleftrightarrow> list_all is_runner steps"
  by (induction steps arbitrary: i) (auto simp: is_runner_def split: option.splits)

lemma step_containers_shape:
  "step_containers i steps = Some cs \<Longrightarrow>
     map ctr_name cs = names_from step_container_name i (map rs_name steps)
     \<and> map ctr_image cs = map (\<lambda>r. rs_image (the (sds_runner (rs_definition r)))) steps
     \<and> map ctr_env cs = map (\<lambda>r. [\<lparr>ev_name = ''STEP_NAME'', ev_value = rs_name r\<rparr>]) steps
     \<and> list_all (\<lambda>c. ctr_volume_mounts c =
         [\<lparr>vm_name = step_volume_name, vm_mount_path = step_mount_path, vm_read_only = False\<rparr>,
          \<lparr>vm_name = params_volume_name, vm_mount_path = params_mount_path, vm_read_only = True\<rparr>]) cs"
  by (induction steps arbitrary: i cs) (auto simp: step_container_def split: option.splits)

lemma auth_init_container_simps [simp]:
  "ctr_name (auth_init_container auth) = ''auth''"
  "ctr_volume_mounts (auth_init_container auth) =
     [\<lparr>vm_name = step_volume_name, vm_mount_path = step_mount_path, vm_read_only = False\<rparr>]"
  by (simp_all add: auth_init_container_def Let_def split: option.split)

lemma step_container_name_not_auth [simp]:
  "''auth'' \<noteq> step_container_name i n"
  "step_container_name i n \<noteq> ''auth''"
  by (simp_all add: step_container_name_def)

lemma constants_differ [simp]:
  "step_volume_name \<noteq> params_volume_name"
  "params_volume_name \<noteq> step_volume_name"
  "step_mount_path \<noteq> params_mount_path"
  by (simp_all add: step_volume_name_def params_volume_name_def step_mount_path_def
      params_mount_path_def)

lemma step_containers_length: "step_containers i steps = Some cs \<Longrightarrow> length cs = length steps"
  using step_containers_shape [of i steps cs] by (metis length_map)

definition job_spec_with :: "task_run \<Rightarrow> container list \<Rightarrow> job_spec" where
  "job_spec_with tr cs =
     \<lparr>jbs_backoff_limit = Some 0,
          jbs_template = \<lparr>pts_labels = job_labels tr,
            pts_spec = \<lparr>ps_restart_policy = RestartPolicyNever,
              ps_init_containers = (case trs_auth (tr_spec tr) of
                  None \<Rightarrow> [] | Some auth \<Rightarrow> [auth_init_container auth]) @ cs,
              ps_containers = [collect_outputs_container],
              ps_volumes = build_volumes tr\<rparr>\<rparr>\<rparr>"

lemma buildE:
  assumes "build L tr steps = Some (Inr (Some j))"
  obtains cs where "step_containers 0 steps = Some cs" and "steps \<noteq> []"
    and "job_spec j = job_spec_with tr cs"
    and "lib_set_controller_reference L tr (fresh_meta (job_name tr) (tr_namespace tr) (job_labels tr))
          = Inr (job_meta j)"
    and "job_status j = empty_job_status"
  using assms that
  by (auto simp: build_def build_init_containers_def job_spec_with_def Let_def
      split: if_splits option.splits sum.splits)

section \<open>An example\<close>

definition example_runner :: "string \<Rightarrow> resolved_step" where
  "example_runner n =
     \<lparr>rs_step = example_step n ''run'' [], rs_definition = example_definition (Some ''image'')\<rparr>"

definition example_job :: job where
  "example_job =
     \<lparr>job_meta = \<lparr>om_name = ''demo-runner'', om_namespace = ''apps'', om_generation = 0,
        om_labels = job_labels (example_task_run [] []),
        om_owner_references = [\<lparr>or_kind = ''TaskRun'', or_name = ''demo'', or_controller = True\<rparr>],
        om_extra = []\<rparr>,
      job_spec = job_spec_with (example_task_run [] [])
        [step_container 0 (rs_step (example_runner ''a'')) \<lparr>rs_image = ''image''\<rparr>,
         step_container 1 (rs_step (example_runner ''b'')) \<lparr>rs_image = ''image''\<rparr>],
      job_status = empty_job_status\<rparr>"

lemma example_build:
  "build example_lib (example_task_run schedule []) [example_runner ''a'', example_runner ''b''] =
     Some (Inr (Some example_job))"
  by (simp add: build_def build_init_containers_def Let_def example_runner_def example_definition_def
      example_lib_def example_job_def job_spec_with_def job_name_def job_labels_def build_volumes_def
      fresh_meta_def example_task_run_def)

section \<open>Properties\<close>

lemma build_None: "build L tr steps = None \<longleftrightarrow> \<not> list_all is_runner steps"
  using step_containers_defined [of 0 steps]
  by (auto simp: build_def build_init_containers_def Let_def split: if_splits option.splits sum.splits)

lemma build_nil: "build L tr steps = Some (Inr None) \<longleftrightarrow> steps = []"
  by (auto simp: build_def Let_def split: if_splits option.splits sum.splits)

lemma build_cron_job_None: "build_cron_job L tr steps = None \<longleftrightarrow> steps = [] \<or> \<not> list_all is_runner steps"
  using build_None [of L tr steps] build_nil [of L tr steps]
  by (auto simp: build_cron_job_def Let_def split: option.splits sum.splits)

text \<open>\<open>Build\<close> returns \<open>nil, nil\<close> exactly for no steps and panics exactly when a step
  without runner is among them; \<open>BuildCronJob\<close> panics for no steps too. Neither panics on the
  runner steps of a partition, as long as there are any.\<close>

theorem build_defined:
  "(build L tr steps = Some (Inr None) \<longleftrightarrow> steps = [])
   \<and> (build L tr steps = None \<longleftrightarrow> \<not> list_all is_runner steps)
   \<and> (build_cron_job L tr steps = None \<longleftrightarrow> \<not> (steps \<noteq> [] \<and> list_all is_runner steps))
   \<and> build L tr (ps_runner (partition_steps all_steps)) \<noteq> None
   \<and> (build_cron_job L tr (ps_runner (partition_steps all_steps)) = None
        \<longleftrightarrow> ps_runner (partition_steps all_steps) = [])"
proof -
  have "list_all is_runner (ps_runner (partition_steps all_steps))"
    by (simp add: list_all_iff)
  then show ?thesis by (simp add: build_cron_job_None build_None build_nil)
qed

text \<open>C35: the pod of a Job runs the steps one after another in the declared order: its init
  containers are the auth container, if the TaskRun has an auth block, followed by one
  container per step with the step's image and name, all under different names; the Job never
  retries and the pod never restarts.\<close>

theorem build_runs_steps_in_order:
  assumes "build L tr steps = Some (Inr (Some j))"
  shows "jbs_backoff_limit (job_spec j) = Some 0
     \<and> ps_restart_policy (pts_spec (jbs_template (job_spec j))) = RestartPolicyNever
     \<and> (let inits = ps_init_containers (pts_spec (jbs_template (job_spec j)));
            auths = (case trs_auth (tr_spec tr) of None \<Rightarrow> [] | Some a \<Rightarrow> [auth_init_container a])
        in distinct (map ctr_name inits)
           \<and> take (length auths) inits = auths
           \<and> map ctr_name (drop (length auths) inits) = names_from step_container_name 0 (map rs_name steps)
           \<and> map ctr_image (drop (length auths) inits) =
               map (\<lambda>r. rs_image (the (sds_runner (rs_definition r)))) steps
           \<and> map ctr_env (drop (length auths) inits) =
               map (\<lambda>r. [\<lparr>ev_name = ''STEP_NAME'', ev_value = rs_name r\<rparr>]) steps)"
proof (rule buildE [OF assms])
  fix cs
  assume cs: "step_containers 0 steps = Some cs"
    and spec: "job_spec j = job_spec_with tr cs"
  have no_auth: "''auth'' \<notin> set (names_from step_container_name 0 xs)" for xs
    by (auto simp: in_set_conv_nth names_from_nth)
  show ?thesis
    using step_containers_shape [OF cs] no_auth [of "map rs_name steps"]
      step_names.names_from_distinct [of "map rs_name steps"]
    by (cases "trs_auth (tr_spec tr)") (simp_all add: spec job_spec_with_def Let_def)
qed

theorem build_runs_steps_in_order_witness:
  "map ctr_name (ps_init_containers (pts_spec (jbs_template (job_spec example_job)))) =
     [''step-0-a'', ''step-1-b'']"
proof -
  have digits: "dec 0 = ''0''" "dec 1 = ''1''" by code_simp+
  show ?thesis
    using build_runs_steps_in_order [OF example_build [of "[]"]]
    by (simp add: example_task_run_def example_runner_def example_step_def step_container_name_def
        digits Let_def)
qed

text \<open>C40: the pod template is consistent: every volume a container mounts is declared, the
  declared volumes have different names, a container mounts no path twice, and only the
  step-data volume is mounted writable.\<close>

theorem build_mounts_declared:
  assumes "build L tr steps = Some (Inr (Some j))"
  shows "let pod = pts_spec (jbs_template (job_spec j)) in
     distinct (map vol_name (ps_volumes pod))
     \<and> list_all (\<lambda>c. distinct (map vm_mount_path (ctr_volume_mounts c))
          \<and> list_all (\<lambda>m. vm_name m \<in> set (map vol_name (ps_volumes pod))
               \<and> vm_read_only m = (vm_name m \<noteq> step_volume_name)) (ctr_volume_mounts c))
        (ps_init_containers pod @ ps_containers pod)"
proof (rule buildE [OF assms])
  fix cs
  assume cs: "step_containers 0 steps = Some cs"
    and spec: "job_spec j = job_spec_with tr cs"
  show ?thesis
    using step_containers_shape [OF cs]
    by (cases "trs_auth (tr_spec tr)")
       (auto simp: spec job_spec_with_def Let_def build_volumes_def collect_outputs_container_def list_all_iff)
qed

theorem build_mounts_declared_witness:
  "let pod = pts_spec (jbs_template (job_spec example_job)) in
     map vol_name (ps_volumes pod) = [step_volume_name, params_volume_name]
     \<and> list_all (\<lambda>c. distinct (map vm_mount_path (ctr_volume_mounts c))
          \<and> list_all (\<lambda>m. vm_read_only m = (vm_name m \<noteq> step_volume_name)) (ctr_volume_mounts c))
        (ps_init_containers pod @ ps_containers pod)"
  using build_mounts_declared [OF example_build [of "[]"]]
  by (auto simp: Let_def list_all_iff example_job_def job_spec_with_def build_volumes_def)

text \<open>What the controller finds a Job again by: on success the Job has the name, namespace
  and labels of its TaskRun and is owned by it.\<close>

theorem build_owned:
  assumes "sets_owner L" and "build L tr steps = Some (Inr (Some j))"
  shows "om_name (job_meta j) = tr_name tr @ ''-runner''
     \<and> om_namespace (job_meta j) = tr_namespace tr
     \<and> mget (om_labels (job_meta j)) ''taskrun.io/taskrun'' = Some (tr_name tr)
     \<and> pts_labels (jbs_template (job_spec j)) = om_labels (job_meta j)
     \<and> (\<exists>r\<in>set (om_owner_references (job_meta j)). or_name r = tr_name tr \<and> or_controller r)"
proof (rule buildE [OF assms(2)])
  fix cs
  assume "job_spec j = job_spec_with tr cs"
    and "lib_set_controller_reference L tr (fresh_meta (job_name tr) (tr_namespace tr) (job_labels tr))
          = Inr (job_meta j)"
  moreover from this(2) have "om_name (job_meta j) = job_name tr \<and> om_namespace (job_meta j) = tr_namespace tr
      \<and> om_labels (job_meta j) = job_labels tr
      \<and> (\<exists>r\<in>set (om_owner_references (job_meta j)). or_name r = tr_name tr \<and> or_controller r)"
    using assms(1) unfolding sets_owner_def by (metis fresh_meta_simps(1-3))
  ultimately show ?thesis
    by (simp add: job_spec_with_def job_name_def job_labels_def)
qed

theorem build_owned_witness:
  "om_name (job_meta example_job) = ''demo-runner''"
  using build_owned [OF example_lib_laws(2) example_build [of "[]"]]
  by (simp add: example_task_run_def)

text \<open>A cron job runs the same Job as an unscheduled TaskRun would, on the TaskRun's schedule;
  overlapping runs are allowed only if the policy says Allow, replaced only if it says Replace,
  and forbidden for every other value.\<close>

theorem build_cron_job_wraps_build:
  assumes "build_cron_job L tr steps = Some (Inr cj)"
  shows "(\<exists>j. build L tr steps = Some (Inr (Some j))
          \<and> cj_job_template_spec cj = job_spec j \<and> cj_job_template_meta cj = job_meta j)
       \<and> cj_schedule cj = trs_schedule (tr_spec tr)
       \<and> (cj_concurrency_policy cj = AllowConcurrent
            \<longleftrightarrow> trs_concurrency_policy (tr_spec tr) = ConcurrencyPolicyAllow)
       \<and> (cj_concurrency_policy cj = ReplaceConcurrent
            \<longleftrightarrow> trs_concurrency_policy (tr_spec tr) = ConcurrencyPolicyReplace)"
proof -
  have "cj_concurrency_policy cj = map_concurrency_policy (trs_concurrency_policy (tr_spec tr))"
    using assms by (auto simp: build_cron_job_def Let_def split: option.splits sum.splits)
  moreover have "(\<exists>j. build L tr steps = Some (Inr (Some j))
          \<and> cj_job_template_spec cj = job_spec j \<and> cj_job_template_meta cj = job_meta j)
       \<and> cj_schedule cj = trs_schedule (tr_spec tr)"
    using assms by (auto simp: build_cron_job_def Let_def split: option.splits sum.splits)
  ultimately show ?thesis
    by (cases "trs_concurrency_policy (tr_spec tr)") simp_all
qed

theorem build_cron_job_wraps_build_witness:
  "\<exists>cj. build_cron_job example_lib (example_task_run ''@daily'' []) [example_runner ''a'', example_runner ''b'']
          = Some (Inr cj)
       \<and> cj_schedule cj = ''@daily'' \<and> cj_job_template_spec cj = job_spec example_job"
proof -
  let ?tr = "example_task_run ''@daily'' []"
  let ?steps = "[example_runner ''a'', example_runner ''b'']"
  obtain cj where cj: "build_cron_job example_lib ?tr ?steps = Some (Inr cj)"
    by (simp add: build_cron_job_def example_build Let_def)
  have "trs_schedule (tr_spec ?tr) = ''@daily''" by (simp add: example_task_run_def)
  with build_cron_job_wraps_build [OF cj] show ?thesis
    by (intro exI [of _ cj]) (auto simp: cj example_build)
qed

end
