(* ===== verification/Executor.thy ===== *)
theory Executor
  imports Validation ExampleCluster
begin

text \<open>
  API-native steps (\<open>internal/controller/executor.go\<close>): the dispatcher \<open>Execute\<close> and its six
  actions. An action answers with the outputs of the step or the text of its error. What all
  actions have in common is the locale \<open>step_action\<close>: at most one read followed by one write,
  both of the one object the parameters name, and no effect on the TaskRun in memory.
\<close>

section \<open>Operations\<close>

record step_executor =
  se_namespace :: string

definition new_step_executor :: "string \<Rightarrow> step_executor" where
  "new_step_executor ns = \<lparr>se_namespace = ns\<rparr>"

definition resolve_namespace :: "step_executor \<Rightarrow> string gomap \<Rightarrow> string" where
  "resolve_namespace e params =
     (case mget params ''namespace'' of
        Some ns \<Rightarrow> if ns \<noteq> [] then ns else se_namespace e
      | None \<Rightarrow> se_namespace e)"

definition param_value :: "string gomap \<Rightarrow> string" where
  \<comment> \<open>the parameter \<open>value\<close>, or \<open>valueFrom\<close> where it is present and not empty\<close>
  "param_value params =
     (case mget params ''valueFrom'' of
        Some v \<Rightarrow> if v \<noteq> [] then v else mread params ''value''
      | None \<Rightarrow> mread params ''value'')"

definition secret_update ::
  "'w client \<Rightarrow> step_executor \<Rightarrow> string gomap \<Rightarrow> ('w, string + string gomap) prog" where
  "secret_update C e params =
     (let secretName = mread params ''secretName'';
          key = mread params ''key'';
          value = param_value params;
          ns = resolve_namespace e params;
          nn = NamespacedName ns secretName
      in do {
        r \<leftarrow> request (GetSecret nn) (cl_get_secret C nn);
        (case r of
           Inl err \<Rightarrow>
             if is_not_found err then do {
               let secret = \<lparr>sec_meta = fresh_meta secretName ns None, sec_data = Some [key \<mapsto> value]\<rparr>;
               u \<leftarrow> request (CreateSecret secret) (cl_create_secret C secret);
               (case u of
                  Some err2 \<Rightarrow>
                    return (Inl (''creating secret '' @ ns @ ''/'' @ secretName @ '': '' @ api_error_text err2))
                | None \<Rightarrow> return (Inr (Some [(''updated'', ''created'')]))) }
             else return (Inl (''getting secret '' @ ns @ ''/'' @ secretName @ '': '' @ api_error_text err))
         | Inr secret \<Rightarrow> do {
             let dat = (case sec_data secret of None \<Rightarrow> Map.empty | Some d \<Rightarrow> d);
             let secret2 = secret\<lparr>sec_data := Some (dat(key \<mapsto> value))\<rparr>;
             u \<leftarrow> request (UpdateSecret secret2) (cl_update_secret C secret2);
             (case u of
                Some err2 \<Rightarrow>
                  return (Inl (''updating secret '' @ ns @ ''/'' @ secretName @ '': '' @ api_error_text err2))
              | None \<Rightarrow> return (Inr (Some [(''updated'', ''patched'')]))) }) })"

definition secret_value :: "secret \<Rightarrow> string \<Rightarrow> string option" where
  \<comment> \<open>\<open>val, ok := secret.Data[key]\<close>\<close>
  "secret_value secret key = (case sec_data secret of None \<Rightarrow> None | Some d \<Rightarrow> d key)"

definition secret_read ::
  "'w client \<Rightarrow> lib \<Rightarrow> step_executor \<Rightarrow> string gomap \<Rightarrow> ('w, string + string gomap) prog" where
  "secret_read C L e params =
     (let secretName = mread params ''secretName'';
          key = mread params ''key'';
          ns = resolve_namespace e params;
          nn = NamespacedName ns secretName
      in do {
        r \<leftarrow> request (GetSecret nn) (cl_get_secret C nn);
        (case r of
           Inl err \<Rightarrow>
             return (Inl (''reading secret '' @ ns @ ''/'' @ secretName @ '': '' @ api_error_text err))
         | Inr secret \<Rightarrow>
             (case secret_value secret key of
                None \<Rightarrow> return (Inl (''key '' @ quote (lib_printable L) key @ '' not found in secret ''
                                 @ ns @ ''/'' @ secretName))
              | Some val \<Rightarrow> return (Inr (Some [(''value'', val)])))) })"

definition restart_workload ::
  "'w client \<Rightarrow> workload_kind \<Rightarrow> string \<Rightarrow> string \<Rightarrow> string \<Rightarrow> string
    \<Rightarrow> ('w, string + string gomap) prog" where
  \<comment> \<open>one case of the switch in \<open>rolloutRestart\<close>; the three differ in the Go type only\<close>
  "restart_workload C kind kindName ns name restartedAt =
     (let nn = NamespacedName ns name
      in do {
        r \<leftarrow> request (GetWorkload kind nn) (cl_get_workload C kind nn);
        (case r of
           Inl err \<Rightarrow>
             return (Inl (''getting '' @ kindName @ '' '' @ ns @ ''/'' @ name @ '': '' @ api_error_text err))
         | Inr wl \<Rightarrow> do {
             let annotations = (case wl_template_annotations wl of None \<Rightarrow> Map.empty | Some a \<Rightarrow> a);
             let wl2 = wl\<lparr>wl_template_annotations :=
               Some (annotations(''kubectl.kubernetes.io/restartedAt'' \<mapsto> restartedAt))\<rparr>;
             u \<leftarrow> request (UpdateWorkload kind wl2) (cl_update_workload C kind wl2);
             (case u of
                Some err2 \<Rightarrow>
                  return (Inl (''restarting '' @ kindName @ '' '' @ ns @ ''/'' @ name @ '': '' @ api_error_text err2))
              | None \<Rightarrow> return (Inr (Some [(''restarted'', ''true'')]))) }) })"

definition rollout_restart ::
  "'w client \<Rightarrow> lib \<Rightarrow> step_executor \<Rightarrow> string gomap \<Rightarrow> ('w, string + string gomap) prog" where
  "rollout_restart C L e params =
     (let kind = mread params ''kind'';
          name = mread params ''name'';
          ns = resolve_namespace e params
      in do {
        now \<leftarrow> ask (cl_now C);
        let restartedAt = lib_rfc3339 L now;
        (if kind = ''Deployment'' then restart_workload C Deployment kind ns name restartedAt
         else if kind = ''StatefulSet'' then restart_workload C StatefulSet kind ns name restartedAt
         else if kind = ''DaemonSet'' then restart_workload C DaemonSet kind ns name restartedAt
         else return (Inl (''unsupported kind for rollout-restart: '' @ quote (lib_printable L) kind))) })"

definition configmap_update ::
  "'w client \<Rightarrow> step_executor \<Rightarrow> string gomap \<Rightarrow> ('w, string + string gomap) prog" where
  "configmap_update C e params =
     (let cmName = mread params ''configMapName'';
          key = mread params ''key'';
          ns = resolve_namespace e params;
          value = param_value params;
          nn = NamespacedName ns cmName
      in do {
        r \<leftarrow> request (GetConfigMap nn) (cl_get_config_map C nn);
        (case r of
           Inl err \<Rightarrow>
             if is_not_found err then do {
               let cm = \<lparr>cm_meta = fresh_meta cmName ns None, cm_data = Some [key \<mapsto> value]\<rparr>;
               u \<leftarrow> request (CreateConfigMap cm) (cl_create_config_map C cm);
               (case u of
                  Some err2 \<Rightarrow>
                    return (Inl (''creating ConfigMap '' @ ns @ ''/'' @ cmName @ '': '' @ api_error_text err2))
                | None \<Rightarrow> return (Inr (Some [(''updated'', ''created'')]))) }
             else return (Inl (''getting ConfigMap '' @ ns @ ''/'' @ cmName @ '': '' @ api_error_text err))
         | Inr cm \<Rightarrow> do {
             let dat = (case cm_data cm of None \<Rightarrow> Map.empty | Some d \<Rightarrow> d);
             let cm2 = cm\<lparr>cm_data := Some (dat(key \<mapsto> value))\<rparr>;
             u \<leftarrow> request (UpdateConfigMap cm2) (cl_update_config_map C cm2);
             (case u of
                Some err2 \<Rightarrow>
                  return (Inl (''updating ConfigMap '' @ ns @ ''/'' @ cmName @ '': '' @ api_error_text err2))
              | None \<Rightarrow> return (Inr (Some [(''updated'', ''patched'')]))) }) })"

definition wait_step ::
  "'w client \<Rightarrow> lib \<Rightarrow> string gomap \<Rightarrow> ('w, string + string gomap) prog" where
  "wait_step C L params =
     (let durationStr = mread params ''duration''
      in if durationStr = [] then return (Inr None)
         else case parse_duration (lib_fraction L) durationStr of
           Inl err \<Rightarrow>
             return (Inl (''invalid duration '' @ quote (lib_printable L) durationStr @ '': ''
               @ duration_error_text durationStr err))
         | Inr d \<Rightarrow>
             (let timeoutStr = mread params ''timeout'';
                  clamped =
                    (if timeoutStr \<noteq> [] then
                       (case parse_duration (lib_fraction L) timeoutStr of
                          Inl err \<Rightarrow>
                            Inl (''invalid timeout '' @ quote (lib_printable L) timeoutStr @ '': ''
                              @ duration_error_text timeoutStr err)
                        | Inr timeout \<Rightarrow> Inr (if d > timeout then timeout else d))
                     else Inr d)
              in case clamped of
                   Inl err \<Rightarrow> return (Inl err)
                 | Inr d2 \<Rightarrow> do {
                     r \<leftarrow> ask (cl_wait C d2);
                     (case r of None \<Rightarrow> return (Inr None) | Some err \<Rightarrow> return (Inl err)) }))"

definition assert_step :: "lib \<Rightarrow> string gomap \<Rightarrow> ('w, string + string gomap) prog" where
  "assert_step L params =
     (let expression = mread params ''expression'';
          message0 = mread params ''message'';
          message = (if message0 = [] then ''assertion failed: '' @ expression else message0)
      in return (Inl (''assert step not yet implemented: expression='' @ quote (lib_printable L) expression
           @ '' message='' @ quote (lib_printable L) message)))"

definition execute ::
  "'w client \<Rightarrow> lib \<Rightarrow> step_executor \<Rightarrow> string \<Rightarrow> string gomap \<Rightarrow> ('w, string + string gomap) prog" where
  "execute C L e action params =
     (if action = ''secret-update'' then secret_update C e params
      else if action = ''secret-read'' then secret_read C L e params
      else if action = ''rollout-restart'' then rollout_restart C L e params
      else if action = ''configmap-update'' then configmap_update C e params
      else if action = ''wait'' then wait_step C L params
      else if action = ''assert'' then assert_step L params
      else return (Inl (''unknown API-native action: '' @ quote (lib_printable L) action)))"

lemma execute_actions:
  "execute C L e ''secret-update'' params = secret_update C e params"
  "execute C L e ''secret-read'' params = secret_read C L e params"
  "execute C L e ''rollout-restart'' params = rollout_restart C L e params"
  "execute C L e ''configmap-update'' params = configmap_update C e params"
  "execute C L e ''wait'' params = wait_step C L params"
  by (simp_all add: execute_def)

section \<open>The contract of an action\<close>

text \<open>The object a request is about, by kind, namespace and name.\<close>

fun reads_object :: "api_call \<Rightarrow> (string \<times> namespaced_name) option" where
  "reads_object (GetSecret k) = Some (''Secret'', k)"
| "reads_object (GetConfigMap k) = Some (''ConfigMap'', k)"
| "reads_object (GetWorkload Deployment k) = Some (''Deployment'', k)"
| "reads_object (GetWorkload StatefulSet k) = Some (''StatefulSet'', k)"
| "reads_object (GetWorkload DaemonSet k) = Some (''DaemonSet'', k)"
| "reads_object _ = None"

fun writes_object :: "api_call \<Rightarrow> (string \<times> namespaced_name) option" where
  "writes_object (CreateSecret x) = Some (''Secret'', meta_key (sec_meta x))"
| "writes_object (UpdateSecret x) = Some (''Secret'', meta_key (sec_meta x))"
| "writes_object (CreateConfigMap x) = Some (''ConfigMap'', meta_key (cm_meta x))"
| "writes_object (UpdateConfigMap x) = Some (''ConfigMap'', meta_key (cm_meta x))"
| "writes_object (UpdateWorkload Deployment x) = Some (''Deployment'', meta_key (wl_meta x))"
| "writes_object (UpdateWorkload StatefulSet x) = Some (''StatefulSet'', meta_key (wl_meta x))"
| "writes_object (UpdateWorkload DaemonSet x) = Some (''DaemonSet'', meta_key (wl_meta x))"
| "writes_object _ = None"

definition read_then_write :: "string \<Rightarrow> api_call list \<Rightarrow> bool" where
  \<comment> \<open>nothing, a read, or a read and a write of the same object in the namespace\<close>
  "read_then_write ns cs \<longleftrightarrow>
     (case cs of
        [] \<Rightarrow> True
      | [g] \<Rightarrow> (\<exists>k. reads_object g = Some k \<and> nn_namespace (snd k) = ns)
      | [g, u] \<Rightarrow> (\<exists>k. reads_object g = Some k \<and> writes_object u = Some k \<and> nn_namespace (snd k) = ns)
      | _ \<Rightarrow> False)"

definition answers_by_name :: "'w client \<Rightarrow> bool" where
  \<comment> \<open>an object the API returns for a name carries that name and namespace\<close>
  "answers_by_name C \<longleftrightarrow>
     (\<forall>k w x w'. cl_get_secret C k w = (Inr x, w') \<longrightarrow> meta_key (sec_meta x) = k)
   \<and> (\<forall>k w x w'. cl_get_config_map C k w = (Inr x, w') \<longrightarrow> meta_key (cm_meta x) = k)
   \<and> (\<forall>kind k w x w'. cl_get_workload C kind k w = (Inr x, w') \<longrightarrow> meta_key (wl_meta x) = k)"

definition quiet :: "('w, 'a) prog \<Rightarrow> bool" where
  \<comment> \<open>the TaskRun in memory and the metrics stay as they are\<close>
  "quiet m \<longleftrightarrow> (\<forall>s. wp m (\<lambda>_ s'. task s' = task s \<and> metrics s' = metrics s) s)"

locale step_action =
  fixes run :: "'w client \<Rightarrow> step_executor \<Rightarrow> string gomap \<Rightarrow> ('w, string + string gomap) prog"
  assumes run_quiet: "quiet (run C e params)"
    and run_calls: "answers_by_name C \<Longrightarrow>
      wp (run C e params) (\<lambda>r s'. \<exists>cs. calls s' = calls s @ cs
        \<and> read_then_write (resolve_namespace e params) cs) s"
begin

lemma touches_one_object:
  assumes "answers_by_name C" and "run_state (run C e params) s = (r, s')"
  obtains cs where "calls s' = calls s @ cs" and "read_then_write (resolve_namespace e params) cs"
    and "task s' = task s" and "metrics s' = metrics s"
  using wpD [OF run_calls [OF assms(1)] assms(2)] assms(2)
    run_quiet [of C e params, unfolded quiet_def, rule_format, THEN wpD, OF assms(2)] that
  by blast

lemma at_most_two_calls:
  assumes "answers_by_name C" and "run_state (run C e params) s = (r, s')"
  shows "length (calls s') \<le> length (calls s) + 2"
  by (rule touches_one_object [OF assms]) (auto simp: read_then_write_def split: list.splits)

end

lemma answered:
  assumes "answers_by_name C"
  shows "cl_get_secret C (NamespacedName ns n) w = (Inr x, w') \<Longrightarrow>
           om_namespace (sec_meta x) = ns \<and> om_name (sec_meta x) = n"
    and "cl_get_config_map C (NamespacedName ns n) w = (Inr y, w') \<Longrightarrow>
           om_namespace (cm_meta y) = ns \<and> om_name (cm_meta y) = n"
    and "cl_get_workload C kind (NamespacedName ns n) w = (Inr z, w') \<Longrightarrow>
           om_namespace (wl_meta z) = ns \<and> om_name (wl_meta z) = n"
  using assms unfolding answers_by_name_def by (metis namespaced_name.inject)+

lemmas action_cases = prod.splits sum.splits option.splits

interpretation secret_update_action: step_action secret_update
proof
  show "quiet (secret_update C e params)" for C :: "'w client" and e params
    by (auto simp: quiet_def secret_update_def Let_def split: action_cases)
  show "wp (secret_update C e params) (\<lambda>r s'. \<exists>cs. calls s' = calls s @ cs
      \<and> read_then_write (resolve_namespace e params) cs) s"
    if "answers_by_name C" for C :: "'w client" and e params s
    by (auto simp: secret_update_def Let_def read_then_write_def
        split: action_cases dest: answered [OF that])
qed

interpretation secret_read_action: step_action "\<lambda>C. secret_read C L" for L
proof
  show "quiet (secret_read C L e params)" for C :: "'w client" and e params
    by (auto simp: quiet_def secret_read_def Let_def split: action_cases)
  show "wp (secret_read C L e params) (\<lambda>r s'. \<exists>cs. calls s' = calls s @ cs
      \<and> read_then_write (resolve_namespace e params) cs) s"
    if "answers_by_name C" for C :: "'w client" and e params s
    by (auto simp: secret_read_def Let_def read_then_write_def
        split: action_cases dest: answered [OF that])
qed

lemma wp_restart_workload [simp]:
  "wp (restart_workload C kind kindName ns name restartedAt) Q s =
     (let nn = NamespacedName ns name in
      case cl_get_workload C kind nn (ext s) of
        (Inl err, w) \<Rightarrow> Q (Inl (''getting '' @ kindName @ '' '' @ ns @ ''/'' @ name @ '': '' @ api_error_text err))
          (s\<lparr>ext := w, calls := calls s @ [GetWorkload kind nn]\<rparr>)
      | (Inr wl, w) \<Rightarrow>
          (let a = (case wl_template_annotations wl of None \<Rightarrow> Map.empty | Some a \<Rightarrow> a);
               wl2 = wl\<lparr>wl_template_annotations := Some (a(''kubectl.kubernetes.io/restartedAt'' \<mapsto> restartedAt))\<rparr>
           in case cl_update_workload C kind wl2 w of
                (r, w2) \<Rightarrow>
                  Q (case r of Some err2 \<Rightarrow> Inl (''restarting '' @ kindName @ '' '' @ ns @ ''/'' @ name @ '': ''
                       @ api_error_text err2) | None \<Rightarrow> Inr (Some [(''restarted'', ''true'')]))
                    (s\<lparr>ext := w2, calls := calls s @ [GetWorkload kind nn, UpdateWorkload kind wl2]\<rparr>)))"
  by (auto simp: restart_workload_def Let_def split: action_cases)

interpretation rollout_restart_action: step_action "\<lambda>C. rollout_restart C L" for L
proof
  show "quiet (rollout_restart C L e params)" for C :: "'w client" and e params
    by (auto simp: quiet_def rollout_restart_def Let_def split: action_cases)
  show "wp (rollout_restart C L e params) (\<lambda>r s'. \<exists>cs. calls s' = calls s @ cs
      \<and> read_then_write (resolve_namespace e params) cs) s"
    if "answers_by_name C" for C :: "'w client" and e params s
    by (auto simp: rollout_restart_def Let_def read_then_write_def
        split: action_cases dest: answered [OF that])
qed

interpretation configmap_update_action: step_action configmap_update
proof
  show "quiet (configmap_update C e params)" for C :: "'w client" and e params
    by (auto simp: quiet_def configmap_update_def Let_def split: action_cases)
  show "wp (configmap_update C e params) (\<lambda>r s'. \<exists>cs. calls s' = calls s @ cs
      \<and> read_then_write (resolve_namespace e params) cs) s"
    if "answers_by_name C" for C :: "'w client" and e params s
    by (auto simp: configmap_update_def Let_def read_then_write_def
        split: action_cases dest: answered [OF that])
qed

interpretation wait_action: step_action "\<lambda>C e. wait_step C L" for L
proof
  show "quiet (wait_step C L params)" for C :: "'w client" and params
    by (auto simp: quiet_def wait_step_def Let_def split: action_cases)
  show "wp (wait_step C L params) (\<lambda>r s'. \<exists>cs. calls s' = calls s @ cs
      \<and> read_then_write (resolve_namespace e params) cs) s"
    if "answers_by_name C" for C :: "'w client" and e params s
    by (auto simp: wait_step_def Let_def read_then_write_def split: action_cases)
qed

interpretation execute_action: step_action "\<lambda>C e. execute C L e action" for L action
proof
  show "quiet (execute C L e action params)" for C :: "'w client" and e params
    by (simp add: execute_def assert_step_def Let_def secret_update_action.run_quiet
        secret_read_action.run_quiet rollout_restart_action.run_quiet
        configmap_update_action.run_quiet wait_action.run_quiet)
       (auto simp: quiet_def)
  show "wp (execute C L e action params) (\<lambda>r s'. \<exists>cs. calls s' = calls s @ cs
      \<and> read_then_write (resolve_namespace e params) cs) s"
    if "answers_by_name C" for C :: "'w client" and e params s
    by (simp add: execute_def assert_step_def Let_def that secret_update_action.run_calls
        secret_read_action.run_calls rollout_restart_action.run_calls
        configmap_update_action.run_calls wait_action.run_calls)
       (simp add: read_then_write_def)
qed

section \<open>An example\<close>

lemma example_answers_by_name: "answers_by_name example_client"
  by (auto simp: answers_by_name_def example_client_def found_def named_def split: option.splits if_splits)

definition example_executor :: step_executor where
  "example_executor = new_step_executor ''apps''"

definition example_params :: "string gomap" where
  "example_params = Some [(''secretName'', ''db''), (''key'', ''password''), (''value'', ''old''), (''valueFrom'', ''new'')]"

section \<open>Properties\<close>

text \<open>C32: an API-native step touches at most one object: whatever the action and whatever the API
  answers, \<open>Execute\<close> sends at most a read and then at most one write, of the object it read,
  in the namespace of the parameters or, without one, of the TaskRun; it changes neither the
  TaskRun in memory nor the metrics.\<close>

theorem execute_touches_one_object:
  assumes "answers_by_name C" and "run_state (execute C L e action params) s = (r, s')"
  shows "\<exists>cs. calls s' = calls s @ cs \<and> read_then_write (resolve_namespace e params) cs
     \<and> length cs \<le> 2 \<and> task s' = task s \<and> metrics s' = metrics s"
  using execute_action.at_most_two_calls [OF assms]
  by (rule_tac execute_action.touches_one_object [OF assms]) auto

theorem execute_touches_one_object_witness:
  "\<exists>cs. calls (snd (run_state (execute example_client example_lib example_executor ''secret-update'' example_params)
         (example_state empty_cluster (example_task_run [] [])))) = cs
     \<and> cs \<noteq> [] \<and> read_then_write ''apps'' cs"
proof -
  have ns: "resolve_namespace example_executor example_params = ''apps''"
    by (simp add: resolve_namespace_def example_executor_def new_step_executor_def example_params_def)
  have "calls (snd (run_state (secret_update example_client example_executor example_params)
         (example_state empty_cluster (example_task_run [] [])))) \<noteq> []"
    by (simp add: secret_update_def Let_def request_def example_defs)
  with execute_touches_one_object [of example_client example_lib example_executor "''secret-update''"
      example_params "example_state empty_cluster (example_task_run [] [])",
      OF example_answers_by_name surjective_pairing]
  show ?thesis by (auto simp: ns execute_actions example_state_def)
qed

definition outputs_have :: "string list \<Rightarrow> string + string gomap \<Rightarrow> 's \<Rightarrow> bool" where
  "outputs_have ks r s = (\<forall>outs. r = Inr outs \<longrightarrow> map fst (entries outs) = ks)"

lemma action_outputs:
  "wp (secret_update C e params) (outputs_have [''updated'']) s"
  "wp (secret_read C L e params) (outputs_have [''value'']) s"
  "wp (configmap_update C e params) (outputs_have [''updated'']) s"
  "wp (wait_step C L params) (outputs_have []) s"
  by (auto simp: outputs_have_def secret_update_def secret_read_def configmap_update_def
      wait_step_def Let_def split: action_cases)

lemma restart_workload_outputs:
  "wp (restart_workload C kind kindName ns name stamp) (outputs_have [''restarted'']) s"
  by (auto simp: outputs_have_def Let_def split: action_cases)

lemma rollout_restart_outputs: "wp (rollout_restart C L e params) (outputs_have [''restarted'']) s"
  by (simp add: rollout_restart_def Let_def restart_workload_outputs del: wp_restart_workload
      split: prod.split)
     (simp add: outputs_have_def)

lemma execute_no_action:
  assumes "action \<notin> {''secret-update'', ''secret-read'', ''rollout-restart'', ''configmap-update'', ''wait''}"
  shows "\<exists>msg. run_state (execute C L e action params) s = (Inl msg, s)"
  using assms by (simp add: execute_def assert_step_def Let_def)

text \<open>A step succeeds only for five of the six known actions (an assert step never does, nor
  does an unknown action), and its outputs have exactly the keys its definition documents:
  \<open>updated\<close>, \<open>value\<close>, \<open>restarted\<close>, \<open>updated\<close>, and none for a wait.\<close>

theorem execute_outputs:
  assumes "run_state (execute C L e action params) s = (Inr outs, s')"
  shows "(action, map fst (entries outs)) \<in>
     {(''secret-update'', [''updated'']), (''secret-read'', [''value'']),
      (''rollout-restart'', [''restarted'']), (''configmap-update'', [''updated'']), (''wait'', [])}"
proof -
  have keys: "wp (execute C L e a params) (outputs_have ks) s \<Longrightarrow> a = action \<Longrightarrow> map fst (entries outs) = ks"
    for a ks
    using assms by (simp add: wp_def outputs_have_def)
  have "action \<in> {''secret-update'', ''secret-read'', ''rollout-restart'', ''configmap-update'', ''wait''}"
    using execute_no_action [of action C L e params s] assms by auto
  then show ?thesis
    using keys [of "''secret-update''"] keys [of "''secret-read''"] keys [of "''rollout-restart''"]
      keys [of "''configmap-update''"] keys [of "''wait''"]
    unfolding execute_actions
    using action_outputs(1,3) [of C e params s] action_outputs(2) [of C L e params s]
      action_outputs(4) [of C L params s] rollout_restart_outputs [of C L e params s]
    by (elim insertE) simp_all
qed

theorem execute_outputs_witness:
  "\<exists>outs s'. run_state (execute example_client example_lib example_executor ''secret-update'' example_params)
         (example_state empty_cluster (example_task_run [] [])) = (Inr outs, s')
     \<and> map fst (entries outs) = [''updated'']"
proof -
  obtain outs s' where run: "run_state (execute example_client example_lib example_executor ''secret-update'' example_params)
         (example_state empty_cluster (example_task_run [] [])) = (Inr outs, s')"
    by (simp add: execute_actions secret_update_def Let_def request_def example_defs)
  from execute_outputs [OF run] run show ?thesis by auto
qed

text \<open>C34: a successful wait either had no duration, and then did not wait, or waited for the
  parsed duration, clamped from above to the parsed timeout if there is one, and the timer
  ended before the context did. It sends no request.\<close>

theorem wait_step_duration:
  assumes "run_state (wait_step C L params) s = (Inr outs, s')"
  shows "outs = None \<and> calls s' = calls s
     \<and> (mread params ''duration'' = [] \<and> ext s' = ext s
        \<or> (\<exists>d d2. parse_duration (lib_fraction L) (mread params ''duration'') = Inr d
             \<and> (if mread params ''timeout'' = [] then d2 = d
                else \<exists>t. parse_duration (lib_fraction L) (mread params ''timeout'') = Inr t \<and> d2 = min d t)
             \<and> in_duration d2 \<and> cl_wait C d2 (ext s) = (None, ext s')))"
proof -
  let ?Q = "\<lambda>r s'. \<forall>outs. r = Inr outs \<longrightarrow> outs = None \<and> calls s' = calls s
     \<and> (mread params ''duration'' = [] \<and> ext s' = ext s
        \<or> (\<exists>d d2. parse_duration (lib_fraction L) (mread params ''duration'') = Inr d
             \<and> (if mread params ''timeout'' = [] then d2 = d
                else \<exists>t. parse_duration (lib_fraction L) (mread params ''timeout'') = Inr t \<and> d2 = min d t)
             \<and> in_duration d2 \<and> cl_wait C d2 (ext s) = (None, ext s')))"
  have "wp (wait_step C L params) ?Q s"
    by (auto simp: wait_step_def Let_def parse_duration_in_duration split: action_cases)
  from wpD [OF this assms] show ?thesis by simp
qed

theorem wait_step_duration_witness:
  "fst (run_state (wait_step example_client example_lib (Some [(''duration'', ''90s''), (''timeout'', ''1m'')]))
         (example_state empty_cluster (example_task_run [] []))) = Inr None
   \<and> k_clock (ext (snd (run_state (wait_step example_client example_lib (Some [(''duration'', ''90s''), (''timeout'', ''1m'')]))
         (example_state empty_cluster (example_task_run [] []))))) = 60000000000"
proof -
  have parse: "parse_duration (lib_fraction example_lib) ''90s'' = Inr 90000000000"
    "parse_duration (lib_fraction example_lib) ''1m'' = Inr 60000000000"
    by code_simp+
  obtain s' where run: "run_state (wait_step example_client example_lib (Some [(''duration'', ''90s''), (''timeout'', ''1m'')]))
         (example_state empty_cluster (example_task_run [] [])) = (Inr None, s')"
    by (simp add: wait_step_def parse ask_def example_defs)
  have timer: "cl_wait example_client d w = (None, v) \<longleftrightarrow> v = w\<lparr>k_clock := k_clock w + max 0 d\<rparr>" for d w v
    by (auto simp: example_client_def)
  have "k_clock (ext (example_state empty_cluster (example_task_run [] []))) = 0"
    by (simp add: example_state_def empty_cluster_def)
  with wait_step_duration [OF run] run show ?thesis
    by (auto simp: parse timer)
qed

definition template_annotation :: "workload \<Rightarrow> string \<Rightarrow> string option" where
  "template_annotation wl k = (case wl_template_annotations wl of None \<Rightarrow> None | Some a \<Rightarrow> a k)"

definition annotated :: "workload \<Rightarrow> workload \<Rightarrow> string \<Rightarrow> bool" where
  "annotated wl wl2 stamp \<longleftrightarrow>
     wl_meta wl2 = wl_meta wl \<and> wl_rest wl2 = wl_rest wl
     \<and> template_annotation wl2 =
         (template_annotation wl)(''kubectl.kubernetes.io/restartedAt'' \<mapsto> stamp)"

lemma restart_workload_annotates:
  "wp (restart_workload C kind kindName ns name stamp) (\<lambda>r s'. \<exists>cs. calls s' = calls s @ cs
     \<and> (\<forall>kind2 wl2. UpdateWorkload kind2 wl2 \<in> set cs \<longrightarrow>
          (\<exists>wl w2. cl_get_workload C kind2 (NamespacedName ns name) (ext s) = (Inr wl, w2)
             \<and> annotated wl wl2 stamp))) s"
  by (auto simp: Let_def annotated_def template_annotation_def fun_eq_iff split: action_cases)

text \<open>C33: a rollout restart changes one thing: the workload it updates is the one it read, with
  the annotation \<open>kubectl.kubernetes.io/restartedAt\<close> of the pod template set to the current
  time and every other annotation, the metadata and the rest of the object unchanged. For a
  kind that is no Deployment, StatefulSet or DaemonSet it fails and sends nothing.\<close>

theorem rollout_restart_only_annotates:
  assumes "run_state (rollout_restart C L e params) s = (r, s')"
  shows "\<exists>now w cs. cl_now C (ext s) = (now, w) \<and> calls s' = calls s @ cs
     \<and> (mread params ''kind'' \<notin> {''Deployment'', ''StatefulSet'', ''DaemonSet''} \<longrightarrow>
          cs = [] \<and> (\<exists>msg. r = Inl msg))
     \<and> (\<forall>kind wl2. UpdateWorkload kind wl2 \<in> set cs \<longrightarrow>
          (\<exists>wl w2. cl_get_workload C kind
               (NamespacedName (resolve_namespace e params) (mread params ''name'')) w = (Inr wl, w2)
           \<and> annotated wl wl2 (lib_rfc3339 L now)))"
proof -
  obtain now w where now: "cl_now C (ext s) = (now, w)" by (cases "cl_now C (ext s)")
  let ?Q = "\<lambda>r s'. \<exists>cs. calls s' = calls s @ cs
     \<and> (mread params ''kind'' \<notin> {''Deployment'', ''StatefulSet'', ''DaemonSet''} \<longrightarrow>
          cs = [] \<and> (\<exists>msg. r = Inl msg))
     \<and> (\<forall>kind wl2. UpdateWorkload kind wl2 \<in> set cs \<longrightarrow>
          (\<exists>wl w2. cl_get_workload C kind
               (NamespacedName (resolve_namespace e params) (mread params ''name'')) w = (Inr wl, w2)
           \<and> annotated wl wl2 (lib_rfc3339 L now)))"
  have known: "wp (restart_workload C kind (mread params ''kind'') (resolve_namespace e params)
      (mread params ''name'') (lib_rfc3339 L now)) ?Q (s\<lparr>ext := w\<rparr>)"
    if "mread params ''kind'' \<in> {''Deployment'', ''StatefulSet'', ''DaemonSet''}" for kind
    using restart_workload_annotates [of C kind "mread params ''kind''" "resolve_namespace e params"
        "mread params ''name''" "lib_rfc3339 L now" "s\<lparr>ext := w\<rparr>"] that
    by (elim wp_mono) simp
  have "wp (rollout_restart C L e params) ?Q s"
  proof -
    consider "mread params ''kind'' = ''Deployment''" | "mread params ''kind'' = ''StatefulSet''"
      | "mread params ''kind'' = ''DaemonSet''"
      | "mread params ''kind'' \<notin> {''Deployment'', ''StatefulSet'', ''DaemonSet''}" by blast
    then show ?thesis
    proof cases
      case 1
      then show ?thesis
        using known [of Deployment] by (simp add: rollout_restart_def now Let_def del: wp_restart_workload)
    next
      case 2
      then show ?thesis
        using known [of StatefulSet] by (simp add: rollout_restart_def now Let_def del: wp_restart_workload)
    next
      case 3
      then show ?thesis
        using known [of DaemonSet] by (simp add: rollout_restart_def now Let_def del: wp_restart_workload)
    next
      case 4
      then show ?thesis by (simp add: rollout_restart_def now Let_def del: wp_restart_workload)
    qed
  qed
  from wpD [OF this assms] now show ?thesis by blast
qed

theorem rollout_restart_only_annotates_witness:
  "calls (snd (run_state (rollout_restart example_client example_lib example_executor (Some [(''kind'', ''Job'')]))
         (example_state empty_cluster (example_task_run [] [])))) = []"
  using rollout_restart_only_annotates
      [of example_client example_lib example_executor "Some [(''kind'', ''Job'')]"
        "example_state empty_cluster (example_task_run [] [])", OF surjective_pairing]
  by (auto simp: example_state_def)

definition stores_secrets :: "'w client \<Rightarrow> bool" where
  \<comment> \<open>the API server with no other writer and no stale cache: a Secret that was created or
     updated is what the next read of its name returns, and a read changes nothing\<close>
  "stores_secrets C \<longleftrightarrow>
     (\<forall>x w w1. cl_create_secret C x w = (None, w1) \<or> cl_update_secret C x w = (None, w1) \<longrightarrow>
        (\<exists>y w2. cl_get_secret C (meta_key (sec_meta x)) w1 = (Inr y, w2) \<and> sec_data y = sec_data x))"

definition written_secret :: "step_executor \<Rightarrow> string gomap \<Rightarrow> (api_error + secret) \<Rightarrow> secret" where
  \<comment> \<open>the Secret a secret-update step writes, given the answer to its read\<close>
  "written_secret e params r =
     (case r of
        Inl _ \<Rightarrow> \<lparr>sec_meta = fresh_meta (mread params ''secretName'') (resolve_namespace e params) None,
                  sec_data = Some [mread params ''key'' \<mapsto> param_value params]\<rparr>
      | Inr y \<Rightarrow> y\<lparr>sec_data := Some ((case sec_data y of None \<Rightarrow> Map.empty | Some d \<Rightarrow> d)
                    (mread params ''key'' \<mapsto> param_value params))\<rparr>)"

lemma secret_update_writes:
  "wp (secret_update C e params) (\<lambda>r s1. \<forall>outs. r = Inr outs \<longrightarrow>
     (let x = written_secret e params (fst (cl_get_secret C
                (NamespacedName (resolve_namespace e params) (mread params ''secretName'')) (ext s)))
      in \<exists>w. cl_create_secret C x w = (None, ext s1) \<or> cl_update_secret C x w = (None, ext s1))) s"
  by (auto simp: secret_update_def written_secret_def Let_def split: action_cases)

lemma written_secret_value:
  "secret_value (written_secret e params r) =
     (case r of Inr y \<Rightarrow> secret_value y | Inl _ \<Rightarrow> Map.empty)(mread params ''key'' \<mapsto> param_value params)"
  by (auto simp: written_secret_def secret_value_def fun_eq_iff split: sum.split option.split)

lemma written_secret_key:
  assumes "answers_by_name C"
  shows "meta_key (sec_meta (written_secret e params (fst (cl_get_secret C
            (NamespacedName (resolve_namespace e params) (mread params ''secretName'')) w)))) =
         NamespacedName (resolve_namespace e params) (mread params ''secretName'')"
  by (cases "cl_get_secret C (NamespacedName (resolve_namespace e params) (mread params ''secretName'')) w")
     (auto simp: written_secret_def dest: answered(1) [OF assms] split: sum.split)

lemma secret_read_result:
  "fst (run_state (secret_read C L e q) s) = Inr v \<longleftrightarrow>
     (\<exists>x val. fst (cl_get_secret C (NamespacedName (resolve_namespace e q) (mread q ''secretName'')) (ext s)) = Inr x
        \<and> secret_value x (mread q ''key'') = Some val \<and> v = Some [(''value'', val)])"
proof -
  have "wp (secret_read C L e q) (\<lambda>r _. r = Inr v \<longleftrightarrow>
     (\<exists>x val. fst (cl_get_secret C (NamespacedName (resolve_namespace e q) (mread q ''secretName'')) (ext s)) = Inr x
        \<and> secret_value x (mread q ''key'') = Some val \<and> v = Some [(''value'', val)])) s"
    by (auto simp: secret_read_def Let_def split: action_cases)
  then show ?thesis by (simp add: wp_def split: prod.splits)
qed

text \<open>C29: what a secret-update step writes a later secret-read step gets. Under an API whose reads
  return the last write, a secret-update that succeeded makes the secret's key read as
  \<open>valueFrom\<close> (or \<open>value\<close> where that is empty or missing), and every other key of that secret
  that could be read before still reads the same.\<close>

theorem secret_update_then_read:
  assumes "stores_secrets C" and "answers_by_name C"
    and update: "run_state (secret_update C e params) s = (Inr outs, s1)"
    and same: "mread q ''secretName'' = mread params ''secretName''"
      "resolve_namespace e q = resolve_namespace e params"
  shows "(mread q ''key'' = mread params ''key'' \<longrightarrow>
            fst (run_state (secret_read C L e q) s1) = Inr (Some [(''value'', param_value params)]))
       \<and> (mread q ''key'' \<noteq> mread params ''key'' \<longrightarrow>
            (\<forall>v. fst (run_state (secret_read C L e q) s) = Inr v \<longrightarrow>
               fst (run_state (secret_read C L e q) s1) = Inr v))"
proof -
  let ?nn = "NamespacedName (resolve_namespace e params) (mread params ''secretName'')"
  define x where "x = written_secret e params (fst (cl_get_secret C ?nn (ext s)))"
  from wpD [OF secret_update_writes update] obtain w where
    "cl_create_secret C x w = (None, ext s1) \<or> cl_update_secret C x w = (None, ext s1)"
    by (auto simp: x_def Let_def)
  moreover have "meta_key (sec_meta x) = ?nn" by (simp add: x_def written_secret_key [OF assms(2)])
  ultimately obtain y w2 where "cl_get_secret C ?nn (ext s1) = (Inr y, w2)" "sec_data y = sec_data x"
    using assms(1) unfolding stores_secrets_def by metis
  then have y: "fst (cl_get_secret C ?nn (ext s1)) = Inr y" "secret_value y = secret_value x"
    by (simp_all add: secret_value_def fun_eq_iff)
  show ?thesis by (auto simp: secret_read_result same y x_def written_secret_value)
qed

theorem secret_update_then_read_witness:
  "fst (run_state (secret_read example_client example_lib example_executor example_params)
      (snd (run_state (secret_update example_client example_executor example_params)
         (example_state empty_cluster (example_task_run [] []))))) = Inr (Some [(''value'', ''new'')])"
proof -
  have store: "stores_secrets example_client"
    by (auto simp: stores_secrets_def example_client_def create_in_def update_in_def found_def named_def
        split: option.splits)
  obtain outs s1 where run: "run_state (secret_update example_client example_executor example_params)
         (example_state empty_cluster (example_task_run [] [])) = (Inr outs, s1)"
    by (simp add: secret_update_def Let_def request_def example_defs)
  have "param_value example_params = ''new''" by (simp add: param_value_def example_params_def)
  with secret_update_then_read [OF store example_answers_by_name run refl refl] run
  show ?thesis by simp
qed

end
