(* ===== verification/Controller.thy ===== *)
theory Controller
  imports Template Resolver Status JobBuilder Executor
begin

text \<open>
  The reconciler (\<open>internal/controller/taskrun_controller.go\<close>). \<open>reconcile\<close> is one call of
  \<open>Reconcile\<close> for one request: it reads the TaskRun, resolves, validates and partitions its
  steps, and hands over to the handler for Jobs, for CronJobs or for API-native steps. Each
  method of the reconciler is one definition, with every request, status write and early
  return in the order of the code. The logger is left out.
\<close>

section \<open>Results\<close>

datatype reconcile_result =
    Panicked
  | Returned (requeue_after: duration) (result_error: "string option")

text \<open>\<open>Returned d None\<close> is \<open>ctrl.Result{RequeueAfter: d}, nil\<close>. \<open>Panicked\<close> is a nil pointer
  dereferenced.\<close>

record reconciler =
  rec_clientset_set :: bool \<comment> \<open>whether the field \<open>Clientset\<close> is not nil\<close>

definition error_text :: "api_error option \<Rightarrow> string option" where
  "error_text e = map_option api_error_text e"

definition after_mark :: "('w, api_error option) prog \<Rightarrow> ('w, reconcile_result) prog" where
  \<comment> \<open>\<open>return ctrl.Result{}, err\<close> with the error of a status write\<close>
  "after_mark m = do { e \<leftarrow> m; return (Returned 0 (error_text e)) }"

section \<open>Outputs, logs and parameters of runner steps\<close>

definition truncate_lines :: "string \<Rightarrow> nat \<Rightarrow> string" where
  "truncate_lines s maxLines =
     (let ls = split_on (char_of (10 :: nat)) s;
          ls2 = (if length ls > maxLines then drop (length ls - maxLines) ls else ls)
      in join [char_of (10 :: nat)] ls2)"

definition job_duration :: "job \<Rightarrow> duration" where
  "job_duration j =
     (case (jst_start_time (job_status j), jst_completion_time (job_status j)) of
        (Some start, Some completion) \<Rightarrow> time_sub completion start
      | _ \<Rightarrow> 0)"

definition task_run_labels :: "task_run \<Rightarrow> (string \<times> string) list" where
  "task_run_labels tr = [(''taskrun.io/taskrun'', tr_name tr)]"

fun find_outputs_line :: "string list \<Rightarrow> (string gomap) gomap" where
  \<comment> \<open>the loop of \<open>collectRunnerOutputs\<close> over the lines of the log\<close>
  "find_outputs_line [] = None"
| "find_outputs_line (l # ls) =
     (if \<not> has_prefix l outputs_log_prefix then find_outputs_line ls
      else case json_unmarshal_nested (trim_prefix l outputs_log_prefix) of
             None \<Rightarrow> None
           | Some allOutputs \<Rightarrow> allOutputs)"

definition collect_runner_outputs ::
  "'w client \<Rightarrow> reconciler \<Rightarrow> ('w, (string gomap) gomap) prog" where
  "collect_runner_outputs C R =
     (if \<not> rec_clientset_set R then return None
      else do {
        tr \<leftarrow> get_task;
        pods \<leftarrow> request (ListPods (tr_namespace tr) (task_run_labels tr))
                  (cl_list_pods C (tr_namespace tr) (task_run_labels tr));
        (case pods of
           Inl err \<Rightarrow> return None
         | Inr [] \<Rightarrow> return None
         | Inr (pod # _) \<Rightarrow> do {
             logs \<leftarrow> request (PodLogs (tr_namespace tr) pod ''collect-outputs'' None)
                       (cl_pod_logs C (tr_namespace tr) pod ''collect-outputs'' None);
             (case logs of
                StreamError err \<Rightarrow> return None
              | ReadError err \<Rightarrow> return None
              | LogBytes logBytes \<Rightarrow>
                  return (find_outputs_line (split_on (char_of (10 :: nat)) logBytes))) }) })"

fun put_logs :: "step_status list \<Rightarrow> string \<Rightarrow> string \<Rightarrow> step_status list" where
  \<comment> \<open>the logs of the first status of that name\<close>
  "put_logs [] n logs = []"
| "put_logs (s # ss) n logs =
     (if st_name s = n then s\<lparr>st_logs := logs\<rparr> # ss else s # put_logs ss n logs)"

fun collect_logs_loop ::
  "'w client \<Rightarrow> string \<Rightarrow> string \<Rightarrow> int \<Rightarrow> resolved_step list \<Rightarrow> ('w, unit) prog" where
  "collect_logs_loop C ns pod i [] = return ()"
| "collect_logs_loop C ns pod i (rs # steps) = do {
     let containerName = ''step-'' @ dec i @ ''-'' @ rs_name rs;
     logs \<leftarrow> request (PodLogs ns pod containerName (Some (int max_log_lines)))
               (cl_pod_logs C ns pod containerName (Some (int max_log_lines)));
     (case logs of
        StreamError err \<Rightarrow> collect_logs_loop C ns pod (i + 1) steps
      | ReadError err \<Rightarrow> collect_logs_loop C ns pod (i + 1) steps
      | LogBytes logBytes \<Rightarrow> do {
          modify_status (\<lambda>st. st\<lparr>ts_steps :=
            put_logs (ts_steps st) (rs_name rs) (truncate_lines logBytes max_log_lines)\<rparr>);
          collect_logs_loop C ns pod (i + 1) steps }) }"

definition collect_runner_logs ::
  "'w client \<Rightarrow> reconciler \<Rightarrow> resolved_step list \<Rightarrow> ('w, unit) prog" where
  "collect_runner_logs C R runnerSteps =
     (if \<not> rec_clientset_set R then return ()
      else do {
        tr \<leftarrow> get_task;
        pods \<leftarrow> request (ListPods (tr_namespace tr) (task_run_labels tr))
                  (cl_list_pods C (tr_namespace tr) (task_run_labels tr));
        (case pods of
           Inl err \<Rightarrow> return ()
         | Inr [] \<Rightarrow> return ()
         | Inr (pod # _) \<Rightarrow> collect_logs_loop C (tr_namespace tr) pod 0 runnerSteps) })"

definition params_data :: "resolved_step list \<Rightarrow> string \<rightharpoonup> string" where
  \<comment> \<open>the map \<open>data\<close> of \<open>ensureParamsConfigMap\<close>; \<open>json.Marshal\<close> of a map of strings cannot fail\<close>
  "params_data runnerSteps =
     fold (\<lambda>rs d. d(rs_name rs @ ''.json'' \<mapsto> json_marshal_map (ss_params (rs_step rs)))) runnerSteps Map.empty"

definition ensure_params_config_map ::
  "'w client \<Rightarrow> lib \<Rightarrow> resolved_step list \<Rightarrow> ('w, string option) prog" where
  "ensure_params_config_map C L runnerSteps = do {
     taskRun \<leftarrow> get_task;
     let dat = params_data runnerSteps;
     let meta = fresh_meta (tr_name taskRun @ ''-params'') (tr_namespace taskRun) None;
     (case lib_set_controller_reference L taskRun meta of
        Inl err \<Rightarrow> return (Some (''setting owner reference on params ConfigMap: '' @ err))
      | Inr meta2 \<Rightarrow> do {
          let cm = \<lparr>cm_meta = meta2, cm_data = Some dat\<rparr>;
          let key = NamespacedName (om_namespace meta2) (om_name meta2);
          r \<leftarrow> request (GetConfigMap key) (cl_get_config_map C key);
          (case r of
             Inl err \<Rightarrow>
               if is_not_found err then do {
                 e \<leftarrow> request (CreateConfigMap cm) (cl_create_config_map C cm);
                 return (error_text e) }
               else return (Some (api_error_text err))
           | Inr existing \<Rightarrow> do {
               let existing2 = existing\<lparr>cm_data := Some dat\<rparr>;
               e \<leftarrow> request (UpdateConfigMap existing2) (cl_update_config_map C existing2);
               return (error_text e) }) }) }"

section \<open>API-native steps\<close>

definition running_status :: "string \<Rightarrow> step_status" where
  "running_status n =
     \<lparr>st_name = n, st_phase = StepPhaseRunning, st_duration = [], st_outputs = None, st_logs = []\<rparr>"

definition execute_one_step ::
  "'w client \<Rightarrow> lib \<Rightarrow> step_executor \<Rightarrow> resolved_step \<Rightarrow> ('w, string option) prog" where
  "execute_one_step C L executor rs = do {
     taskRun \<leftarrow> get_task;
     (case resolve_templates (lib_printable L) (ss_params (rs_step rs)) (ts_steps (tr_status taskRun)) of
        Inl err \<Rightarrow> do {
          mark_step_failed (rs_name rs) 0 err (rs_action rs);
          return (Some (''step '' @ quote (lib_printable L) (rs_name rs) @ '' template resolution: '' @ err)) }
      | Inr resolvedParams \<Rightarrow> do {
          set_step_status (running_status (rs_name rs));
          start \<leftarrow> ask (cl_now C);
          r \<leftarrow> execute C L executor (rs_action rs) resolvedParams;
          end_time \<leftarrow> ask (cl_now C);
          let duration = time_sub end_time start;
          (case r of
             Inl err \<Rightarrow> do {
               mark_step_failed (rs_name rs) duration err (rs_action rs);
               return (Some (''step '' @ quote (lib_printable L) (rs_name rs) @ '' ('' @ rs_action rs
                 @ '') failed: '' @ err)) }
           | Inr outputs \<Rightarrow> do {
               mark_step_succeeded (rs_name rs) duration outputs (rs_action rs);
               return None }) }) }"

fun native_loop ::
  "'w client \<Rightarrow> lib \<Rightarrow> step_executor \<Rightarrow> resolved_step list \<Rightarrow> ('w, reconcile_result) prog" where
  \<comment> \<open>the loop of \<open>executeAPINativeSteps\<close>, which skips runner steps, and what follows it\<close>
  "native_loop C L executor [] = after_mark (mark_succeeded C L)"
| "native_loop C L executor (rs # steps) =
     (if is_runner rs then native_loop C L executor steps
      else do {
        e \<leftarrow> execute_one_step C L executor rs;
        (case e of
           Some err \<Rightarrow> after_mark (mark_failed C L ''StepFailed'' err)
         | None \<Rightarrow> native_loop C L executor steps) })"

definition execute_api_native_steps ::
  "'w client \<Rightarrow> lib \<Rightarrow> resolved_step list \<Rightarrow> ('w, reconcile_result) prog" where
  "execute_api_native_steps C L resolved = do {
     taskRun \<leftarrow> get_task;
     native_loop C L (new_step_executor (tr_namespace taskRun)) resolved }"

fun partitioned_loop ::
  "'w client \<Rightarrow> lib \<Rightarrow> step_executor \<Rightarrow> resolved_step list \<Rightarrow> ('w, reconcile_result) prog" where
  \<comment> \<open>the loop of \<open>executeAPINativeStepsFromPartitioned\<close>\<close>
  "partitioned_loop C L executor [] = after_mark (mark_succeeded C L)"
| "partitioned_loop C L executor (rs # steps) = do {
     e \<leftarrow> execute_one_step C L executor rs;
     (case e of
        Some err \<Rightarrow> after_mark (mark_failed C L ''StepFailed'' err)
      | None \<Rightarrow> partitioned_loop C L executor steps) }"

definition execute_api_native_steps_from_partitioned ::
  "'w client \<Rightarrow> lib \<Rightarrow> partitioned_steps \<Rightarrow> ('w, reconcile_result) prog" where
  "execute_api_native_steps_from_partitioned C L partitioned =
     (if length (ps_api_native partitioned) = 0 then after_mark (mark_succeeded C L)
      else do {
        taskRun \<leftarrow> get_task;
        partitioned_loop C L (new_step_executor (tr_namespace taskRun)) (ps_api_native partitioned) })"

section \<open>Jobs and cron jobs\<close>

definition runner_key :: "task_run \<Rightarrow> namespaced_name" where
  "runner_key taskRun = NamespacedName (tr_namespace taskRun) (tr_name taskRun @ ''-runner'')"

definition requeue_interval :: duration where
  "requeue_interval = 5 * second"

fun mark_running_loop :: "resolved_step list \<Rightarrow> ('w, unit) prog" where
  "mark_running_loop [] = return ()"
| "mark_running_loop (rs # steps) = do {
     set_step_status (running_status (rs_name rs));
     mark_running_loop steps }"

fun mark_runner_succeeded_loop ::
  "duration \<Rightarrow> (string gomap) gomap \<Rightarrow> resolved_step list \<Rightarrow> ('w, unit) prog" where
  "mark_runner_succeeded_loop d stepOutputs [] = return ()"
| "mark_runner_succeeded_loop d stepOutputs (rs # steps) = do {
     let outputs = (case mget stepOutputs (rs_name rs) of None \<Rightarrow> None | Some m \<Rightarrow> m);
     mark_step_succeeded (rs_name rs) d outputs (rs_action rs);
     mark_runner_succeeded_loop d stepOutputs steps }"

fun mark_runner_failed_loop :: "duration \<Rightarrow> resolved_step list \<Rightarrow> ('w, unit) prog" where
  "mark_runner_failed_loop d [] = return ()"
| "mark_runner_failed_loop d (rs # steps) = do {
     mark_step_failed (rs_name rs) d ''runner job failed'' (rs_action rs);
     mark_runner_failed_loop d steps }"

definition submit_job ::
  "'w client \<Rightarrow> lib \<Rightarrow> resolved_step list \<Rightarrow> ('w, reconcile_result) prog" where
  \<comment> \<open>\<open>reconcileJob\<close> once the parameters are written: build the Job, create it, record the steps
     as running\<close>
  "submit_job C L runnerSteps = do {
     taskRun \<leftarrow> get_task;
     (case build L taskRun runnerSteps of
        None \<Rightarrow> return Panicked
      | Some (Inl err) \<Rightarrow> after_mark (mark_failed C L ''JobBuildFailed'' err)
      | Some (Inr None) \<Rightarrow> return Panicked
      | Some (Inr (Some j)) \<Rightarrow> do {
          c \<leftarrow> request (CreateJob j) (cl_create_job C j);
          (case c of
             Some err \<Rightarrow> return (Returned 0 (Some (''creating Job: '' @ api_error_text err)))
           | None \<Rightarrow> do {
               mark_running_loop runnerSteps;
               u \<leftarrow> update_status C;
               (case u of
                  Some err \<Rightarrow> return (Returned 0 (Some (''updating step statuses: '' @ api_error_text err)))
                | None \<Rightarrow> return (Returned requeue_interval None)) }) }) }"

definition create_runner_job ::
  "'w client \<Rightarrow> lib \<Rightarrow> partitioned_steps \<Rightarrow> ('w, reconcile_result) prog" where
  \<comment> \<open>\<open>reconcileJob\<close> when there is no Job yet\<close>
  "create_runner_job C L partitioned = do {
     e \<leftarrow> ensure_params_config_map C L (ps_runner partitioned);
     (case e of
        Some err \<Rightarrow> after_mark (mark_failed C L ''ParamsConfigMapFailed'' err)
      | None \<Rightarrow> submit_job C L (ps_runner partitioned)) }"

definition reconcile_job ::
  "'w client \<Rightarrow> lib \<Rightarrow> reconciler \<Rightarrow> partitioned_steps \<Rightarrow> ('w, reconcile_result) prog" where
  "reconcile_job C L R partitioned = do {
     taskRun \<leftarrow> get_task;
     r \<leftarrow> request (GetJob (runner_key taskRun)) (cl_get_job C (runner_key taskRun));
     (case r of
        Inl err \<Rightarrow>
          if is_not_found err then create_runner_job C L partitioned
          else return (Returned 0 (Some (''getting Job: '' @ api_error_text err)))
      | Inr existingJob \<Rightarrow>
          if 0 <s jst_succeeded (job_status existingJob) then do {
            collect_runner_logs C R (ps_runner partitioned);
            stepOutputs \<leftarrow> collect_runner_outputs C R;
            mark_runner_succeeded_loop (job_duration existingJob) stepOutputs (ps_runner partitioned);
            execute_api_native_steps_from_partitioned C L partitioned }
          else if 0 <s jst_failed (job_status existingJob) then do {
            collect_runner_logs C R (ps_runner partitioned);
            mark_runner_failed_loop (job_duration existingJob) (ps_runner partitioned);
            after_mark (mark_failed C L ''RunnerFailed'' ''runner Job failed'') }
          else return (Returned requeue_interval None)) }"

definition reconcile_cron_job ::
  "'w client \<Rightarrow> lib \<Rightarrow> partitioned_steps \<Rightarrow> ('w, reconcile_result) prog" where
  "reconcile_cron_job C L partitioned = do {
     taskRun \<leftarrow> get_task;
     r \<leftarrow> request (GetCronJob (runner_key taskRun)) (cl_get_cron_job C (runner_key taskRun));
     (case r of
        Inl err \<Rightarrow>
          if is_not_found err then
            (case build_cron_job L taskRun (ps_runner partitioned) of
               None \<Rightarrow> return Panicked
             | Some (Inl err2) \<Rightarrow> after_mark (mark_failed C L ''CronJobBuildFailed'' err2)
             | Some (Inr cronJob) \<Rightarrow> do {
                 c \<leftarrow> request (CreateCronJob cronJob) (cl_create_cron_job C cronJob);
                 (case c of
                    Some err2 \<Rightarrow> return (Returned 0 (Some (''creating CronJob: '' @ api_error_text err2)))
                  | None \<Rightarrow> return (Returned 0 None)) })
          else return (Returned 0 (Some (''getting CronJob: '' @ api_error_text err)))
      | Inr existingCronJob \<Rightarrow> return (Returned 0 None)) }"

section \<open>Reconcile\<close>

definition dispatch_steps ::
  "'w client \<Rightarrow> lib \<Rightarrow> reconciler \<Rightarrow> resolved_step list \<Rightarrow> ('w, reconcile_result) prog" where
  \<comment> \<open>\<open>Reconcile\<close> from the partition to the end, once the phase is Running\<close>
  "dispatch_steps C L R resolved = do {
     taskRun \<leftarrow> get_task;
     let partitioned = partition_steps resolved;
     (if length (ps_runner partitioned) > 0 then
        (if trs_schedule (tr_spec taskRun) \<noteq> [] then reconcile_cron_job C L partitioned
         else reconcile_job C L R partitioned)
      else execute_api_native_steps C L resolved) }"

definition reconcile_validated ::
  "'w client \<Rightarrow> lib \<Rightarrow> reconciler \<Rightarrow> resolved_step list \<Rightarrow> ('w, reconcile_result) prog" where
  \<comment> \<open>\<open>Reconcile\<close> once the steps are resolved\<close>
  "reconcile_validated C L R resolved =
     (case validate_step_params L resolved of
        Some err \<Rightarrow> after_mark (mark_failed C L ''ValidationFailed'' err)
      | None \<Rightarrow>
     (case validate_step_ordering L resolved of
        Some err \<Rightarrow> after_mark (mark_failed C L ''InvalidStepOrdering'' err)
      | None \<Rightarrow> do {
          taskRun \<leftarrow> get_task;
          (if ts_phase (tr_status taskRun) = TaskRunPhaseUnset
              \<or> ts_phase (tr_status taskRun) = TaskRunPhasePending then do {
             init_step_statuses resolved;
             e \<leftarrow> set_phase C TaskRunPhaseRunning;
             (case e of
                Some err \<Rightarrow> return (Returned 0 (Some (''setting Running phase: '' @ api_error_text err)))
              | None \<Rightarrow> dispatch_steps C L R resolved) }
           else dispatch_steps C L R resolved) }))"

definition reconcile ::
  "'w client \<Rightarrow> lib \<Rightarrow> reconciler \<Rightarrow> namespaced_name \<Rightarrow> ('w, reconcile_result) prog" where
  "reconcile C L R req = do {
     r \<leftarrow> request (GetTaskRun req) (cl_get_task_run C req);
     (case r of
        Inl err \<Rightarrow> return (Returned 0 (if is_not_found err then None else Some (api_error_text err)))
      | Inr taskRun \<Rightarrow> do {
          put_task taskRun;
          (if ts_phase (tr_status taskRun) = TaskRunPhaseSucceeded
              \<or> ts_phase (tr_status taskRun) = TaskRunPhaseFailed then return (Returned 0 None)
           else do {
             x \<leftarrow> resolve_all C L (new_step_resolver (tr_namespace taskRun)) (trs_steps (tr_spec taskRun));
             (case x of
                Inl err \<Rightarrow> after_mark (mark_failed C L ''ResolutionFailed'' err)
              | Inr resolved \<Rightarrow> reconcile_validated C L R resolved) }) }) }"

lemma wp_after_mark [simp]: "wp (after_mark m) Q s = wp m (\<lambda>e. Q (Returned 0 (error_text e))) s"
  by (simp add: after_mark_def wp_def split: prod.split)

lemma sends_after_mark [sends_rules]: "sends P m \<Longrightarrow> sends P (after_mark m)"
  unfolding after_mark_def by (intro sends_bind sends_return)

end
