(* ===== verification/StepRun.thy ===== *)
theory StepRun
  imports Controller
begin

text \<open>
  How API-native steps run (\<open>executeAPINativeSteps\<close>, \<open>executeAPINativeStepsFromPartitioned\<close>
  and \<open>executeOneStep\<close>). The abstract specification is the evaluation relation \<open>native_run\<close>:
  the steps run in order, each action in the world the one before it left and with its
  parameters resolved against the step statuses so far; its outputs or its error are recorded
  under the step's name, and the first error ends the run. Both loops implement it. Forgetting
  the actions gives \<open>fail_fast\<close>, a relation on the step statuses alone, and rule induction on
  it gives what the status of the TaskRun says at the end.
\<close>

section \<open>Requests of an action\<close>

fun is_action_call :: "api_call \<Rightarrow> bool" where
  "is_action_call (GetSecret _) = True"
| "is_action_call (CreateSecret _) = True"
| "is_action_call (UpdateSecret _) = True"
| "is_action_call (GetConfigMap _) = True"
| "is_action_call (CreateConfigMap _) = True"
| "is_action_call (UpdateConfigMap _) = True"
| "is_action_call (GetWorkload _ _) = True"
| "is_action_call (UpdateWorkload _ _) = True"
| "is_action_call _ = False"

lemma sends_execute [sends_rules]: "sends is_action_call (execute C L e action params)"
proof -
  have "sends is_action_call (secret_update C e params)"
    unfolding secret_update_def Let_def
    by (intro sends_bind sends_case_sum sends_case_option sends_if sends_request sends_return) simp_all
  moreover have "sends is_action_call (secret_read C L e params)"
    unfolding secret_read_def Let_def
    by (intro sends_bind sends_case_sum sends_case_option sends_if sends_request sends_return) simp_all
  moreover have "sends is_action_call (configmap_update C e params)"
    unfolding configmap_update_def Let_def
    by (intro sends_bind sends_case_sum sends_case_option sends_if sends_request sends_return) simp_all
  moreover have restart: "sends is_action_call (restart_workload C kind kn ns n stamp)" for kind kn ns n stamp
    unfolding restart_workload_def Let_def
    by (intro sends_bind sends_case_sum sends_case_option sends_if sends_request sends_return) simp_all
  moreover have "sends is_action_call (rollout_restart C L e params)"
    unfolding rollout_restart_def Let_def
    by (intro sends_bind sends_no_request sends_if sends_return restart)
  moreover have "sends is_action_call (wait_step C L params)"
    unfolding wait_step_def Let_def
    by (intro sends_bind sends_no_request sends_case_sum sends_case_option sends_if sends_return)
  ultimately show ?thesis
    by (simp add: execute_def assert_step_def Let_def)
qed

lemma wp_execute:
  "wp (execute C L e action params)
     (\<lambda>r s'. task s' = task s \<and> metrics s' = metrics s
        \<and> (\<exists>cs. calls s' = calls s @ cs \<and> list_all is_action_call cs)) s"
  using sends_wp [OF sends_execute] execute_action.run_quiet [of C L e action params, unfolded quiet_def]
  by (simp add: wp_conj)

section \<open>Computations on the world\<close>

text \<open>
  \<open>performed m w r cs w'\<close>: in the world \<open>w\<close> the computation \<open>m\<close> returns \<open>r\<close>, sends the requests
  \<open>cs\<close> and leaves the world \<open>w'\<close>, whatever the state of the controller, which it leaves as it is.
\<close>

definition performed :: "('w, 'a) prog \<Rightarrow> 'w \<Rightarrow> 'a \<Rightarrow> api_call list \<Rightarrow> 'w \<Rightarrow> bool" where
  "performed m w r cs w' \<longleftrightarrow>
     (\<forall>s. ext s = w \<longrightarrow> run_state m s = (r, s\<lparr>ext := w', calls := calls s @ cs\<rparr>))"

lemma performedD:
  "performed m (ext s) r cs w' \<Longrightarrow> run_state m s = (r, s\<lparr>ext := w', calls := calls s @ cs\<rparr>)"
  by (simp add: performed_def)

lemma performed_iff:
  assumes "performed m w r cs w'"
  shows "performed m w x ds w2 \<longleftrightarrow> x = r \<and> ds = cs \<and> w2 = w'"
proof
  let ?s = "\<lparr>ext = w, calls = [], metrics = [], task = undefined\<rparr>"
  assume "performed m w x ds w2"
  then have "run_state m ?s = (x, ?s\<lparr>ext := w2, calls := ds\<rparr>)"
    by (simp add: performed_def)
  moreover from assms have "run_state m ?s = (r, ?s\<lparr>ext := w', calls := cs\<rparr>)"
    by (simp add: performed_def)
  ultimately show "x = r \<and> ds = cs \<and> w2 = w'" by simp
qed (use assms in simp)

lemma performed_return: "performed (return x) w x [] w"
  by (simp add: performed_def)

lemma performed_ask: "f w = (x, w') \<Longrightarrow> performed (ask f) w x [] w'"
  by (simp add: performed_def ask_def)

lemma performed_request: "f w = (x, w') \<Longrightarrow> performed (request c f) w x [c] w'"
  by (simp add: performed_def request_def)

lemma performed_bind:
  "performed m w x cs w1 \<Longrightarrow> performed (f x) w1 y ds w2 \<Longrightarrow>
     performed (State_Monad.bind m f) w y (cs @ ds) w2"
  by (simp add: performed_def)

definition world_only :: "('w, 'a) prog \<Rightarrow> bool" where
  \<comment> \<open>a computation that neither reads nor changes the state of the controller\<close>
  "world_only m \<longleftrightarrow> (\<forall>w. \<exists>r cs w'. performed m w r cs w')"

lemma world_only_basic [simp]: "world_only (return x)" "world_only (ask f)" "world_only (request c f)"
  unfolding world_only_def
  by (metis performed_return performed_ask performed_request surj_pair)+

lemma world_only_bind: "world_only m \<Longrightarrow> (\<And>x. world_only (f x)) \<Longrightarrow> world_only (State_Monad.bind m f)"
  unfolding world_only_def by (meson performed_bind)

lemma world_only_branch:
  "world_only m1 \<Longrightarrow> world_only m2 \<Longrightarrow> world_only (if b then m1 else m2)"
  "world_only m \<Longrightarrow> (\<And>a. world_only (f a)) \<Longrightarrow> world_only (case x of None \<Rightarrow> m | Some a \<Rightarrow> f a)"
  "(\<And>a. world_only (g a)) \<Longrightarrow> (\<And>c. world_only (h c)) \<Longrightarrow>
     world_only (case y of Inl a \<Rightarrow> g a | Inr c \<Rightarrow> h c)"
  by (simp_all split: option.split sum.split)

lemma world_only_execute: "world_only (execute C L e action params)"
proof -
  have restart: "world_only (restart_workload C kind kn ns n stamp)" for kind kn ns n stamp
    unfolding restart_workload_def Let_def by (intro world_only_bind world_only_branch world_only_basic)
  have "world_only (secret_update C e params)" "world_only (secret_read C L e params)"
    "world_only (configmap_update C e params)" "world_only (rollout_restart C L e params)"
    "world_only (wait_step C L params)" "world_only (assert_step L params)"
    unfolding secret_update_def secret_read_def configmap_update_def rollout_restart_def
      wait_step_def assert_step_def Let_def
    by (intro world_only_bind world_only_branch world_only_basic restart)+
  then show ?thesis
    unfolding execute_def by (intro world_only_branch world_only_basic)
qed

lemma execute_performed:
  fixes C :: "'w client" and w :: 'w
  obtains r cs w' where "performed (execute C L e action params) w r cs w'" and "list_all is_action_call cs"
proof -
  obtain r cs w' where p: "performed (execute C L e action params) w r cs w'"
    using world_only_execute [of C L e action params] unfolding world_only_def by metis
  let ?s = "\<lparr>ext = w, calls = [], metrics = [], task = undefined\<rparr>"
  from p have "run_state (execute C L e action params) ?s = (r, ?s\<lparr>ext := w', calls := cs\<rparr>)"
    by (simp add: performed_def)
  with sendsD [OF sends_execute this] p show thesis by (intro that) auto
qed

section \<open>One step\<close>

abbreviation with_steps :: "task_run \<Rightarrow> step_status list \<Rightarrow> task_run" where
  "with_steps tr ss \<equiv> tr\<lparr>tr_status := (tr_status tr)\<lparr>ts_steps := ss\<rparr>\<rparr>"

lemma put_step_status_twice [simp]:
  "st_name x = st_name y \<Longrightarrow> put_step_status (put_step_status ss x) y = put_step_status ss y"
  by (induction ss x rule: put_step_status.induct) auto

lemma running_status_simps [simp]:
  "st_name (running_status n) = n"
  "st_phase (running_status n) = StepPhaseRunning"
  by (simp_all add: running_status_def)

text \<open>
  \<open>step_run C L e rs w ss cs w' row x\<close>: running the step \<open>rs\<close> in the world \<open>w\<close>, with the step
  statuses \<open>ss\<close> to resolve its parameters against, sends the requests \<open>cs\<close>, leaves the world \<open>w'\<close>
  and ends in the status \<open>row\<close> and the error \<open>x\<close>. A step whose parameters do not resolve runs
  nothing; otherwise its action runs between two readings of the clock, and the step has
  succeeded, with the outputs of the action, exactly if the action has.
\<close>

definition result_row :: "resolved_step \<Rightarrow> duration \<Rightarrow> string gomap \<Rightarrow> step_status" where
  "result_row rs d outs =
     \<lparr>st_name = rs_name rs, st_phase = StepPhaseSucceeded, st_duration = duration_text d,
      st_outputs = outs, st_logs = []\<rparr>"

definition error_row :: "resolved_step \<Rightarrow> duration \<Rightarrow> string \<Rightarrow> step_status" where
  "error_row rs d err =
     \<lparr>st_name = rs_name rs, st_phase = StepPhaseFailed, st_duration = duration_text d,
      st_outputs = None, st_logs = err\<rparr>"

inductive step_run ::
  "'w client \<Rightarrow> lib \<Rightarrow> step_executor \<Rightarrow> resolved_step \<Rightarrow> 'w \<Rightarrow> step_status list \<Rightarrow>
     api_call list \<Rightarrow> 'w \<Rightarrow> step_status \<Rightarrow> string option \<Rightarrow> bool"
  for C :: "'w client" and L e rs w ss where
  unresolved: "resolve_templates (lib_printable L) (ss_params (rs_step rs)) ss = Inl err \<Longrightarrow>
    step_run C L e rs w ss [] w (error_row rs 0 err)
      (Some (''step '' @ quote (lib_printable L) (rs_name rs) @ '' template resolution: '' @ err))"
| action_fails: "resolve_templates (lib_printable L) (ss_params (rs_step rs)) ss = Inr params \<Longrightarrow>
    cl_now C w = (t1, w1) \<Longrightarrow>
    performed (execute C L e (rs_action rs) params) w1 (Inl err) cs w2 \<Longrightarrow>
    cl_now C w2 = (t2, w3) \<Longrightarrow>
    step_run C L e rs w ss cs w3 (error_row rs (time_sub t2 t1) err)
      (Some (''step '' @ quote (lib_printable L) (rs_name rs) @ '' ('' @ rs_action rs @ '') failed: '' @ err))"
| action_succeeds: "resolve_templates (lib_printable L) (ss_params (rs_step rs)) ss = Inr params \<Longrightarrow>
    cl_now C w = (t1, w1) \<Longrightarrow>
    performed (execute C L e (rs_action rs) params) w1 (Inr outs) cs w2 \<Longrightarrow>
    cl_now C w2 = (t2, w3) \<Longrightarrow>
    step_run C L e rs w ss cs w3 (result_row rs (time_sub t2 t1) outs) None"

inductive_simps step_run_iff: "step_run C L e rs w ss cs w' row x"

lemma step_run_row:
  "step_run C L e rs w ss cs w' row x \<Longrightarrow>
     st_name row = rs_name rs \<and> st_phase row = (if x = None then StepPhaseSucceeded else StepPhaseFailed)"
  by (induction rule: step_run.induct) (simp_all add: error_row_def result_row_def)

lemma wp_step_run:
  "wp (execute_one_step C L e rs)
     (\<lambda>x s'. \<exists>cs row. step_run C L e rs (ext s) (steps_of (task s)) cs (ext s') row x
        \<and> calls s' = calls s @ cs \<and> list_all is_action_call cs
        \<and> task s' = with_steps (task s) (put_step_status (steps_of (task s)) row)) s"
proof (cases "resolve_templates (lib_printable L) (ss_params (rs_step rs)) (steps_of (task s))")
  case (Inl err)
  from unresolved [OF this, of C e "ext s"] Inl show ?thesis
    by (auto simp: execute_one_step_def error_row_def intro!: exI)
next
  case (Inr params)
  obtain t1 w1 where t1: "cl_now C (ext s) = (t1, w1)" by (cases "cl_now C (ext s)")
  obtain r cs w2 where act: "performed (execute C L e (rs_action rs) params) w1 r cs w2"
      and cs: "list_all is_action_call cs"
    by (rule execute_performed)
  obtain t2 w3 where t2: "cl_now C w2 = (t2, w3)" by (cases "cl_now C w2")
  let ?s1 = "s\<lparr>task := with_steps (task s) (put_step_status (steps_of (task s)) (running_status (rs_name rs))),
               ext := w1\<rparr>"
  have run: "wp (execute C L e (rs_action rs) params) Q ?s1
      = Q r (?s1\<lparr>ext := w2, calls := calls s @ cs\<rparr>)" for Q
    using act by (simp add: wp_def performed_def)
  show ?thesis
  proof (cases r)
    case (Inl err)
    with action_fails [OF Inr t1 _ t2] act cs show ?thesis
      by (simp add: execute_one_step_def Inr t1 t2 run Let_def error_row_def) blast
  next
    case r: (Inr outs)
    with action_succeeds [OF Inr t1 _ t2] act cs show ?thesis
      by (simp add: execute_one_step_def Inr t1 t2 run Let_def result_row_def) blast
  qed
qed

lemma wp_execute_one_step:
  "wp (execute_one_step C L e rs)
     (\<lambda>r s'. (\<exists>cs. calls s' = calls s @ cs \<and> list_all is_action_call cs)
        \<and> (\<exists>row. st_name row = rs_name rs
             \<and> st_phase row = (if r = None then StepPhaseSucceeded else StepPhaseFailed)
             \<and> task s' = with_steps (task s) (put_step_status (steps_of (task s)) row))) s"
  by (rule wp_mono [OF wp_step_run], elim exE conjE, drule step_run_row) blast

section \<open>The run of the steps\<close>

text \<open>
  \<open>native_run C L e steps w ss cs w' ss' x\<close>: the steps run one after the other, up to the first that
  ends in an error, which is then the error \<open>x\<close> of the run; the statuses go from \<open>ss\<close> to \<open>ss'\<close>.
\<close>

inductive native_run ::
  "'w client \<Rightarrow> lib \<Rightarrow> step_executor \<Rightarrow> resolved_step list \<Rightarrow> 'w \<Rightarrow> step_status list \<Rightarrow>
     api_call list \<Rightarrow> 'w \<Rightarrow> step_status list \<Rightarrow> string option \<Rightarrow> bool"
  for C :: "'w client" and L e where
  no_step: "native_run C L e [] w ss [] w ss None"
| next_step: "step_run C L e rs w ss cs w1 row None \<Longrightarrow>
    native_run C L e steps w1 (put_step_status ss row) ds w' ss' x \<Longrightarrow>
    native_run C L e (rs # steps) w ss (cs @ ds) w' ss' x"
| first_error: "step_run C L e rs w ss cs w' row (Some err) \<Longrightarrow>
    native_run C L e (rs # steps) w ss cs w' (put_step_status ss row) (Some err)"

inductive_simps native_run_Nil [simp]: "native_run C L e [] w ss cs w' ss' x"
inductive_simps native_run_Cons: "native_run C L e (rs # steps) w ss cs w' ss' x"

section \<open>Fail fast\<close>

text \<open>
  \<open>fail_fast steps ss ss' ok\<close>: running \<open>steps\<close> takes the step statuses from \<open>ss\<close> to \<open>ss'\<close>, and
  \<open>ok\<close> says whether all of them succeeded.
\<close>

inductive fail_fast :: "resolved_step list \<Rightarrow> step_status list \<Rightarrow> step_status list \<Rightarrow> bool \<Rightarrow> bool" where
  all_done: "fail_fast [] ss ss True"
| step_succeeds: "st_name row = rs_name rs \<Longrightarrow> st_phase row = StepPhaseSucceeded \<Longrightarrow>
    fail_fast steps (put_step_status ss row) ss' ok \<Longrightarrow> fail_fast (rs # steps) ss ss' ok"
| step_fails: "st_name row = rs_name rs \<Longrightarrow> st_phase row = StepPhaseFailed \<Longrightarrow>
    fail_fast (rs # steps) ss (put_step_status ss row) False"

inductive_simps fail_fast_Nil [simp]: "fail_fast [] ss ss' ok"
inductive_cases fail_fast_ConsE: "fail_fast (rs # steps) ss ss' ok"

lemma native_run_fail_fast:
  "native_run C L e steps w ss cs w' ss' x \<Longrightarrow> fail_fast steps ss ss' (x = None)"
proof (induction rule: native_run.induct)
  case (next_step rs w ss cs w1 row steps ds w' ss' x)
  with step_run_row [OF next_step(1)] show ?case by (auto intro: step_succeeds)
next
  case (first_error rs w ss cs w' row err steps)
  with step_run_row [OF first_error] show ?case by (simp add: step_fails)
qed simp

definition row_phase :: "step_status list \<Rightarrow> string \<Rightarrow> step_phase option" where
  "row_phase ss n = map_option st_phase (step_row ss n)"

lemma row_phase_put [simp]:
  "row_phase (put_step_status ss row) n = (if n = st_name row then Some (st_phase row) else row_phase ss n)"
  by (simp add: row_phase_def step_table.row_put)

lemma fail_fast_other_rows:
  "fail_fast steps ss ss' ok \<Longrightarrow> n \<notin> set (map rs_name steps) \<Longrightarrow> step_row ss' n = step_row ss n"
  by (induction rule: fail_fast.induct) (auto simp: step_table.row_put)

lemma fail_fast_all_succeeded:
  "fail_fast steps ss ss' ok \<Longrightarrow> ok \<Longrightarrow> n \<in> set (map rs_name steps) \<Longrightarrow>
     row_phase ss' n = Some StepPhaseSucceeded"
proof (induction rule: fail_fast.induct)
  case (step_succeeds row rs steps ss ss' ok)
  show ?case
  proof (cases "n \<in> set (map rs_name steps)")
    case True
    with step_succeeds show ?thesis by simp
  next
    case False
    then have "row_phase ss' n = row_phase (put_step_status ss row) n"
      using fail_fast_other_rows [OF step_succeeds(3)] by (simp add: row_phase_def)
    with False step_succeeds show ?thesis by auto
  qed
qed simp_all

lemma fail_fast_stops:
  "fail_fast steps ss ss' False \<Longrightarrow> distinct (map rs_name steps) \<Longrightarrow>
     \<exists>xs r ys. steps = xs @ r # ys \<and> row_phase ss' (rs_name r) = Some StepPhaseFailed
       \<and> (\<forall>q\<in>set xs. row_phase ss' (rs_name q) = Some StepPhaseSucceeded)
       \<and> (\<forall>q\<in>set ys. step_row ss' (rs_name q) = step_row ss (rs_name q))"
proof (induction steps ss ss' False rule: fail_fast.induct)
  case (step_succeeds row rs steps ss ss')
  then obtain xs r ys where split: "steps = xs @ r # ys"
    and rows: "row_phase ss' (rs_name r) = Some StepPhaseFailed"
      "\<forall>q\<in>set xs. row_phase ss' (rs_name q) = Some StepPhaseSucceeded"
      "\<forall>q\<in>set ys. step_row ss' (rs_name q) = step_row (put_step_status ss row) (rs_name q)"
    by auto
  have "row_phase ss' (rs_name rs) = Some StepPhaseSucceeded"
    using fail_fast_other_rows [OF step_succeeds(3), of "rs_name rs"] step_succeeds(1,2,5)
    by (simp add: row_phase_def step_table.row_put)
  moreover have "\<forall>q\<in>set ys. step_row ss' (rs_name q) = step_row ss (rs_name q)"
    using rows(3) split step_succeeds(1,5) by (auto simp: step_table.row_put image_iff)
  ultimately show ?case
    using split rows by (intro exI [of _ "rs # xs"] exI [of _ r] exI [of _ ys]) simp
next
  case (step_fails row rs steps ss)
  then show ?case
    by (rule_tac x = "[]" in exI, rule_tac x = rs in exI, rule_tac x = steps in exI)
       (auto simp: step_table.row_put image_iff)
qed simp

section \<open>The loops implement it\<close>

definition ends_run :: "step_status list \<Rightarrow> resolved_step list \<Rightarrow> task_run \<Rightarrow> bool" where
  \<comment> \<open>the object of the final status update\<close>
  "ends_run ss steps tr \<longleftrightarrow>
     (phase_of tr = TaskRunPhaseSucceeded \<and> fail_fast steps ss (steps_of tr) True
      \<or> phase_of tr = TaskRunPhaseFailed \<and> fail_fast steps ss (steps_of tr) False)"

lemma ends_run_Nil: "ends_run ss [] tr \<longleftrightarrow> phase_of tr = TaskRunPhaseSucceeded \<and> steps_of tr = ss"
  by (auto simp: ends_run_def)

lemma ends_run_Cons:
  "st_name row = rs_name rs \<Longrightarrow> st_phase row = StepPhaseSucceeded \<Longrightarrow>
     ends_run (put_step_status ss row) steps tr \<Longrightarrow> ends_run ss (rs # steps) tr"
  by (auto simp: ends_run_def intro: step_succeeds)

definition ended_by :: "'w client \<Rightarrow> task_run \<Rightarrow> reconcile_result \<Rightarrow> 'w st \<Rightarrow> bool" where
  \<comment> \<open>the result and the state at the end are what the answer to the status update \<open>tr\<close> makes them\<close>
  "ended_by C tr r s' \<longleftrightarrow>
     (\<exists>w err. cl_update_status C tr w = (Inl err, ext s') \<and> task s' = tr
        \<and> r = Returned 0 (Some (api_error_text err)))
     \<or> (\<exists>w. cl_update_status C tr w = (Inr (task s'), ext s') \<and> r = Returned 0 None)"

lemma wp_set_phase_ended:
  "wp (set_phase C p) (\<lambda>e s'. \<exists>tr. calls s' = calls s @ [UpdateStatus tr] \<and> phase_of tr = p
     \<and> steps_of tr = steps_of (task s) \<and> ended_by C tr (Returned 0 (error_text e)) s') s"
proof -
  obtain now w where now: "cl_now C (ext s) = (now, w)" by (cases "cl_now C (ext s)")
  let ?tr = "(task s)\<lparr>tr_status := with_phase p now (tr_status (task s))\<rparr>"
  obtain a w' where up: "cl_update_status C ?tr w = (a, w')" by (cases "cl_update_status C ?tr w")
  show ?thesis
    by (cases a)
       (use up in \<open>auto simp: wp_set_phase now Let_def ended_by_def error_text_def intro!: exI [of _ ?tr]\<close>)
qed

lemma wp_mark_ended:
  "wp (after_mark (mark_failed C L reason message)) (\<lambda>r s'. \<exists>tr. calls s' = calls s @ [UpdateStatus tr]
     \<and> phase_of tr = TaskRunPhaseFailed \<and> steps_of tr = steps_of (task s) \<and> ended_by C tr r s') s"
  "wp (after_mark (mark_succeeded C L)) (\<lambda>r s'. \<exists>tr. calls s' = calls s @ [UpdateStatus tr]
     \<and> phase_of tr = TaskRunPhaseSucceeded \<and> steps_of tr = steps_of (task s) \<and> ended_by C tr r s') s"
  unfolding mark_failed_def mark_succeeded_def
  by (auto intro!: wp_mono [OF wp_set_phase_ended] split: prod.split)

definition runs_natively ::
  "'w client \<Rightarrow> lib \<Rightarrow> step_executor \<Rightarrow> resolved_step list \<Rightarrow> 'w st \<Rightarrow> reconcile_result \<Rightarrow> 'w st \<Rightarrow> bool" where
  \<comment> \<open>a run of the steps, and one status update that reports it\<close>
  "runs_natively C L e steps s r s' \<longleftrightarrow>
     (\<exists>cs w x tr. native_run C L e steps (ext s) (steps_of (task s)) cs w (steps_of tr) x
        \<and> calls s' = calls s @ cs @ [UpdateStatus tr] \<and> list_all is_action_call cs
        \<and> phase_of tr = (if x = None then TaskRunPhaseSucceeded else TaskRunPhaseFailed)
        \<and> ended_by C tr r s')"

lemma wp_partitioned_run:
  fixes C :: "'w client"
  shows "wp (partitioned_loop C L e steps) (runs_natively C L e steps s) s"
proof (induction steps arbitrary: s)
  case Nil
  show ?case
    unfolding partitioned_loop.simps
    by (rule wp_mono [OF wp_mark_ended(2)])
       (auto simp: runs_natively_def intro!: exI [of _ "[]"] exI [of _ None])
next
  case (Cons rs steps)
  show ?case
    unfolding partitioned_loop.simps wp_bind
  proof (rule wp_mono [OF wp_step_run])
    fix x :: "string option" and s1 :: "'w st"
    assume "\<exists>cs row. step_run C L e rs (ext s) (steps_of (task s)) cs (ext s1) row x
        \<and> calls s1 = calls s @ cs \<and> list_all is_action_call cs
        \<and> task s1 = with_steps (task s) (put_step_status (steps_of (task s)) row)"
    then obtain cs row where run: "step_run C L e rs (ext s) (steps_of (task s)) cs (ext s1) row x"
      and cs: "calls s1 = calls s @ cs" "list_all is_action_call cs"
      and task: "task s1 = with_steps (task s) (put_step_status (steps_of (task s)) row)" by blast
    let ?Q = "runs_natively C L e (rs # steps) s"
    have "wp (partitioned_loop C L e steps) ?Q s1" if "x = None"
    proof (rule wp_mono [OF Cons.IH])
      fix r s'
      assume "runs_natively C L e steps s1 r s'"
      then obtain ds w y tr where rest: "native_run C L e steps (ext s1) (steps_of (task s1)) ds w (steps_of tr) y"
          "calls s' = calls s1 @ ds @ [UpdateStatus tr]" "list_all is_action_call ds"
          "phase_of tr = (if y = None then TaskRunPhaseSucceeded else TaskRunPhaseFailed)" "ended_by C tr r s'"
        by (auto simp: runs_natively_def)
      from next_step [OF run [unfolded that]] rest(1) task
      have "native_run C L e (rs # steps) (ext s) (steps_of (task s)) (cs @ ds) w (steps_of tr) y" by simp
      with rest cs show "?Q r s'"
        unfolding runs_natively_def by (intro exI [of _ "cs @ ds"] exI [of _ w] exI [of _ y] exI [of _ tr]) auto
    qed
    moreover have "wp (after_mark (mark_failed C L ''StepFailed'' err)) ?Q s1" if "x = Some err" for err
    proof (rule wp_mono [OF wp_mark_ended(1)])
      fix r s'
      assume "\<exists>tr. calls s' = calls s1 @ [UpdateStatus tr] \<and> phase_of tr = TaskRunPhaseFailed
        \<and> steps_of tr = steps_of (task s1) \<and> ended_by C tr r s'"
      with first_error [OF run [unfolded that], of steps] cs task show "?Q r s'"
        unfolding runs_natively_def by fastforce
    qed
    ultimately show "wp (case x of Some err \<Rightarrow> after_mark (mark_failed C L ''StepFailed'' err)
        | None \<Rightarrow> partitioned_loop C L e steps) ?Q s1"
      by (cases x) simp_all
  qed
qed

lemma runs_natively_ends:
  assumes "runs_natively C L e steps s r s'"
  shows "\<exists>cs tr. calls s' = calls s @ cs @ [UpdateStatus tr] \<and> list_all is_action_call cs
     \<and> ends_run (steps_of (task s)) steps tr"
proof -
  from assms obtain cs w x tr where run: "native_run C L e steps (ext s) (steps_of (task s)) cs w (steps_of tr) x"
      and calls: "calls s' = calls s @ cs @ [UpdateStatus tr]" "list_all is_action_call cs"
      and phase: "phase_of tr = (if x = None then TaskRunPhaseSucceeded else TaskRunPhaseFailed)"
    by (auto simp: runs_natively_def)
  have "ends_run (steps_of (task s)) steps tr"
    using native_run_fail_fast [OF run] phase by (cases x) (simp_all add: ends_run_def)
  with calls show ?thesis by blast
qed

lemma wp_partitioned_loop:
  "wp (partitioned_loop C L e steps)
     (\<lambda>r s'. \<exists>cs tr. calls s' = calls s @ cs @ [UpdateStatus tr] \<and> list_all is_action_call cs
        \<and> ends_run (steps_of (task s)) steps tr) s"
  by (rule wp_mono [OF wp_partitioned_run runs_natively_ends])

lemma native_loop_partitioned:
  "native_loop C L e steps = partitioned_loop C L e (filter (\<lambda>r. \<not> is_runner r) steps)"
proof (induction steps)
  case Nil
  then show ?case by simp
next
  case (Cons rs steps)
  then show ?case by (simp cong: option.case_cong)
qed

lemma bind_get_task_const: "State_Monad.bind get_task (\<lambda>_. m) = m"
  by (cases m) (simp add: get_task_def State_Monad.bind_def)

lemma wp_native_run:
  "wp (execute_api_native_steps C L steps)
     (runs_natively C L (new_step_executor (tr_namespace (task s))) (filter (\<lambda>r. \<not> is_runner r) steps) s) s"
  unfolding execute_api_native_steps_def native_loop_partitioned wp_bind wp_get_task
  by (rule wp_partitioned_run)

lemma wp_native_steps:
  "wp (execute_api_native_steps C L steps)
     (\<lambda>r s'. \<exists>cs tr. calls s' = calls s @ cs @ [UpdateStatus tr] \<and> list_all is_action_call cs
        \<and> ends_run (steps_of (task s)) (filter (\<lambda>r. \<not> is_runner r) steps) tr) s"
  by (rule wp_mono [OF wp_native_run runs_natively_ends])

lemma partitioned_eq_native:
  "execute_api_native_steps_from_partitioned C L (partition_steps steps) = execute_api_native_steps C L steps"
  by (cases "filter (\<lambda>r. \<not> is_runner r) steps = []")
     (simp_all add: execute_api_native_steps_def execute_api_native_steps_from_partitioned_def
        native_loop_partitioned bind_get_task_const)

section \<open>An example\<close>

definition example_native :: "string \<Rightarrow> string \<Rightarrow> resolved_step" where
  "example_native n action =
     \<lparr>rs_step = example_step n action [], rs_definition = example_definition None\<rparr>"

abbreviation example_start :: "cluster st" where
  "example_start \<equiv> example_state empty_cluster (example_task_run [] [])"

section \<open>Properties\<close>

text \<open>C8: \<open>executeAPINativeSteps\<close> implements the fail-fast specification: the API-native steps run in
  order, each action executed with its parameters resolved against the statuses of the steps
  before it; the outputs of an action that succeeds and the error of one that fails become the
  status of its step, and after the first error, of an action or of a template, nothing more is
  executed. The last request is one status update that carries exactly these step statuses and
  says Succeeded if there was no error and Failed otherwise, and its answer decides the result.\<close>

theorem native_steps_fail_fast:
  assumes "run_state (execute_api_native_steps C L steps) s = (r, s')"
  shows "\<exists>cs w x tr.
     native_run C L (new_step_executor (tr_namespace (task s))) (filter (\<lambda>r. \<not> is_runner r) steps)
       (ext s) (steps_of (task s)) cs w (steps_of tr) x
     \<and> calls s' = calls s @ cs @ [UpdateStatus tr] \<and> list_all is_action_call cs
     \<and> phase_of tr = (if x = None then TaskRunPhaseSucceeded else TaskRunPhaseFailed)
     \<and> ended_by C tr r s'"
  using wpD [OF wp_native_run assms] by (simp add: runs_natively_def)

theorem native_steps_fail_fast_witness:
  "\<exists>tr. calls (snd (run_state (execute_api_native_steps example_client example_lib
        [example_native ''a'' ''paint'', example_native ''b'' ''wait'']) example_start)) = [UpdateStatus tr]
     \<and> phase_of tr = TaskRunPhaseFailed
     \<and> steps_of tr = [error_row (example_native ''a'' ''paint'') 1000000000
          (''unknown API-native action: '' @ quote (lib_printable example_lib) ''paint'')]"
proof -
  let ?steps = "[example_native ''a'' ''paint'', example_native ''b'' ''wait'']"
  have native: "\<not> is_runner (example_native n action)" for n action
    by (simp add: is_runner_def example_native_def example_definition_def)
  have unknown: "execute example_client example_lib e ''paint'' params
      = return (Inl (''unknown API-native action: '' @ quote (lib_printable example_lib) ''paint''))" for e params
    by (simp add: execute_def)
  have action: "rs_action (example_native ''a'' ''paint'') = ''paint''"
    and params: "resolve_templates (lib_printable example_lib)
        (ss_params (rs_step (example_native ''a'' ''paint''))) [] = Inr (Some [])"
    by (simp_all add: example_native_def example_step_def resolve_templates_def)
  have clock: "cl_now example_client w = (k_clock w, w\<lparr>k_clock := k_clock w + 1000000000\<rparr>)" for w
    by (simp add: example_client_def)
  have start: "ext example_start = empty_cluster" "steps_of (task example_start) = []" "calls example_start = []"
    by (simp_all add: example_state_def example_task_run_def)
  show ?thesis
    using native_steps_fail_fast [of example_client example_lib ?steps example_start, OF surjective_pairing]
    by (auto simp: native native_run_Cons step_run_iff unknown action params start clock
        performed_iff [OF performed_return] time_sub_def min_duration_def max_duration_def)
qed

text \<open>C23: what the status of a TaskRun says after its API-native steps, with distinct step names:
  in a Succeeded TaskRun every one of them is Succeeded; in a Failed one exactly one step
  failed, the steps before it are Succeeded, and the statuses of the steps behind it are the
  ones they had before, since those steps never ran.\<close>

theorem native_steps_status:
  assumes "run_state (execute_api_native_steps C L steps) s = (r, s')"
    and "distinct (map rs_name (filter (\<lambda>r. \<not> is_runner r) steps))"
  shows "\<exists>tr. last (calls s') = UpdateStatus tr
     \<and> (phase_of tr = TaskRunPhaseSucceeded
          \<and> (\<forall>q\<in>set steps. \<not> is_runner q \<longrightarrow> row_phase (steps_of tr) (rs_name q) = Some StepPhaseSucceeded)
        \<or> phase_of tr = TaskRunPhaseFailed
          \<and> (\<exists>xs q ys. filter (\<lambda>r. \<not> is_runner r) steps = xs @ q # ys
               \<and> row_phase (steps_of tr) (rs_name q) = Some StepPhaseFailed
               \<and> (\<forall>x\<in>set xs. row_phase (steps_of tr) (rs_name x) = Some StepPhaseSucceeded)
               \<and> (\<forall>y\<in>set ys. step_row (steps_of tr) (rs_name y) = step_row (steps_of (task s)) (rs_name y))))"
proof -
  from wpD [OF wp_native_steps assms(1)] obtain cs tr where
    calls: "calls s' = calls s @ cs @ [UpdateStatus tr]"
    and ends: "ends_run (steps_of (task s)) (filter (\<lambda>r. \<not> is_runner r) steps) tr" by blast
  from ends show ?thesis
    unfolding ends_run_def
  proof (elim disjE conjE)
    assume "phase_of tr = TaskRunPhaseSucceeded"
      and "fail_fast (filter (\<lambda>r. \<not> is_runner r) steps) (steps_of (task s)) (steps_of tr) True"
    with fail_fast_all_succeeded [OF this(2)] calls show ?thesis by auto
  next
    assume "phase_of tr = TaskRunPhaseFailed"
      and "fail_fast (filter (\<lambda>r. \<not> is_runner r) steps) (steps_of (task s)) (steps_of tr) False"
    with fail_fast_stops [OF this(2) assms(2)] calls show ?thesis by auto
  qed
qed

theorem native_steps_status_witness:
  "\<exists>tr. last (calls (snd (run_state (execute_api_native_steps example_client example_lib
        [example_native ''a'' ''wait'']) example_start))) = UpdateStatus tr
     \<and> row_phase (steps_of tr) ''a'' \<in> {Some StepPhaseSucceeded, Some StepPhaseFailed}"
proof -
  have native: "\<not> is_runner (example_native ''a'' ''wait'')" "rs_name (example_native ''a'' ''wait'') = ''a''"
    by (simp_all add: is_runner_def example_native_def example_definition_def example_step_def)
  then show ?thesis
    using native_steps_status [of example_client example_lib "[example_native ''a'' ''wait'']" example_start,
        OF surjective_pairing]
    by (auto simp: Cons_eq_append_conv)
qed

text \<open>The two implementations of the API-native phase are the same computation: running the
  declared steps and skipping the runner ones, and running the second group of the partition,
  send the same requests in the same order and leave the same state.\<close>

theorem native_loops_equivalent:
  "execute_api_native_steps_from_partitioned C L (partition_steps steps) = execute_api_native_steps C L steps"
  by (rule partitioned_eq_native)

end
