(* ===== verification/JobFlow.thy ===== *)
theory JobFlow
  imports StepRun
begin

text \<open>
  The runner steps of a TaskRun: the Job that runs them, the ConfigMap with their parameters,
  their outputs and logs, and the CronJob of a scheduled TaskRun (\<open>reconcileJob\<close>,
  \<open>reconcileCronJob\<close>, \<open>ensureParamsConfigMap\<close>, \<open>collectRunnerOutputs\<close>, \<open>collectRunnerLogs\<close>).
\<close>

section \<open>Frames\<close>

lemma wp_ensure_params [simp]:
  "wp (ensure_params_config_map C L steps) Q s =
     (case lib_set_controller_reference L (task s)
             (fresh_meta (tr_name (task s) @ ''-params'') (tr_namespace (task s)) None) of
        Inl err \<Rightarrow> Q (Some (''setting owner reference on params ConfigMap: '' @ err)) s
      | Inr meta2 \<Rightarrow>
          (let cm = \<lparr>cm_meta = meta2, cm_data = Some (params_data steps)\<rparr>;
               key = NamespacedName (om_namespace meta2) (om_name meta2)
           in case cl_get_config_map C key (ext s) of
                (Inl err, w) \<Rightarrow>
                  if is_not_found err then
                    (case cl_create_config_map C cm w of (e, w2) \<Rightarrow>
                       Q (error_text e) (s\<lparr>ext := w2, calls := calls s @ [GetConfigMap key, CreateConfigMap cm]\<rparr>))
                  else Q (Some (api_error_text err)) (s\<lparr>ext := w, calls := calls s @ [GetConfigMap key]\<rparr>)
              | (Inr existing, w) \<Rightarrow>
                  (let existing2 = existing\<lparr>cm_data := Some (params_data steps)\<rparr> in
                   case cl_update_config_map C existing2 w of (e, w2) \<Rightarrow>
                     Q (error_text e) (s\<lparr>ext := w2, calls := calls s @ [GetConfigMap key, UpdateConfigMap existing2]\<rparr>))))"
  by (simp add: ensure_params_config_map_def Let_def split: sum.split prod.split)

lemma params_data_other:
  "k \<notin> set (map (\<lambda>r. rs_name r @ ''.json'') steps) \<Longrightarrow>
     fold (\<lambda>rs d. d(rs_name rs @ ''.json'' \<mapsto> json_marshal_map (ss_params (rs_step rs)))) steps m k = m k"
  by (induction steps arbitrary: m) auto

lemma params_data_distinct:
  assumes "distinct (map rs_name steps)" and "r \<in> set steps"
  shows "params_data steps (rs_name r @ ''.json'') = Some (json_marshal_map (ss_params (rs_step r)))"
proof -
  have "fold (\<lambda>rs d. d(rs_name rs @ ''.json'' \<mapsto> json_marshal_map (ss_params (rs_step rs)))) steps m
      (rs_name r @ ''.json'') = Some (json_marshal_map (ss_params (rs_step r)))" for m
    using assms
  proof (induction steps arbitrary: m)
    case Nil
    then show ?case by simp
  next
    case (Cons q steps)
    show ?case
    proof (cases "r = q")
      case True
      with Cons.prems have "rs_name r @ ''.json'' \<notin> set (map (\<lambda>r. rs_name r @ ''.json'') steps)" by auto
      with True show ?thesis by (simp add: params_data_other del: fun_upd_apply) simp
    next
      case False
      with Cons show ?thesis by simp
    qed
  qed
  then show ?thesis by (simp add: params_data_def)
qed

lemma params_data_dom: "dom (params_data steps) = (\<lambda>r. rs_name r @ ''.json'') ` set steps"
proof -
  have "dom (fold (\<lambda>rs d. d(rs_name rs @ ''.json'' \<mapsto> json_marshal_map (ss_params (rs_step rs)))) steps m)
      = (\<lambda>r. rs_name r @ ''.json'') ` set steps \<union> dom m" for m
    by (induction steps arbitrary: m) auto
  then show ?thesis by (simp add: params_data_def)
qed

lemma wp_mark_running_loop [simp]:
  "wp (mark_running_loop steps) Q s =
     Q () (s\<lparr>task := (task s)\<lparr>tr_status := (tr_status (task s))\<lparr>ts_steps :=
        fold (\<lambda>r ss. put_step_status ss (running_status (rs_name r))) steps (steps_of (task s))\<rparr>\<rparr>\<rparr>)"
  by (induction steps arbitrary: s) simp_all

definition runner_metrics :: "task_run \<Rightarrow> duration \<Rightarrow> string \<Rightarrow> resolved_step list \<Rightarrow> metric list" where
  "runner_metrics tr d p steps =
     concat (map (\<lambda>r. [StepTotal (tr_namespace tr) (rs_action r) p, StepDuration (tr_namespace tr) (rs_action r) d]) steps)"

definition runner_row :: "duration \<Rightarrow> (string gomap) gomap \<Rightarrow> resolved_step \<Rightarrow> step_status" where
  "runner_row d outs r =
     \<lparr>st_name = rs_name r, st_phase = StepPhaseSucceeded, st_duration = duration_text d,
      st_outputs = (case mget outs (rs_name r) of None \<Rightarrow> None | Some m \<Rightarrow> m), st_logs = []\<rparr>"

definition failed_row :: "duration \<Rightarrow> resolved_step \<Rightarrow> step_status" where
  "failed_row d r =
     \<lparr>st_name = rs_name r, st_phase = StepPhaseFailed, st_duration = duration_text d,
      st_outputs = None, st_logs = ''runner job failed''\<rparr>"

lemma wp_mark_runner_succeeded_loop:
  "wp (mark_runner_succeeded_loop d outs steps) Q s =
     Q () (s\<lparr>task := (task s)\<lparr>tr_status := (tr_status (task s))\<lparr>ts_steps :=
              fold (\<lambda>x ss. put_step_status ss x) (map (runner_row d outs) steps) (steps_of (task s))\<rparr>\<rparr>,
            metrics := metrics s @ runner_metrics (task s) d ''Succeeded'' steps\<rparr>)"
  by (induction steps arbitrary: s) (simp_all add: runner_metrics_def runner_row_def Let_def)

lemma wp_mark_runner_failed_loop:
  "wp (mark_runner_failed_loop d steps) Q s =
     Q () (s\<lparr>task := (task s)\<lparr>tr_status := (tr_status (task s))\<lparr>ts_steps :=
              fold (\<lambda>x ss. put_step_status ss x) (map (failed_row d) steps) (steps_of (task s))\<rparr>\<rparr>,
            metrics := metrics s @ runner_metrics (task s) d ''Failed'' steps\<rparr>)"
  by (induction steps arbitrary: s) (simp_all add: runner_metrics_def failed_row_def)

section \<open>Logs and outputs\<close>

fun is_log_call :: "api_call \<Rightarrow> bool" where
  "is_log_call (ListPods _ _) = True"
| "is_log_call (PodLogs _ _ _ _) = True"
| "is_log_call _ = False"

lemma sends_case_pod_logs [sends_rules]:
  "(\<And>e. sends P (f e)) \<Longrightarrow> (\<And>e. sends P (g e)) \<Longrightarrow> (\<And>b. sends P (h b)) \<Longrightarrow>
     sends P (case l of StreamError e \<Rightarrow> f e | ReadError e \<Rightarrow> g e | LogBytes b \<Rightarrow> h b)"
  by (cases l) simp_all

lemma sends_case_list [sends_rules]:
  "sends P m \<Longrightarrow> (\<And>x xs. sends P (f x xs)) \<Longrightarrow> sends P (case l of [] \<Rightarrow> m | x # xs \<Rightarrow> f x xs)"
  by (cases l) simp_all

lemma sends_collect_outputs [sends_rules]: "sends is_log_call (collect_runner_outputs C R)"
  unfolding collect_runner_outputs_def
  by (intro sends_if sends_return sends_bind sends_no_request sends_request sends_case_sum
      sends_case_list sends_case_pod_logs) simp_all

lemma quiet_collect_outputs:
  "wp (collect_runner_outputs C R) (\<lambda>_ s'. task s' = task s \<and> metrics s' = metrics s) s"
  by (auto simp: collect_runner_outputs_def split: sum.splits list.splits prod.splits pod_logs.splits)

lemma sends_collect_logs_loop [sends_rules]: "sends is_log_call (collect_logs_loop C ns pod i steps)"
proof (induction steps arbitrary: i)
  case Nil
  then show ?case by simp
next
  case (Cons rs steps)
  show ?case
    unfolding collect_logs_loop.simps Let_def
    by (intro sends_bind sends_no_request sends_request sends_case_pod_logs Cons.IH) simp_all
qed

lemma sends_collect_logs [sends_rules]: "sends is_log_call (collect_runner_logs C R steps)"
  unfolding collect_runner_logs_def
  by (intro sends_if sends_return sends_bind sends_no_request sends_request sends_case_sum
      sends_case_list sends_collect_logs_loop) simp_all

definition same_but_logs :: "step_status list \<Rightarrow> step_status list \<Rightarrow> bool" where
  "same_but_logs ss ss' \<longleftrightarrow>
     map (\<lambda>x. x\<lparr>st_logs := []\<rparr>) ss' = map (\<lambda>x. x\<lparr>st_logs := []\<rparr>) ss"

lemma same_but_logs_refl [simp]: "same_but_logs ss ss"
  by (simp add: same_but_logs_def)

lemma put_logs_same [simp]: "same_but_logs ss (put_logs ss n logs)"
  by (induction ss n logs rule: put_logs.induct) (auto simp: same_but_logs_def)

lemma same_but_logs_trans: "same_but_logs a b \<Longrightarrow> same_but_logs b c \<Longrightarrow> same_but_logs a c"
  by (simp add: same_but_logs_def)

lemma wp_collect_logs_loop:
  "wp (collect_logs_loop C ns pod i steps)
     (\<lambda>_ s'. metrics s' = metrics s
        \<and> (\<exists>ss. task s' = with_steps (task s) ss \<and> same_but_logs (steps_of (task s)) ss)) s"
proof (induction steps arbitrary: i s)
  case Nil
  then show ?case by (auto intro!: exI [of _ "steps_of (task s)"])
next
  case (Cons rs steps)
  let ?n = "''step-'' @ dec i @ ''-'' @ rs_name rs"
  obtain logs w where logs: "cl_pod_logs C ns pod ?n (Some (int max_log_lines)) (ext s) = (logs, w)"
    by (cases "cl_pod_logs C ns pod ?n (Some (int max_log_lines)) (ext s)")
  show ?case
  proof (cases logs)
    case (LogBytes b)
    with logs show ?thesis
      by (simp add: Let_def) (rule wp_mono [OF Cons.IH], auto intro: same_but_logs_trans [OF put_logs_same])
  next
    case (StreamError e)
    with logs show ?thesis by (simp add: Let_def) (rule wp_mono [OF Cons.IH], simp)
  next
    case (ReadError e)
    with logs show ?thesis by (simp add: Let_def) (rule wp_mono [OF Cons.IH], simp)
  qed
qed

lemma wp_collect_logs:
  "wp (collect_runner_logs C R steps)
     (\<lambda>_ s'. metrics s' = metrics s
        \<and> (\<exists>ss. task s' = with_steps (task s) ss \<and> same_but_logs (steps_of (task s)) ss)
        \<and> (\<exists>cs. calls s' = calls s @ cs \<and> list_all is_log_call cs)) s"
proof -
  have "wp (collect_runner_logs C R steps)
     (\<lambda>_ s'. metrics s' = metrics s
        \<and> (\<exists>ss. task s' = with_steps (task s) ss \<and> same_but_logs (steps_of (task s)) ss)) s"
    unfolding collect_runner_logs_def
    by (auto intro!: wp_mono [OF wp_collect_logs_loop] intro: exI [of _ "steps_of (task s)"]
        split: sum.split list.split prod.split)
  with sends_wp [OF sends_collect_logs] show ?thesis by (simp add: wp_conj)
qed

section \<open>The Job has finished\<close>

lemma wp_bind_fun: "wp (State_Monad.bind m f) Q = wp m (\<lambda>x. wp (f x) Q)"
  by (rule ext) simp

lemma same_but_logs_row_phase: "same_but_logs ss ss' \<Longrightarrow> row_phase ss' n = row_phase ss n"
proof (induction ss arbitrary: ss')
  case Nil
  then show ?case by (simp add: same_but_logs_def)
next
  case (Cons x ss)
  then obtain y ys where ys: "ss' = y # ys" "y\<lparr>st_logs := []\<rparr> = x\<lparr>st_logs := []\<rparr>" "same_but_logs ss ys"
    by (auto simp: same_but_logs_def)
  from ys(2) have "st_name y = st_name x" "st_phase y = st_phase x"
    by (metis step_status.select_convs(1,2) step_status.surjective step_status.update_convs(5))+
  with ys(1) Cons.IH [OF ys(3)] show ?case by (simp add: row_phase_def step_row_def)
qed

definition after_runner ::
  "duration \<Rightarrow> (string gomap) gomap \<Rightarrow> resolved_step list \<Rightarrow> step_status list \<Rightarrow> step_status list" where
  \<comment> \<open>the step statuses once the runner steps are recorded as succeeded\<close>
  "after_runner d outs steps ss = fold (\<lambda>x ss. put_step_status ss x) (map (runner_row d outs) steps) ss"

lemma after_runner_row:
  "distinct (map rs_name steps) \<Longrightarrow> r \<in> set steps \<Longrightarrow>
     step_row (after_runner d outs steps ss) (rs_name r) = Some (runner_row d outs r)"
  unfolding after_runner_def
  using step_table.row_fold_distinct [of "map (runner_row d outs) steps" "runner_row d outs r" ss]
  by (simp add: o_def runner_row_def)

lemma wp_from_partitioned:
  fixes C :: "'w client"
  shows "wp (execute_api_native_steps_from_partitioned C L p)
     (\<lambda>r s'. \<exists>cs tr. calls s' = calls s @ cs @ [UpdateStatus tr] \<and> list_all is_action_call cs
        \<and> ends_run (steps_of (task s)) (ps_api_native p) tr) s"
proof (cases "ps_api_native p")
  case Nil
  then show ?thesis
    by (simp add: execute_api_native_steps_from_partitioned_def)
       (rule wp_mono [OF wp_mark_succeeded_status], auto simp: ends_run_Nil intro!: exI [of _ "[]"])
next
  case (Cons q qs)
  then show ?thesis
    using wp_partitioned_loop [of C L _ "ps_api_native p" s]
    by (simp add: execute_api_native_steps_from_partitioned_def)
qed

lemma wp_reconcile_job_succeeded:
  fixes C :: "'w client"
  assumes get: "cl_get_job C (runner_key (task s)) (ext s) = (Inr j, w)"
    and ok: "0 <s jst_succeeded (job_status j)"
  shows "wp (reconcile_job C L R p)
     (\<lambda>r s'. \<exists>ls cs outs ss tr. calls s' = calls s @ GetJob (runner_key (task s)) # ls @ cs @ [UpdateStatus tr]
        \<and> list_all is_log_call ls \<and> list_all is_action_call cs
        \<and> same_but_logs (steps_of (task s)) ss
        \<and> ends_run (after_runner (job_duration j) outs (ps_runner p) ss) (ps_api_native p) tr) s"
    (is "wp _ ?Q s")
proof -
  let ?key = "runner_key (task s)"
  let ?s1 = "s\<lparr>ext := w, calls := calls s @ [GetJob ?key]\<rparr>"
  let ?rest = "\<lambda>outs. do { mark_runner_succeeded_loop (job_duration j) outs (ps_runner p);
                          execute_api_native_steps_from_partitioned C L p }"
  have last: "wp (?rest outs) ?Q s3"
    if s3: "calls s3 = calls s @ GetJob ?key # ls" "list_all is_log_call ls"
       "task s3 = with_steps (task s) ss" "same_but_logs (steps_of (task s)) ss" for s3 outs ls ss
  proof -
    let ?s4 = "s3\<lparr>task := with_steps (task s3) (after_runner (job_duration j) outs (ps_runner p) (steps_of (task s3))),
       metrics := metrics s3 @ runner_metrics (task s3) (job_duration j) ''Succeeded'' (ps_runner p)\<rparr>"
    have "wp (execute_api_native_steps_from_partitioned C L p) ?Q ?s4"
    proof (rule wp_mono [OF wp_from_partitioned])
      fix r and s' :: "'w st"
      assume "\<exists>cs tr. calls s' = calls ?s4 @ cs @ [UpdateStatus tr] \<and> list_all is_action_call cs
        \<and> ends_run (steps_of (task ?s4)) (ps_api_native p) tr"
      then obtain cs tr where "calls s' = calls ?s4 @ cs @ [UpdateStatus tr]" "list_all is_action_call cs"
        "ends_run (steps_of (task ?s4)) (ps_api_native p) tr" by blast
      with s3 show "?Q r s'"
        by (intro exI [of _ ls] exI [of _ cs] exI [of _ outs] exI [of _ ss] exI [of _ tr]) simp
    qed
    then show ?thesis by (simp add: wp_mark_runner_succeeded_loop after_runner_def)
  qed
  have "wp (collect_runner_logs C R (ps_runner p)) (\<lambda>_ s2. wp (collect_runner_outputs C R)
      (\<lambda>outs. wp (?rest outs) ?Q) s2) ?s1"
  proof (rule wp_mono [OF wp_collect_logs])
    fix u and s2 :: "'w st"
    assume "metrics s2 = metrics ?s1
      \<and> (\<exists>ss. task s2 = with_steps (task ?s1) ss \<and> same_but_logs (steps_of (task ?s1)) ss)
      \<and> (\<exists>cs. calls s2 = calls ?s1 @ cs \<and> list_all is_log_call cs)"
    then obtain ss ls where s2: "task s2 = with_steps (task s) ss" "same_but_logs (steps_of (task s)) ss"
      "calls s2 = calls s @ GetJob ?key # ls" "list_all is_log_call ls" by auto
    have "wp (collect_runner_outputs C R) (\<lambda>_ s3. (task s3 = task s2 \<and> metrics s3 = metrics s2)
        \<and> (\<exists>cs. calls s3 = calls s2 @ cs \<and> list_all is_log_call cs)) s2"
      using quiet_collect_outputs [of C R s2] sends_wp [OF sends_collect_outputs, of C R s2]
      by (simp add: wp_conj)
    then show "wp (collect_runner_outputs C R) (\<lambda>outs. wp (?rest outs) ?Q) s2"
    proof (rule wp_mono)
      fix outs and s3 :: "'w st"
      assume "(task s3 = task s2 \<and> metrics s3 = metrics s2)
        \<and> (\<exists>cs. calls s3 = calls s2 @ cs \<and> list_all is_log_call cs)"
      with s2 obtain cs where "calls s3 = calls s @ GetJob ?key # (ls @ cs)" "list_all is_log_call (ls @ cs)"
        "task s3 = with_steps (task s) ss" by auto
      from last [OF this s2(2)] show "wp (?rest outs) ?Q s3" .
    qed
  qed
  with get ok show ?thesis by (simp add: reconcile_job_def wp_bind_fun)
qed

lemma wp_reconcile_job_failed:
  fixes C :: "'w client"
  assumes get: "cl_get_job C (runner_key (task s)) (ext s) = (Inr j, w)"
    and failed: "\<not> 0 <s jst_succeeded (job_status j)" "0 <s jst_failed (job_status j)"
  shows "wp (reconcile_job C L R p)
     (\<lambda>r s'. \<exists>ls ss tr. calls s' = calls s @ GetJob (runner_key (task s)) # ls @ [UpdateStatus tr]
        \<and> list_all is_log_call ls \<and> same_but_logs (steps_of (task s)) ss
        \<and> phase_of tr = TaskRunPhaseFailed
        \<and> steps_of tr = fold (\<lambda>x ss. put_step_status ss x) (map (failed_row (job_duration j)) (ps_runner p)) ss) s"
    (is "wp _ ?Q s")
proof -
  let ?key = "runner_key (task s)"
  let ?s1 = "s\<lparr>ext := w, calls := calls s @ [GetJob ?key]\<rparr>"
  have "wp (collect_runner_logs C R (ps_runner p)) (\<lambda>_. wp (do {
        mark_runner_failed_loop (job_duration j) (ps_runner p);
        after_mark (mark_failed C L ''RunnerFailed'' ''runner Job failed'') }) ?Q) ?s1"
  proof (rule wp_mono [OF wp_collect_logs])
    fix u and s2 :: "'w st"
    assume "metrics s2 = metrics ?s1
      \<and> (\<exists>ss. task s2 = with_steps (task ?s1) ss \<and> same_but_logs (steps_of (task ?s1)) ss)
      \<and> (\<exists>cs. calls s2 = calls ?s1 @ cs \<and> list_all is_log_call cs)"
    then obtain ss ls where s2: "task s2 = with_steps (task s) ss" "same_but_logs (steps_of (task s)) ss"
      "calls s2 = calls s @ GetJob ?key # ls" "list_all is_log_call ls" by auto
    show "wp (do { mark_runner_failed_loop (job_duration j) (ps_runner p);
        after_mark (mark_failed C L ''RunnerFailed'' ''runner Job failed'') }) ?Q s2"
      by (simp add: wp_mark_runner_failed_loop, rule wp_mono [OF wp_mark_failed_status])
         (use s2 in auto)
  qed
  with get failed show ?thesis by (simp add: reconcile_job_def wp_bind_fun)
qed

section \<open>The Job is created\<close>

fun is_status_update :: "api_call \<Rightarrow> bool" where
  "is_status_update (UpdateStatus _) = True"
| "is_status_update _ = False"

definition params_key :: "task_run \<Rightarrow> namespaced_name" where
  "params_key tr = NamespacedName (tr_namespace tr) (tr_name tr @ ''-params'')"

definition wrote_params ::
  "'w client \<Rightarrow> task_run \<Rightarrow> resolved_step list \<Rightarrow> 'w \<Rightarrow> api_call list \<Rightarrow> 'w \<Rightarrow> bool" where
  \<comment> \<open>from the world \<open>w\<close> to \<open>w'\<close> the requests \<open>cs\<close> have written the ConfigMap: the API accepted
     its creation where it did not exist, and the update of its data where it did\<close>
  "wrote_params C tr steps w cs w' \<longleftrightarrow>
     (\<exists>a w1 cm. cl_get_config_map C (params_key tr) w = (a, w1)
        \<and> meta_key (cm_meta cm) = params_key tr \<and> cm_data cm = Some (params_data steps)
        \<and> (case a of
             Inl err \<Rightarrow> is_not_found err \<and> cl_create_config_map C cm w1 = (None, w')
               \<and> cs = [GetConfigMap (params_key tr), CreateConfigMap cm]
           | Inr old \<Rightarrow> cm = old\<lparr>cm_data := Some (params_data steps)\<rparr>
               \<and> cl_update_config_map C cm w1 = (None, w')
               \<and> cs = [GetConfigMap (params_key tr), UpdateConfigMap cm]))"

definition creates_after_params ::
  "'w client \<Rightarrow> lib \<Rightarrow> task_run \<Rightarrow> resolved_step list \<Rightarrow> 'w \<Rightarrow> api_call list \<Rightarrow> bool" where
  \<comment> \<open>a Job is created only directly after the ConfigMap of its parameters has been written\<close>
  "creates_after_params C L tr steps w cs \<longleftrightarrow>
     (\<forall>j. CreateJob j \<in> set cs \<longrightarrow>
        build L tr steps = Some (Inr (Some j))
        \<and> (\<exists>ps w' us. wrote_params C tr steps w ps w' \<and> cs = ps @ CreateJob j # us
             \<and> list_all is_status_update us))"

lemma wp_submit_job:
  assumes step: "\<And>us. list_all is_status_update us \<Longrightarrow> P us"
    "\<And>j us. build L (task s) steps = Some (Inr (Some j)) \<Longrightarrow> list_all is_status_update us \<Longrightarrow> P (CreateJob j # us)"
  shows "wp (submit_job C L steps) (\<lambda>r s'. \<exists>cs. calls s' = calls s @ cs \<and> P cs) s"
proof (cases "build L (task s) steps")
  case None
  then show ?thesis using step(1) [of "[]"] by (simp add: submit_job_def)
next
  case (Some b)
  show ?thesis
  proof (cases b)
    case (Inl err)
    have "wp (mark_failed C L ''JobBuildFailed'' err) (\<lambda>r s'. \<exists>cs. calls s' = calls s @ cs \<and> P cs) s"
      by (rule wp_mono [OF wp_mark_failed_status]) (auto intro!: step(1))
    with Some Inl show ?thesis by (simp add: submit_job_def)
  next
    case (Inr j)
    then show ?thesis
      using Some step(1) [of "[]"] step(2)
      by (cases j) (auto simp: submit_job_def split: prod.splits sum.splits option.splits)
  qed
qed

fun is_config_map_call :: "api_call \<Rightarrow> bool" where
  "is_config_map_call (GetConfigMap _) = True"
| "is_config_map_call (CreateConfigMap _) = True"
| "is_config_map_call (UpdateConfigMap _) = True"
| "is_config_map_call _ = False"

lemma wp_ensure_params_writes:
  assumes "sets_owner L" and "answers_by_name C"
  shows "wp (ensure_params_config_map C L steps)
     (\<lambda>e s'. task s' = task s \<and> (\<exists>cs. calls s' = calls s @ cs \<and> list_all is_config_map_call cs
        \<and> (e = None \<longrightarrow> wrote_params C (task s) steps (ext s) cs (ext s')))) s"
proof (cases "lib_set_controller_reference L (task s)
             (fresh_meta (tr_name (task s) @ ''-params'') (tr_namespace (task s)) None)")
  case (Inl err)
  then show ?thesis by simp
next
  case (Inr meta2)
  with assms(1) have meta: "om_name meta2 = tr_name (task s) @ ''-params''" "om_namespace meta2 = tr_namespace (task s)"
    unfolding sets_owner_def by (metis fresh_meta_simps(1,2))+
  obtain a w1 where get: "cl_get_config_map C (params_key (task s)) (ext s) = (a, w1)"
    by (cases "cl_get_config_map C (params_key (task s)) (ext s)")
  show ?thesis
    using Inr meta get answered(2) [OF assms(2)]
    by (cases a)
       (fastforce simp: Let_def params_key_def wrote_params_def error_text_def split: prod.split)+
qed

lemma creates_after_params_no_job:
  "list_all (\<lambda>c. is_config_map_call c \<or> is_status_update c) cs \<Longrightarrow> creates_after_params C L tr steps w cs"
  by (auto simp: creates_after_params_def list_all_iff)

lemma creates_after_params_job:
  assumes "wrote_params C tr steps w ps w'" and "build L tr steps = Some (Inr (Some j))"
    and "list_all is_status_update us"
  shows "creates_after_params C L tr steps w (ps @ CreateJob j # us)"
proof -
  have "CreateJob i \<notin> set ps" for i
    using assms(1) unfolding wrote_params_def by (elim exE conjE, case_tac a) auto
  moreover have "CreateJob i \<notin> set us" for i
    using assms(3) by (auto simp: list_all_iff)
  ultimately show ?thesis
    using assms unfolding creates_after_params_def by auto
qed

lemma wp_create_runner_job:
  fixes C :: "'w client"
  assumes "sets_owner L" and "answers_by_name C"
  shows "wp (create_runner_job C L p)
     (\<lambda>r s'. \<exists>cs. calls s' = calls s @ cs \<and> creates_after_params C L (task s) (ps_runner p) (ext s) cs) s"
    (is "wp _ ?Q s")
  unfolding create_runner_job_def wp_bind_fun
proof (rule wp_mono [OF wp_ensure_params_writes [OF assms]])
  fix e :: "string option" and s1 :: "'w st"
  assume "task s1 = task s \<and> (\<exists>cs. calls s1 = calls s @ cs \<and> list_all is_config_map_call cs
        \<and> (e = None \<longrightarrow> wrote_params C (task s) (ps_runner p) (ext s) cs (ext s1)))"
  then obtain cs where s1: "task s1 = task s" "calls s1 = calls s @ cs" "list_all is_config_map_call cs"
    and wrote: "e = None \<Longrightarrow> wrote_params C (task s) (ps_runner p) (ext s) cs (ext s1)" by blast
  have config: "creates_after_params C L (task s) (ps_runner p) (ext s) (cs @ us)" if "list_all is_status_update us" for us
    using s1(3) that by (intro creates_after_params_no_job) (auto simp: list_all_iff)
  show "wp (case e of Some err \<Rightarrow> after_mark (mark_failed C L ''ParamsConfigMapFailed'' err)
      | None \<Rightarrow> submit_job C L (ps_runner p)) ?Q s1"
  proof (cases e)
    case (Some err)
    have "wp (mark_failed C L ''ParamsConfigMapFailed'' err) (\<lambda>e. ?Q (Returned 0 (error_text e))) s1"
      by (rule wp_mono [OF wp_mark_failed_status]) (use s1 config in auto)
    with Some show ?thesis by simp
  next
    case None
    show ?thesis
      unfolding None option.case
      by (rule wp_mono [OF wp_submit_job [where P = "\<lambda>us. creates_after_params C L (task s) (ps_runner p) (ext s) (cs @ us)"]])
         (use s1 config creates_after_params_job [OF wrote [OF None]] in auto)
  qed
qed

section \<open>Log containers\<close>

lemma wp_collect_logs_loop_requests:
  "wp (collect_logs_loop C ns pod i steps)
     (\<lambda>_ s'. calls s' = calls s @ map (\<lambda>c. PodLogs ns pod c (Some (int max_log_lines)))
        (names_from step_container_name i (map rs_name steps))) s"
proof (induction steps arbitrary: i s)
  case Nil
  then show ?case by simp
next
  case (Cons rs steps)
  let ?n = "step_container_name i (rs_name rs)"
  have step: "wp (collect_logs_loop C ns pod (i + 1) steps) (\<lambda>_ s'. calls s' = calls s
        @ map (\<lambda>c. PodLogs ns pod c (Some (int max_log_lines)))
            (names_from step_container_name i (map rs_name (rs # steps)))) s1"
    if "calls s1 = calls s @ [PodLogs ns pod ?n (Some (int max_log_lines))]" for s1
    by (rule wp_mono [OF Cons.IH]) (use that in auto)
  show ?case
    unfolding collect_logs_loop.simps Let_def step_container_name_def [symmetric]
    by (simp add: step split: prod.split pod_logs.split del: list.map)
qed

lemma failed_rows:
  assumes "distinct (map rs_name steps)" and "q \<in> set steps"
  shows "step_row (fold (\<lambda>x ss. put_step_status ss x) (map (failed_row d) steps) ss) (rs_name q) = Some (failed_row d q)"
  using step_table.row_fold_distinct [of "map (failed_row d) steps" "failed_row d q" ss] assms
  by (simp add: o_def failed_row_def)

section \<open>What each phase sends\<close>

lemma sends_submit_job:
  assumes "\<And>tr. P (UpdateStatus tr)" and "\<And>j. P (CreateJob j)"
  shows "sends P (submit_job C L steps)"
proof -
  have loop: "sends P (mark_running_loop qs)" for qs
    by (induction qs) (simp_all add: sends_bind)
  show ?thesis
    unfolding submit_job_def
    by (intro sends_bind sends_no_request sends_return sends_request sends_case_option sends_case_sum
        sends_after_mark sends_marks sends_update_status loop assms)
qed

lemma sends_ensure_params:
  assumes "\<And>c. is_config_map_call c \<Longrightarrow> P c"
  shows "sends P (ensure_params_config_map C L steps)"
  unfolding ensure_params_config_map_def Let_def
  by (intro sends_bind sends_no_request sends_case_sum sends_if sends_return sends_request assms) simp_all

lemma sends_create_runner_job:
  assumes "\<And>tr. P (UpdateStatus tr)" and "\<And>j. P (CreateJob j)" and "\<And>c. is_config_map_call c \<Longrightarrow> P c"
  shows "sends P (create_runner_job C L p)"
  unfolding create_runner_job_def
  by (intro sends_bind sends_ensure_params sends_case_option sends_after_mark sends_marks
      sends_submit_job assms)

lemma job_succeeded_rows:
  assumes get: "cl_get_job C (runner_key (task s)) (ext s) = (Inr j, w)"
    and ok: "0 <s jst_succeeded (job_status j)"
    and run: "run_state (reconcile_job C L R p) s = (r, s')"
    and names: "distinct (map rs_name (ps_runner p @ ps_api_native p))"
  shows "\<exists>tr ss outs. last (calls s') = UpdateStatus tr
     \<and> ends_run (after_runner (job_duration j) outs (ps_runner p) ss) (ps_api_native p) tr
     \<and> (\<forall>q\<in>set (ps_runner p). step_row (steps_of tr) (rs_name q) = Some (runner_row (job_duration j) outs q))"
proof -
  have distinct: "distinct (map rs_name (ps_runner p))" using names by simp
  have other: "rs_name q \<notin> set (map rs_name (ps_api_native p))" if "q \<in> set (ps_runner p)" for q
    using names that by auto
  from wpD [OF wp_reconcile_job_succeeded [OF get ok] run] obtain outs ss tr where
    tr: "last (calls s') = UpdateStatus tr"
      "ends_run (after_runner (job_duration j) outs (ps_runner p) ss) (ps_api_native p) tr" by auto
  have "step_row (steps_of tr) (rs_name q) = Some (runner_row (job_duration j) outs q)"
    if "q \<in> set (ps_runner p)" for q
  proof -
    from tr(2) obtain ok' where
      "fail_fast (ps_api_native p) (after_runner (job_duration j) outs (ps_runner p) ss) (steps_of tr) ok'"
      by (auto simp: ends_run_def)
    from fail_fast_other_rows [OF this other [OF that]] after_runner_row [OF distinct that]
    show ?thesis by simp
  qed
  with tr show ?thesis by auto
qed

lemma job_failed_rows:
  assumes get: "cl_get_job C (runner_key (task s)) (ext s) = (Inr j, w)"
    and failed: "\<not> 0 <s jst_succeeded (job_status j)" "0 <s jst_failed (job_status j)"
    and run: "run_state (reconcile_job C L R p) s = (r, s')"
    and names: "distinct (map rs_name (ps_runner p))"
  shows "\<exists>tr. last (calls s') = UpdateStatus tr \<and> phase_of tr = TaskRunPhaseFailed
     \<and> (\<forall>q\<in>set (ps_runner p). step_row (steps_of tr) (rs_name q) = Some (failed_row (job_duration j) q))"
proof -
  from wpD [OF wp_reconcile_job_failed [OF get failed] run] obtain ss tr where
    tr: "last (calls s') = UpdateStatus tr" "phase_of tr = TaskRunPhaseFailed"
      "steps_of tr = fold (\<lambda>x ss. put_step_status ss x) (map (failed_row (job_duration j)) (ps_runner p)) ss"
    by auto
  with failed_rows [OF names] show ?thesis by auto
qed

section \<open>An example\<close>

definition example_partition :: partitioned_steps where
  "example_partition =
     \<lparr>ps_runner = [example_runner ''a'', example_runner ''b''],
      ps_api_native = [example_native ''c'' ''secret-read''], ps_order = []\<rparr>"

definition finished_job :: job where
  "finished_job =
     example_job\<lparr>job_status := \<lparr>jst_start_time = None, jst_completion_time = None, jst_succeeded = 1, jst_failed = 0\<rparr>\<rparr>"

definition finished_cluster :: cluster where
  "finished_cluster = empty_cluster\<lparr>k_jobs := [NamespacedName ''apps'' ''demo-runner'' \<mapsto> finished_job], k_pods := [''pod'']\<rparr>"

abbreviation example_finished :: "cluster st" where
  "example_finished \<equiv> example_state finished_cluster (example_task_run [] [])"

abbreviation example_reconciler :: reconciler where
  "example_reconciler \<equiv> \<lparr>rec_clientset_set = True\<rparr>"

lemma example_partition_simps [simp]:
  "ps_runner example_partition = [example_runner ''a'', example_runner ''b'']"
  "ps_api_native example_partition = [example_native ''c'' ''secret-read'']"
  "rs_name (example_runner n) = n"
  "rs_name (example_native n act) = n"
  by (simp_all add: example_partition_def example_runner_def example_native_def example_step_def)

lemma example_get_job:
  "cl_get_job example_client (runner_key (task example_finished)) (ext example_finished) = (Inr finished_job, finished_cluster)"
  "0 <s jst_succeeded (job_status finished_job)"
  by (simp_all add: runner_key_def finished_cluster_def finished_job_def example_defs word_sless_alt)

lemma example_runner_key: "runner_key (task example_finished) = NamespacedName ''apps'' ''demo-runner''"
  by (simp add: runner_key_def example_defs)

lemma example_create:
  "CreateJob example_job \<in> set (calls (snd (run_state (create_runner_job example_client example_lib example_partition) example_start)))"
proof -
  have task: "task example_start = example_task_run [] []" by (simp add: example_state_def)
  have "wp (create_runner_job example_client example_lib example_partition)
     (\<lambda>_ s'. CreateJob example_job \<in> set (calls s')) example_start"
    by (simp add: create_runner_job_def submit_job_def task example_build Let_def split: sum.split option.split)
       (simp add: example_build error_text_def Let_def example_defs split: option.split sum.split)
  then show ?thesis by (simp add: wp_def split_beta)
qed

section \<open>Properties\<close>

text \<open>C18: the runner pod can always read its parameters: when there is no Job yet, the controller
  sends the creation of a Job only directly after the API has accepted the ConfigMap of the
  TaskRun's parameters, its creation if there was none and the update of its data if there was
  one, and the name of that ConfigMap is the one the pod's volume refers to. It has a file
  \<open><step>.json\<close> for every runner step and no other, and with distinct step names the content of
  each is that step's parameters as JSON. After the Job come only status updates.\<close>

theorem job_created_after_params:
  assumes "sets_owner L" and "answers_by_name C"
    and "run_state (create_runner_job C L p) s = (r, s')"
  shows "\<exists>cs. calls s' = calls s @ cs
     \<and> (\<forall>j. CreateJob j \<in> set cs \<longrightarrow>
          build L (task s) (ps_runner p) = Some (Inr (Some j))
          \<and> \<lparr>vol_name = params_volume_name, vol_source = ConfigMapSource (nn_name (params_key (task s)))\<rparr>
              \<in> set (ps_volumes (pts_spec (jbs_template (job_spec j))))
          \<and> (\<exists>a w1 cm w2 us d.
               cl_get_config_map C (params_key (task s)) (ext s) = (a, w1)
               \<and> (case a of
                    Inl err \<Rightarrow> is_not_found err \<and> cl_create_config_map C cm w1 = (None, w2)
                      \<and> cs = [GetConfigMap (params_key (task s)), CreateConfigMap cm, CreateJob j] @ us
                  | Inr old \<Rightarrow> cm = old\<lparr>cm_data := Some d\<rparr> \<and> cl_update_config_map C cm w1 = (None, w2)
                      \<and> cs = [GetConfigMap (params_key (task s)), UpdateConfigMap cm, CreateJob j] @ us)
               \<and> meta_key (cm_meta cm) = params_key (task s) \<and> cm_data cm = Some d
               \<and> dom d = (\<lambda>q. rs_name q @ ''.json'') ` set (ps_runner p)
               \<and> (distinct (map rs_name (ps_runner p)) \<longrightarrow>
                    (\<forall>q\<in>set (ps_runner p).
                       d (rs_name q @ ''.json'') = Some (json_marshal_map (ss_params (rs_step q)))))
               \<and> list_all is_status_update us))"
    (is "\<exists>cs. _ \<and> (\<forall>j. _ \<longrightarrow> _ \<and> _ \<and> ?written cs j)")
proof -
  from wpD [OF wp_create_runner_job [OF assms(1,2)] assms(3)] obtain cs where
    cs: "calls s' = calls s @ cs" "creates_after_params C L (task s) (ps_runner p) (ext s) cs" by blast
  have volume: "\<lparr>vol_name = params_volume_name, vol_source = ConfigMapSource (nn_name (params_key (task s)))\<rparr>
      \<in> set (ps_volumes (pts_spec (jbs_template (job_spec j))))"
    if "build L (task s) (ps_runner p) = Some (Inr (Some j))" for j
    using that by (rule buildE) (simp add: job_spec_with_def build_volumes_def params_key_def)
  show ?thesis
  proof (intro exI [of _ cs] conjI allI impI)
    fix j assume "CreateJob j \<in> set cs"
    with cs(2) obtain ps w2 us where built: "build L (task s) (ps_runner p) = Some (Inr (Some j))"
        and wrote: "wrote_params C (task s) (ps_runner p) (ext s) ps w2"
        and split: "cs = ps @ CreateJob j # us" "list_all is_status_update us"
      unfolding creates_after_params_def by blast
    from built show "build L (task s) (ps_runner p) = Some (Inr (Some j))" .
    from volume [OF built] show "\<lparr>vol_name = params_volume_name,
        vol_source = ConfigMapSource (nn_name (params_key (task s)))\<rparr>
      \<in> set (ps_volumes (pts_spec (jbs_template (job_spec j))))" .
    from wrote obtain a w1 cm where written: "cl_get_config_map C (params_key (task s)) (ext s) = (a, w1)"
        "meta_key (cm_meta cm) = params_key (task s)" "cm_data cm = Some (params_data (ps_runner p))"
        "case a of
           Inl err \<Rightarrow> is_not_found err \<and> cl_create_config_map C cm w1 = (None, w2)
             \<and> ps = [GetConfigMap (params_key (task s)), CreateConfigMap cm]
         | Inr old \<Rightarrow> cm = old\<lparr>cm_data := Some (params_data (ps_runner p))\<rparr>
             \<and> cl_update_config_map C cm w1 = (None, w2)
             \<and> ps = [GetConfigMap (params_key (task s)), UpdateConfigMap cm]"
      unfolding wrote_params_def by blast
    show "?written cs j"
      using written split
      by (intro exI [of _ a] exI [of _ w1] exI [of _ cm] exI [of _ w2] exI [of _ us]
            exI [of _ "params_data (ps_runner p)"])
         (auto simp: params_data_dom params_data_distinct split: sum.splits)
  qed (rule cs(1))
qed

theorem job_created_after_params_witness:
  "\<exists>cm w us d. cl_create_config_map example_client cm empty_cluster = (None, w)
     \<and> calls (snd (run_state (create_runner_job example_client example_lib example_partition) example_start))
         = [GetConfigMap (params_key (task example_start)), CreateConfigMap cm, CreateJob example_job] @ us
     \<and> cm_data cm = Some d \<and> dom d = {''a.json'', ''b.json''}"
proof -
  have "calls example_start = []" "ext example_start = empty_cluster"
    by (simp_all add: example_state_def)
  moreover have "cl_get_config_map example_client k empty_cluster = (Inl (NotFound ''not found''), empty_cluster)" for k
    by (simp add: example_defs)
  ultimately show ?thesis
    using job_created_after_params [where p = example_partition and s = example_start,
        OF example_lib_laws(2) example_answers_by_name surjective_pairing] example_create
    by fastforce
qed

text \<open>C39: the controller asks for logs under the names the Job builder gave: without a clientset it
  requests nothing; otherwise it lists the pods of the TaskRun and, if there is one, requests
  from the first the last lines of exactly the init containers of the Job built for the runner
  steps, each once, in order and without the auth container.\<close>

theorem log_requests_match_job:
  assumes built: "build L tr steps = Some (Inr (Some j))"
    and run: "run_state (collect_runner_logs C R steps) s = (r, s')"
  shows "calls s' = calls s @
     (if \<not> rec_clientset_set R then []
      else ListPods (tr_namespace (task s)) (task_run_labels (task s))
        # (case fst (cl_list_pods C (tr_namespace (task s)) (task_run_labels (task s)) (ext s)) of
             Inr (pod # _) \<Rightarrow>
               map (\<lambda>c. PodLogs (tr_namespace (task s)) pod c (Some (int max_log_lines)))
                 (filter (\<lambda>c. c \<noteq> ''auth'')
                    (map ctr_name (ps_init_containers (pts_spec (jbs_template (job_spec j))))))
           | _ \<Rightarrow> []))"
    (is "calls s' = calls s @ ?requests")
proof -
  have names: "filter (\<lambda>c. c \<noteq> ''auth'') (map ctr_name (ps_init_containers (pts_spec (jbs_template (job_spec j)))))
      = names_from step_container_name 0 (map rs_name steps)"
  proof (rule buildE [OF built])
    fix cs assume cs: "step_containers 0 steps = Some cs" and spec: "job_spec j = job_spec_with tr cs"
    have "c \<noteq> ''auth''" if "c \<in> set (names_from step_container_name 0 xs)" for c xs
      using that by (auto simp: in_set_conv_nth names_from_nth)
    then have "filter (\<lambda>c. c \<noteq> ''auth'') (names_from step_container_name 0 xs)
        = names_from step_container_name 0 xs" for xs
      by (simp add: filter_id_conv)
    with step_containers_shape [OF cs] show ?thesis
      by (cases "trs_auth (tr_spec tr)") (simp_all add: spec job_spec_with_def filter_map o_def)
  qed
  have "wp (collect_runner_logs C R steps) (\<lambda>_ s'. calls s' = calls s @ ?requests) s"
    unfolding collect_runner_logs_def names
    by (auto intro!: wp_mono [OF wp_collect_logs_loop_requests] split: sum.split list.split prod.split)
  from wpD [OF this run] show ?thesis .
qed

theorem log_requests_match_job_witness:
  "calls (snd (run_state (collect_runner_logs example_client example_reconciler
         [example_runner ''a'', example_runner ''b'']) example_finished))
     = [ListPods ''apps'' [(''taskrun.io/taskrun'', ''demo'')],
        PodLogs ''apps'' ''pod'' ''step-0-a'' (Some (int max_log_lines)),
        PodLogs ''apps'' ''pod'' ''step-1-b'' (Some (int max_log_lines))]"
proof -
  have digits: "dec 0 = ''0''" "dec 1 = ''1''" by code_simp+
  have "filter (\<lambda>c. c \<noteq> ''auth'') (map ctr_name (ps_init_containers (pts_spec (jbs_template (job_spec example_job)))))
      = [''step-0-a'', ''step-1-b'']"
    by (simp add: example_job_def job_spec_with_def step_container_def step_container_name_def digits
        example_task_run_def example_runner_def example_step_def)
  moreover have "tr_namespace (task example_finished) = ''apps''" "calls example_finished = []"
    "task_run_labels (task example_finished) = [(''taskrun.io/taskrun'', ''demo'')]"
    by (simp_all add: example_state_def example_task_run_def task_run_labels_def)
  moreover have "cl_list_pods example_client ns labels (ext example_finished) = (Inr [''pod''], finished_cluster)"
    for ns labels
    by (simp add: example_state_def example_client_def finished_cluster_def)
  ultimately show ?thesis
    using log_requests_match_job [where C = example_client and R = example_reconciler and s = example_finished,
        OF example_build [of "[]"] surjective_pairing]
    by simp
qed

text \<open>C9: the outcome of the Job decides what happens next: while it has neither succeeded nor
  failed nothing is written and the TaskRun is looked at again after five seconds; once it has
  failed the TaskRun becomes Failed with every runner step Failed; once it has succeeded every
  runner step is Succeeded, with the Job's duration, and the API-native steps run.\<close>

theorem job_outcome_decides:
  assumes get: "cl_get_job C (runner_key (task s)) (ext s) = (Inr j, w)"
    and run: "run_state (reconcile_job C L R p) s = (r, s')"
    and names: "distinct (map rs_name (ps_runner p @ ps_api_native p))"
  shows "if 0 <s jst_succeeded (job_status j) then
           \<exists>tr ss outs. last (calls s') = UpdateStatus tr
             \<and> ends_run (after_runner (job_duration j) outs (ps_runner p) ss) (ps_api_native p) tr
             \<and> (\<forall>q\<in>set (ps_runner p). step_row (steps_of tr) (rs_name q) = Some (runner_row (job_duration j) outs q))
         else if 0 <s jst_failed (job_status j) then
           \<exists>tr. last (calls s') = UpdateStatus tr \<and> phase_of tr = TaskRunPhaseFailed
             \<and> (\<forall>q\<in>set (ps_runner p). step_row (steps_of tr) (rs_name q) = Some (failed_row (job_duration j) q))
         else calls s' = calls s @ [GetJob (runner_key (task s))] \<and> task s' = task s
              \<and> metrics s' = metrics s \<and> r = Returned (5 * second) None"
proof -
  consider (ok) "0 <s jst_succeeded (job_status j)"
    | (failed) "\<not> 0 <s jst_succeeded (job_status j)" "0 <s jst_failed (job_status j)"
    | (unfinished) "\<not> 0 <s jst_succeeded (job_status j)" "\<not> 0 <s jst_failed (job_status j)" by blast
  then show ?thesis
  proof cases
    case ok
    with job_succeeded_rows [OF get ok run names] show ?thesis by simp
  next
    case failed
    with job_failed_rows [OF get failed run] names show ?thesis by simp
  next
    case unfinished
    have "wp (reconcile_job C L R p) (\<lambda>r s'. calls s' = calls s @ [GetJob (runner_key (task s))] \<and> task s' = task s
              \<and> metrics s' = metrics s \<and> r = Returned (5 * second) None) s"
      using get unfinished by (simp add: reconcile_job_def requeue_interval_def)
    from wpD [OF this run] unfinished show ?thesis by simp
  qed
qed

theorem job_outcome_decides_witness:
  "\<exists>tr outs. last (calls (snd (run_state (reconcile_job example_client example_lib example_reconciler example_partition)
        example_finished))) = UpdateStatus tr
     \<and> step_row (steps_of tr) ''a'' = Some (runner_row 0 outs (example_runner ''a''))"
proof -
  have "job_duration finished_job = 0" by (simp add: job_duration_def finished_job_def)
  with job_outcome_decides [where p = example_partition and L = example_lib and R = example_reconciler,
      OF example_get_job(1) surjective_pairing] example_get_job(2)
  show ?thesis by auto
qed

text \<open>C17: API-native steps wait for the Job: in the Job path no request for a Secret or a workload is
  sent before the API has reported the TaskRun's Job as succeeded.\<close>

theorem native_actions_wait_for_job:
  assumes "run_state (reconcile_job C L R p) s = (r, s')"
    and "calls s' = calls s @ cs" and "c \<in> set cs" and "is_action_call c" and "\<not> is_config_map_call c"
  shows "\<exists>j w. cl_get_job C (runner_key (task s)) (ext s) = (Inr j, w) \<and> 0 <s jst_succeeded (job_status j)"
proof (rule ccontr)
  let ?P = "\<lambda>c. is_action_call c \<longrightarrow> is_config_map_call c"
  assume none: "\<not> ?thesis"
  obtain a w where get: "cl_get_job C (runner_key (task s)) (ext s) = (a, w)"
    by (cases "cl_get_job C (runner_key (task s)) (ext s)")
  have "wp (reconcile_job C L R p) (\<lambda>r s'. \<exists>cs. calls s' = calls s @ cs \<and> list_all ?P cs) s"
  proof (cases a)
    case (Inl err)
    have "wp (create_runner_job C L p) (\<lambda>r s'. \<exists>cs. calls s' = calls s @ cs \<and> list_all ?P cs)
        (s\<lparr>ext := w, calls := calls s @ [GetJob (runner_key (task s))]\<rparr>)"
      by (rule wp_mono [OF sends_wp [OF sends_create_runner_job [where P = ?P]]]) auto
    with Inl get show ?thesis by (simp add: reconcile_job_def)
  next
    case (Inr j)
    with none get have no: "\<not> 0 <s jst_succeeded (job_status j)" by blast
    show ?thesis
    proof (cases "0 <s jst_failed (job_status j)")
      case True
      have "list_all ?P ls" if "list_all is_log_call ls" for ls
        using that by (auto simp: list_all_iff elim!: is_log_call.elims)
      with True show ?thesis
        by (intro wp_mono [OF wp_reconcile_job_failed [OF get [unfolded Inr] no]]) auto
    next
      case False
      with get Inr no show ?thesis by (simp add: reconcile_job_def)
    qed
  qed
  from wpD [OF this assms(1)] assms(2-) show False by (auto simp: list_all_iff)
qed

theorem native_actions_wait_for_job_witness:
  "\<exists>j w. cl_get_job example_client (runner_key (task example_finished)) (ext example_finished) = (Inr j, w)
     \<and> 0 <s jst_succeeded (job_status j)"
proof -
  let ?run = "run_state (reconcile_job example_client example_lib \<lparr>rec_clientset_set = False\<rparr> example_partition)
     example_finished"
  have "wp (reconcile_job example_client example_lib \<lparr>rec_clientset_set = False\<rparr> example_partition)
     (\<lambda>_ s'. GetSecret (NamespacedName ''apps'' []) \<in> set (calls s')) example_finished"
    by (simp add: reconcile_job_def runner_key_def collect_runner_logs_def
          collect_runner_outputs_def wp_mark_runner_succeeded_loop execute_api_native_steps_from_partitioned_def
          execute_one_step_def example_native_def resolve_templates_def execute_actions secret_read_def
          new_step_executor_def resolve_namespace_def wp_set_phase mark_failed_def Let_def
          finished_cluster_def finished_job_def word_sless_alt example_partition_def mread_def example_defs)
  then have "GetSecret (NamespacedName ''apps'' []) \<in> set (calls (snd ?run))" by (simp add: wp_def split_beta)
  moreover have "calls (snd ?run) = calls example_finished @ calls (snd ?run)" by (simp add: example_state_def)
  ultimately show ?thesis
    using native_actions_wait_for_job [OF surjective_pairing, where c = "GetSecret (NamespacedName ''apps'' [])"]
    by fastforce
qed

text \<open>C36: the logs of the runner containers never reach the user: the controller requests and
  stores them, and then overwrites the same step statuses; in the status it writes when the
  Job has finished, the logs of every runner step are empty or the text
  \<open>runner job failed\<close>.\<close>

theorem runner_logs_discarded:
  assumes get: "cl_get_job C (runner_key (task s)) (ext s) = (Inr j, w)"
    and finished: "0 <s jst_succeeded (job_status j) \<or> 0 <s jst_failed (job_status j)"
    and run: "run_state (reconcile_job C L R p) s = (r, s')"
    and names: "distinct (map rs_name (ps_runner p @ ps_api_native p))"
  shows "\<exists>tr. last (calls s') = UpdateStatus tr
     \<and> (\<forall>q\<in>set (ps_runner p). \<exists>x. step_row (steps_of tr) (rs_name q) = Some x
          \<and> st_logs x = (if 0 <s jst_succeeded (job_status j) then [] else ''runner job failed''))"
proof (cases "0 <s jst_succeeded (job_status j)")
  case True
  with job_succeeded_rows [OF get True run names] show ?thesis by (auto simp: runner_row_def)
next
  case False
  with finished have "0 <s jst_failed (job_status j)" by simp
  with job_failed_rows [OF get False this run] names False show ?thesis by (auto simp: failed_row_def)
qed

theorem runner_logs_discarded_witness:
  "\<exists>tr x. last (calls (snd (run_state (reconcile_job example_client example_lib example_reconciler example_partition)
        example_finished))) = UpdateStatus tr
     \<and> step_row (steps_of tr) ''a'' = Some x \<and> st_logs x = []"
  using runner_logs_discarded [where p = example_partition and L = example_lib and R = example_reconciler,
      OF example_get_job(1) disjI1 [OF example_get_job(2)] surjective_pairing] example_get_job(2)
  by auto




section \<open>Truncated logs\<close>

text \<open>Truncated logs are the last lines: the result has at most the given number of lines (the
  empty line after a final newline counts), they are the last lines of the text, in order, and
  a text that is short enough is unchanged.\<close>

theorem truncate_lines_keeps_last:
  assumes "0 < n"
  shows "split_on (char_of (10 :: nat)) (truncate_lines text n)
           = drop (length (split_on (char_of (10 :: nat)) text) - n) (split_on (char_of (10 :: nat)) text)
     \<and> length (split_on (char_of (10 :: nat)) (truncate_lines text n))
           = min n (length (split_on (char_of (10 :: nat)) text))
     \<and> (length (split_on (char_of (10 :: nat)) text) \<le> n \<longrightarrow> truncate_lines text n = text)"
proof -
  let ?nl = "char_of (10 :: nat) :: char"
  let ?ls = "split_on ?nl text"
  let ?ls2 = "drop (length ?ls - n) ?ls"
  have "truncate_lines text n = join [?nl] ?ls2"
    by (simp add: truncate_lines_def Let_def)
  moreover have "?ls2 \<noteq> []"
  proof -
    have "0 < length ?ls" by simp
    with assms have "length ?ls - n < length ?ls" by linarith
    then show ?thesis by simp
  qed
  moreover have "\<forall>l\<in>set ?ls2. ?nl \<notin> set l"
    using split_on_no_sep in_set_dropD by metis
  ultimately show ?thesis by (auto simp: split_join)
qed

theorem truncate_lines_keeps_last_witness:
  "length (split_on (char_of (10 :: nat)) (truncate_lines (join [char_of (10 :: nat)] [''a'', ''b'', ''c'']) 2)) = 2"
  using truncate_lines_keeps_last [of 2 "join [char_of (10 :: nat)] [''a'', ''b'', ''c'']"]
  by (simp add: split_join)

end
