(* ===== verification/Lifecycle.thy ===== *)
theory Lifecycle
  imports JobFlow
begin

text \<open>
  One call of \<open>Reconcile\<close>. The contract of the three handlers it hands the steps to is the
  locale \<open>step_handler\<close>; it says which status updates a handler may send. Each handler is an
  interpretation, so is the dispatcher, and the theorems about \<open>Reconcile\<close> use the contract.
\<close>

section \<open>Status updates in the log\<close>

fun update_phase :: "api_call \<Rightarrow> task_run_phase list" where
  "update_phase (UpdateStatus tr) = [phase_of tr]"
| "update_phase _ = []"

definition phases :: "api_call list \<Rightarrow> task_run_phase list" where
  "phases cs = concat (map update_phase cs)"

lemma phases_simps [simp]:
  "phases [] = []"
  "phases (c # cs) = update_phase c @ phases cs"
  "phases (cs @ ds) = phases cs @ phases ds"
  by (simp_all add: phases_def)

lemma phases_member: "p \<in> set (phases cs) \<longleftrightarrow> (\<exists>t. UpdateStatus t \<in> set cs \<and> phase_of t = p)"
proof (induction cs)
  case (Cons c cs)
  then show ?case by (cases c) auto
qed simp

lemma phases_none: "list_all (\<lambda>c. \<not> is_status_update c) cs \<Longrightarrow> phases cs = []"
  by (induction cs) (auto elim: is_status_update.elims update_phase.elims)

lemma phases_action: "list_all is_action_call cs \<Longrightarrow> phases cs = []"
  by (rule phases_none) (auto simp: list_all_iff elim!: is_status_update.elims)

lemma phases_log: "list_all is_log_call cs \<Longrightarrow> phases cs = []"
  by (rule phases_none) (auto simp: list_all_iff elim!: is_status_update.elims)

lemma phases_config_map: "list_all is_config_map_call cs \<Longrightarrow> phases cs = []"
  by (rule phases_none) (auto simp: list_all_iff elim!: is_status_update.elims)

section \<open>The contract of a handler\<close>

definition all_succeeded :: "resolved_step list \<Rightarrow> task_run \<Rightarrow> bool" where
  "all_succeeded resolved tr \<longleftrightarrow>
     (\<forall>q\<in>set resolved. row_phase (steps_of tr) (rs_name q) = Some StepPhaseSucceeded)"

definition ended :: "resolved_step list \<Rightarrow> api_call list \<Rightarrow> bool" where
  \<comment> \<open>the last request is the only status update and ends the TaskRun, truthfully\<close>
  "ended resolved cs \<longleftrightarrow>
     (\<exists>ds tr. cs = ds @ [UpdateStatus tr] \<and> phases ds = [] \<and> terminal (phase_of tr)
        \<and> (phase_of tr = TaskRunPhaseSucceeded \<longrightarrow> distinct (map rs_name resolved) \<longrightarrow> all_succeeded resolved tr))"

definition handled :: "resolved_step list \<Rightarrow> task_run_phase \<Rightarrow> reconcile_result \<Rightarrow> api_call list \<Rightarrow> bool" where
  "handled resolved old r cs \<longleftrightarrow>
     r \<noteq> Panicked \<and> (phases cs = [] \<or> phases cs = [old] \<or> ended resolved cs)"

locale step_handler =
  fixes pre :: "resolved_step list \<Rightarrow> bool"
    and handle :: "'w client \<Rightarrow> lib \<Rightarrow> reconciler \<Rightarrow> resolved_step list \<Rightarrow> ('w, reconcile_result) prog"
  assumes handles: "pre resolved \<Longrightarrow>
    wp (handle C L R resolved)
      (\<lambda>r s'. \<exists>cs. calls s' = calls s @ cs \<and> handled resolved (phase_of (task s)) r cs) s"
begin

lemma returns: "pre resolved \<Longrightarrow> fst (run_state (handle C L R resolved) s) \<noteq> Panicked"
  using handles [of resolved C L R s] by (auto simp: wp_def handled_def split: prod.splits)

end

section \<open>No handler panics\<close>

definition never_panics :: "('w, reconcile_result) prog \<Rightarrow> bool" where
  "never_panics m \<longleftrightarrow> (\<forall>s. wp m (\<lambda>r _. r \<noteq> Panicked) s)"

lemma never_panics_iff: "never_panics m \<longleftrightarrow> (\<forall>s. fst (run_state m s) \<noteq> Panicked)"
  by (simp add: never_panics_def wp_def split_beta)

lemma never_panics_return [simp]: "never_panics (return (Returned d e))"
  by (simp add: never_panics_def)

lemma never_panics_bind: "(\<And>x. never_panics (f x)) \<Longrightarrow> never_panics (State_Monad.bind m f)"
  by (auto simp: never_panics_def wp_run [of m])

lemma never_panics_after_mark [simp]: "never_panics (after_mark m)"
  unfolding after_mark_def by (intro never_panics_bind never_panics_return)

lemma never_panics_if: "(b \<Longrightarrow> never_panics m) \<Longrightarrow> (\<not> b \<Longrightarrow> never_panics n) \<Longrightarrow> never_panics (if b then m else n)"
  by simp

lemma never_panics_case_option:
  "never_panics m \<Longrightarrow> (\<And>x. never_panics (f x)) \<Longrightarrow> never_panics (case o1 of None \<Rightarrow> m | Some x \<Rightarrow> f x)"
  by (cases o1) simp_all

lemma never_panics_case_sum:
  "(\<And>x. never_panics (f x)) \<Longrightarrow> (\<And>x. never_panics (g x)) \<Longrightarrow> never_panics (case o1 of Inl x \<Rightarrow> f x | Inr x \<Rightarrow> g x)"
  by (cases o1) simp_all

lemmas never_panics_rules =
  never_panics_bind never_panics_return never_panics_after_mark never_panics_if
  never_panics_case_option never_panics_case_sum

lemma never_panics_partitioned_loop [simp]: "never_panics (partitioned_loop C L e steps)"
  by (induction steps) (simp_all add: never_panics_bind never_panics_case_option)

lemma never_panics_native [simp]: "never_panics (execute_api_native_steps C L steps)"
  unfolding execute_api_native_steps_def native_loop_partitioned
  by (intro never_panics_bind never_panics_partitioned_loop)

lemma never_panics_from_partitioned [simp]: "never_panics (execute_api_native_steps_from_partitioned C L p)"
  unfolding execute_api_native_steps_from_partitioned_def
  by (intro never_panics_rules never_panics_partitioned_loop)

lemma never_panics_submit_job:
  assumes "steps \<noteq> []" and "list_all is_runner steps"
  shows "never_panics (submit_job C L steps)"
  unfolding submit_job_def
proof (rule never_panics_bind)
  fix tr
  have "build L tr steps \<noteq> None" "build L tr steps \<noteq> Some (Inr None)"
    using assms by (simp_all add: build_None build_nil)
  then show "never_panics (case build L tr steps of
        None \<Rightarrow> return Panicked
      | Some (Inl err) \<Rightarrow> after_mark (mark_failed C L ''JobBuildFailed'' err)
      | Some (Inr None) \<Rightarrow> return Panicked
      | Some (Inr (Some j)) \<Rightarrow> do {
          c \<leftarrow> request (CreateJob j) (cl_create_job C j);
          (case c of
             Some err \<Rightarrow> return (Returned 0 (Some (''creating Job: '' @ api_error_text err)))
           | None \<Rightarrow> do {
               mark_running_loop steps;
               u \<leftarrow> update_status C;
               (case u of
                  Some err \<Rightarrow> return (Returned 0 (Some (''updating step statuses: '' @ api_error_text err)))
                | None \<Rightarrow> return (Returned requeue_interval None)) }) })"
    by (auto intro!: never_panics_rules split: option.split sum.split)
qed

lemma never_panics_reconcile_job:
  assumes "ps_runner p \<noteq> []" and "list_all is_runner (ps_runner p)"
  shows "never_panics (reconcile_job C L R p)"
  unfolding reconcile_job_def create_runner_job_def
  by (intro never_panics_rules never_panics_submit_job never_panics_from_partitioned assms)

lemma never_panics_reconcile_cron_job:
  assumes "ps_runner p \<noteq> []" and "list_all is_runner (ps_runner p)"
  shows "never_panics (reconcile_cron_job C L p)"
  unfolding reconcile_cron_job_def
proof (rule never_panics_bind)
  fix tr
  have "build_cron_job L tr (ps_runner p) \<noteq> None"
    using assms by (simp add: build_cron_job_None)
  then show "never_panics (State_Monad.bind (request (GetCronJob (runner_key tr)) (cl_get_cron_job C (runner_key tr)))
     (\<lambda>r. case r of
        Inl err \<Rightarrow>
          if is_not_found err then
            (case build_cron_job L tr (ps_runner p) of
               None \<Rightarrow> return Panicked
             | Some (Inl err2) \<Rightarrow> after_mark (mark_failed C L ''CronJobBuildFailed'' err2)
             | Some (Inr cronJob) \<Rightarrow> do {
                 c \<leftarrow> request (CreateCronJob cronJob) (cl_create_cron_job C cronJob);
                 (case c of
                    Some err2 \<Rightarrow> return (Returned 0 (Some (''creating CronJob: '' @ api_error_text err2)))
                  | None \<Rightarrow> return (Returned 0 None)) })
          else return (Returned 0 (Some (''getting CronJob: '' @ api_error_text err)))
      | Inr existingCronJob \<Rightarrow> return (Returned 0 None)))"
    by (auto intro!: never_panics_rules split: option.split sum.split)
qed

section \<open>The handlers keep the contract\<close>

definition status_ok :: "resolved_step list \<Rightarrow> task_run_phase \<Rightarrow> api_call list \<Rightarrow> bool" where
  "status_ok resolved old cs \<longleftrightarrow> phases cs = [] \<or> phases cs = [old] \<or> ended resolved cs"

lemma handledI:
  assumes "never_panics m"
    and "wp m (\<lambda>_ s'. \<exists>cs. calls s' = calls s @ cs \<and> status_ok resolved old cs) s"
  shows "wp m (\<lambda>r s'. \<exists>cs. calls s' = calls s @ cs \<and> handled resolved old r cs) s"
proof -
  have "wp m (\<lambda>r s'. r \<noteq> Panicked \<and> (\<exists>cs. calls s' = calls s @ cs \<and> status_ok resolved old cs)) s"
    using assms by (simp add: wp_conj never_panics_def)
  then show ?thesis
    by (rule wp_mono) (auto simp: handled_def status_ok_def)
qed

lemma status_ok_failed:
  "phases cs = [] \<Longrightarrow> phase_of tr = TaskRunPhaseFailed \<Longrightarrow> status_ok resolved old (cs @ [UpdateStatus tr])"
  by (auto simp: status_ok_def ended_def)

lemma status_ok_run:
  assumes "ends_run ss steps tr" and "phases cs = []"
    and "fail_fast steps ss (steps_of tr) True \<Longrightarrow> distinct (map rs_name resolved) \<Longrightarrow> all_succeeded resolved tr"
  shows "status_ok resolved old (cs @ [UpdateStatus tr])"
  using assms unfolding status_ok_def ended_def ends_run_def by auto

lemma wp_mark_failed_ok:
  assumes "calls s1 = calls s @ cs" and "phases cs = []"
  shows "wp (mark_failed C L reason message)
     (\<lambda>_ s'. \<exists>cs. calls s' = calls s @ cs \<and> status_ok resolved old cs) s1"
  by (rule wp_mono [OF wp_mark_failed_status])
     (use assms in \<open>auto intro!: status_ok_failed\<close>)

interpretation native_handler:
  step_handler "list_all (\<lambda>r. \<not> is_runner r)" "\<lambda>C L R resolved. execute_api_native_steps C L resolved"
proof
  fix resolved :: "resolved_step list" and C :: "'w client" and L and R :: reconciler and s :: "'w st"
  assume native: "list_all (\<lambda>r. \<not> is_runner r) resolved"
  then have eq: "filter (\<lambda>r. \<not> is_runner r) resolved = resolved"
    by (simp add: filter_id_conv list_all_iff)
  have ok: "status_ok resolved old (cs @ [UpdateStatus tr])"
    if "list_all is_action_call cs" "ends_run (steps_of (task s)) resolved tr" for cs tr old
    using status_ok_run [OF that(2) phases_action [OF that(1)]] fail_fast_all_succeeded
    by (auto simp: all_succeeded_def)
  show "wp (execute_api_native_steps C L resolved)
      (\<lambda>r s'. \<exists>cs. calls s' = calls s @ cs \<and> handled resolved (phase_of (task s)) r cs) s"
    by (rule handledI [OF never_panics_native], rule wp_mono [OF wp_native_steps]) (use ok eq in auto)
qed

lemma wp_ensure_params_quiet:
  "wp (ensure_params_config_map C L steps)
     (\<lambda>e s'. task s' = task s \<and> (\<exists>cs. calls s' = calls s @ cs \<and> phases cs = [])) s"
  by (auto simp: Let_def split: sum.split prod.split)

lemma wp_submit_job_ok:
  assumes "calls s1 = calls s @ cs" and "phases cs = []" and "phase_of (task s1) = old"
  shows "wp (submit_job C L steps)
     (\<lambda>_ s'. \<exists>cs. calls s' = calls s @ cs \<and> status_ok resolved old cs) s1"
proof (cases "build L (task s1) steps")
  case None
  with assms show ?thesis by (auto simp: submit_job_def status_ok_def)
next
  case (Some b)
  show ?thesis
  proof (cases b)
    case (Inl err)
    with Some show ?thesis by (simp add: submit_job_def wp_mark_failed_ok [OF assms(1,2)])
  next
    case (Inr j)
    with Some assms show ?thesis
      by (cases j) (auto simp: submit_job_def status_ok_def split: prod.splits sum.splits option.splits)
  qed
qed

lemma wp_reconcile_job_ok:
  fixes C :: "'w client"
  assumes all: "set resolved = set (ps_runner p) \<union> set (ps_api_native p)"
    and names: "distinct (map rs_name resolved) \<Longrightarrow> distinct (map rs_name (ps_runner p @ ps_api_native p))"
  shows "wp (reconcile_job C L R p)
     (\<lambda>_ s'. \<exists>cs. calls s' = calls s @ cs \<and> status_ok resolved (phase_of (task s)) cs) s"
    (is "wp _ ?Q s")
proof -
  let ?key = "runner_key (task s)"
  obtain a w where get: "cl_get_job C ?key (ext s) = (a, w)" by (cases "cl_get_job C ?key (ext s)")
  let ?s1 = "s\<lparr>ext := w, calls := calls s @ [GetJob ?key]\<rparr>"
  show ?thesis
  proof (cases a)
    case (Inl err)
    have "wp (create_runner_job C L p) ?Q ?s1"
      unfolding create_runner_job_def wp_bind_fun
    proof (rule wp_mono [OF wp_ensure_params_quiet])
      fix e :: "string option" and s2 :: "'w st"
      assume "task s2 = task ?s1 \<and> (\<exists>cs. calls s2 = calls ?s1 @ cs \<and> phases cs = [])"
      then obtain cs where s2: "calls s2 = calls s @ GetJob ?key # cs" "phases (GetJob ?key # cs) = []"
        "phase_of (task s2) = phase_of (task s)" by auto
      show "wp (case e of Some err \<Rightarrow> after_mark (mark_failed C L ''ParamsConfigMapFailed'' err)
          | None \<Rightarrow> submit_job C L (ps_runner p)) ?Q s2"
        using wp_mark_failed_ok [OF s2(1,2)] wp_submit_job_ok [OF s2] by (cases e) simp_all
    qed
    with get Inl show ?thesis by (simp add: reconcile_job_def status_ok_def)
  next
    case (Inr j)
    note got = get [unfolded Inr]
    consider (ok) "0 <s jst_succeeded (job_status j)"
      | (failed) "\<not> 0 <s jst_succeeded (job_status j)" "0 <s jst_failed (job_status j)"
      | (unfinished) "\<not> 0 <s jst_succeeded (job_status j)" "\<not> 0 <s jst_failed (job_status j)" by blast
    then show ?thesis
    proof cases
      case ok
      have ended: "status_ok resolved old (GetJob ?key # ls @ cs @ [UpdateStatus tr])"
        if calls: "list_all is_log_call ls" "list_all is_action_call cs"
          and run: "ends_run (after_runner (job_duration j) outs (ps_runner p) ss) (ps_api_native p) tr"
        for ls cs tr outs ss old
      proof -
        have "all_succeeded resolved tr"
          if run: "fail_fast (ps_api_native p) (after_runner (job_duration j) outs (ps_runner p) ss) (steps_of tr) True"
            and "distinct (map rs_name resolved)"
        proof -
          have distinct: "distinct (map rs_name (ps_runner p @ ps_api_native p))" using names that(2) by simp
          have "row_phase (steps_of tr) (rs_name q) = Some StepPhaseSucceeded" if "q \<in> set (ps_runner p)" for q
            using fail_fast_other_rows [OF run, of "rs_name q"] after_runner_row [OF _ that] distinct that
            by (force simp: row_phase_def runner_row_def)
          moreover have "row_phase (steps_of tr) (rs_name q) = Some StepPhaseSucceeded"
            if "q \<in> set (ps_api_native p)" for q
            using fail_fast_all_succeeded [OF run] that by simp
          ultimately show ?thesis using all by (auto simp: all_succeeded_def)
        qed
        with status_ok_run [OF run, of "GetJob ?key # ls @ cs"] calls phases_log phases_action
        show ?thesis by simp
      qed
      show ?thesis
        by (rule wp_mono [OF wp_reconcile_job_succeeded [OF got ok]]) (use ended in blast)
    next
      case failed
      show ?thesis
        by (rule wp_mono [OF wp_reconcile_job_failed [OF got failed]])
           (use status_ok_failed [of "GetJob ?key # _"] phases_log in fastforce)
    next
      case unfinished
      with got show ?thesis by (simp add: reconcile_job_def status_ok_def)
    qed
  qed
qed

lemma partition_all:
  "set resolved = set (ps_runner (partition_steps resolved)) \<union> set (ps_api_native (partition_steps resolved))"
  by auto

lemma distinct_filters:
  "distinct (map f xs) \<Longrightarrow> distinct (map f (filter P xs @ filter (\<lambda>x. \<not> P x) xs))"
  by (induction xs) auto

lemma partition_names:
  "distinct (map rs_name resolved) \<Longrightarrow>
     distinct (map rs_name (ps_runner (partition_steps resolved) @ ps_api_native (partition_steps resolved)))"
  using distinct_filters [of rs_name resolved is_runner] by simp

lemma partition_runners: "list_all is_runner (ps_runner (partition_steps resolved))"
  by (simp add: list_all_iff)

interpretation job_handler:
  step_handler "\<lambda>resolved. ps_runner (partition_steps resolved) \<noteq> []"
    "\<lambda>C L R resolved. reconcile_job C L R (partition_steps resolved)"
proof
  fix resolved :: "resolved_step list" and C :: "'w client" and L and R :: reconciler and s :: "'w st"
  assume "ps_runner (partition_steps resolved) \<noteq> []"
  then show "wp (reconcile_job C L R (partition_steps resolved))
      (\<lambda>r s'. \<exists>cs. calls s' = calls s @ cs \<and> handled resolved (phase_of (task s)) r cs) s"
    by (intro handledI never_panics_reconcile_job partition_runners wp_reconcile_job_ok
        partition_all partition_names)
qed

lemma wp_reconcile_cron_job_ok:
  "wp (reconcile_cron_job C L p) (\<lambda>_ s'. \<exists>cs. calls s' = calls s @ cs \<and> status_ok resolved old cs) s"
proof -
  let ?key = "runner_key (task s)"
  obtain a w where get: "cl_get_cron_job C ?key (ext s) = (a, w)" by (cases "cl_get_cron_job C ?key (ext s)")
  show ?thesis
  proof (cases a)
    case (Inr cj)
    with get show ?thesis by (simp add: reconcile_cron_job_def status_ok_def)
  next
    case (Inl err)
    show ?thesis
    proof (cases "build_cron_job L (task s) (ps_runner p)")
      case None
      with get Inl show ?thesis by (simp add: reconcile_cron_job_def status_ok_def)
    next
      case (Some b)
      then show ?thesis
        using get Inl wp_mark_failed_ok [of "s\<lparr>ext := w, calls := calls s @ [GetCronJob ?key]\<rparr>" s "[GetCronJob ?key]"]
        by (cases b) (auto simp: reconcile_cron_job_def status_ok_def split: option.split prod.split)
    qed
  qed
qed

interpretation cron_job_handler:
  step_handler "\<lambda>resolved. ps_runner (partition_steps resolved) \<noteq> []"
    "\<lambda>C L R resolved. reconcile_cron_job C L (partition_steps resolved)"
proof
  fix resolved :: "resolved_step list" and C :: "'w client" and L and R :: reconciler and s :: "'w st"
  assume "ps_runner (partition_steps resolved) \<noteq> []"
  then show "wp (reconcile_cron_job C L (partition_steps resolved))
      (\<lambda>r s'. \<exists>cs. calls s' = calls s @ cs \<and> handled resolved (phase_of (task s)) r cs) s"
    by (intro handledI never_panics_reconcile_cron_job partition_runners wp_reconcile_cron_job_ok)
qed

interpretation dispatch_handler: step_handler "\<lambda>_. True" dispatch_steps
proof
  fix resolved :: "resolved_step list" and C :: "'w client" and L R and s :: "'w st"
  show "wp (dispatch_steps C L R resolved)
      (\<lambda>r s'. \<exists>cs. calls s' = calls s @ cs \<and> handled resolved (phase_of (task s)) r cs) s"
  proof (cases "ps_runner (partition_steps resolved) = []")
    case True
    then have "list_all (\<lambda>r. \<not> is_runner r) resolved"
      by (auto simp: filter_empty_conv list_all_iff)
    with True native_handler.handles show ?thesis by (simp add: dispatch_steps_def Let_def)
  next
    case False
    with job_handler.handles [OF False, of C L R s] cron_job_handler.handles [OF False, of C L s]
    show ?thesis
      by (simp add: dispatch_steps_def Let_def)
  qed
qed

section \<open>Reconcile\<close>

lemma wp_resolve_loop_steps:
  "wp (resolve_loop C L r steps resolved unresolved)
     (\<lambda>x _. snd x = [] \<longrightarrow> unresolved = [] \<and> map rs_step (fst x) = map rs_step resolved @ steps) s"
proof (induction steps arbitrary: r resolved unresolved s)
  case Nil
  then show ?case by simp
next
  case (Cons step steps)
  show ?case
    unfolding resolve_loop.simps wp_bind
    by (rule wp_mono [OF frame_resolve])
       (auto split: prod.splits sum.splits intro: wp_mono [OF Cons.IH])
qed

lemma wp_resolve_all_steps:
  "wp (resolve_all C L r steps) (\<lambda>x s'. (\<forall>resolved. x = Inr resolved \<longrightarrow> map rs_step resolved = steps)
     \<and> task s' = task s \<and> (\<exists>cs. calls s' = calls s @ cs \<and> list_all is_definition_read cs)) s"
proof -
  have "wp (resolve_all C L r steps) (\<lambda>x s'. \<forall>resolved. x = Inr resolved \<longrightarrow> map rs_step resolved = steps) s"
    unfolding resolve_all_def wp_bind
    by (rule wp_mono [OF wp_resolve_loop_steps]) (auto split: prod.splits)
  with frame_resolve_all [of C L r steps s] sends_wp [OF sends_resolve_all, of C L r steps s]
  show ?thesis by (simp add: wp_conj)
qed

definition echoes_phase :: "'w client \<Rightarrow> bool" where
  \<comment> \<open>the object that a status update answers with has the phase that was sent\<close>
  "echoes_phase C \<longleftrightarrow>
     (\<forall>tr w tr' w'. cl_update_status C tr w = (Inr tr', w') \<longrightarrow> phase_of tr' = phase_of tr)"

definition initial_phase :: "task_run_phase \<Rightarrow> bool" where
  "initial_phase p \<longleftrightarrow> p = TaskRunPhaseUnset \<or> p = TaskRunPhasePending"

definition valid_steps :: "lib \<Rightarrow> resolved_step list \<Rightarrow> bool" where
  "valid_steps L resolved \<longleftrightarrow>
     validate_step_params L resolved = None \<and> validate_step_ordering L resolved = None"

definition validated_calls :: "lib \<Rightarrow> resolved_step list \<Rightarrow> task_run_phase \<Rightarrow> api_call list \<Rightarrow> bool" where
  \<comment> \<open>what \<open>Reconcile\<close> may send once the steps are resolved, from the phase \<open>old\<close>\<close>
  "validated_calls L resolved old cs \<longleftrightarrow>
     (\<exists>tr. cs = [UpdateStatus tr] \<and> phase_of tr = TaskRunPhaseFailed)
     \<or> valid_steps L resolved
       \<and> (if initial_phase old then
            \<exists>tr ds. phase_of tr = TaskRunPhaseRunning \<and> cs = UpdateStatus tr # ds
              \<and> status_ok resolved TaskRunPhaseRunning ds
          else status_ok resolved old cs)"

lemma handled_status_ok: "handled resolved old r cs \<Longrightarrow> status_ok resolved old cs"
  by (simp add: handled_def status_ok_def)

lemma echoed:
  "echoes_phase C \<Longrightarrow> cl_update_status C tr w = (Inr tr', w') \<Longrightarrow> phase_of tr' = phase_of tr"
  unfolding echoes_phase_def by blast

lemma wp_start:
  assumes "echoes_phase C"
  shows "wp (set_phase C TaskRunPhaseRunning) (\<lambda>e s'. \<exists>tr. calls s' = calls s @ [UpdateStatus tr]
     \<and> phase_of tr = TaskRunPhaseRunning \<and> (e = None \<longrightarrow> phase_of (task s') = TaskRunPhaseRunning)) s"
  by (auto simp: wp_set_phase Let_def dest: echoed [OF assms] split: prod.split sum.split)

lemma wp_reconcile_validated:
  fixes C :: "'w client"
  assumes "echoes_phase C"
  shows "wp (reconcile_validated C L R resolved)
     (\<lambda>r s'. \<exists>cs. calls s' = calls s @ cs \<and> validated_calls L resolved (phase_of (task s)) cs) s"
    (is "wp _ ?Q s")
proof -
  have failed: "wp (mark_failed C L reason message) (\<lambda>e. ?Q (Returned 0 (error_text e))) s" for reason message
    by (rule wp_mono [OF wp_mark_failed_status]) (auto simp: validated_calls_def)
  have go: "wp (dispatch_steps C L R resolved) ?Q s"
    if "valid_steps L resolved" "\<not> initial_phase (phase_of (task s))"
    by (rule wp_mono [OF dispatch_handler.handles [OF TrueI]])
       (use that in \<open>auto simp: validated_calls_def dest: handled_status_ok\<close>)
  have start: "wp (do { init_step_statuses resolved;
        e \<leftarrow> set_phase C TaskRunPhaseRunning;
        (case e of
           Some err \<Rightarrow> return (Returned 0 (Some (''setting Running phase: '' @ api_error_text err)))
         | None \<Rightarrow> dispatch_steps C L R resolved) }) ?Q s"
    if valid: "valid_steps L resolved" and init: "initial_phase (phase_of (task s))"
    unfolding wp_bind wp_init_step_statuses
  proof (rule wp_mono [OF wp_start [OF assms]])
    let ?s0 = "s\<lparr>task := (task s)\<lparr>tr_status := (tr_status (task s))\<lparr>ts_steps := map pending_status resolved\<rparr>\<rparr>\<rparr>"
    fix e :: "api_error option" and s1 :: "'w st"
    assume "\<exists>tr. calls s1 = calls ?s0 @ [UpdateStatus tr] \<and> phase_of tr = TaskRunPhaseRunning
       \<and> (e = None \<longrightarrow> phase_of (task s1) = TaskRunPhaseRunning)"
    then obtain tr where s1: "calls s1 = calls s @ [UpdateStatus tr]" "phase_of tr = TaskRunPhaseRunning"
      "e = None \<Longrightarrow> phase_of (task s1) = TaskRunPhaseRunning" by auto
    show "wp (case e of
           Some err \<Rightarrow> return (Returned 0 (Some (''setting Running phase: '' @ api_error_text err)))
         | None \<Rightarrow> dispatch_steps C L R resolved) ?Q s1"
    proof (cases e)
      case (Some err)
      have "validated_calls L resolved (phase_of (task s)) [UpdateStatus tr]"
        using valid init s1(2) by (simp add: validated_calls_def status_ok_def)
      with s1(1) Some show ?thesis by auto
    next
      case None
      have "wp (dispatch_steps C L R resolved) ?Q s1"
      proof (rule wp_mono [OF dispatch_handler.handles [OF TrueI]])
        fix r and s' :: "'w st"
        assume "\<exists>cs. calls s' = calls s1 @ cs \<and> handled resolved (phase_of (task s1)) r cs"
        then obtain cs where "calls s' = calls s @ UpdateStatus tr # cs" "status_ok resolved TaskRunPhaseRunning cs"
          using s1 None by (auto dest: handled_status_ok)
        with valid init s1(2) show "?Q r s'"
          by (intro exI [of _ "UpdateStatus tr # cs"]) (simp add: validated_calls_def)
      qed
      with None show ?thesis by simp
    qed
  qed
  show ?thesis
    using failed go start unfolding initial_phase_def valid_steps_def
    by (auto simp: reconcile_validated_def split: option.split)
qed

definition reconciled :: "lib \<Rightarrow> namespaced_name \<Rightarrow> task_run \<Rightarrow> api_call list \<Rightarrow> bool" where
  "reconciled L req tr cs \<longleftrightarrow>
     (if terminal (phase_of tr) then cs = [GetTaskRun req]
      else \<exists>rs ds resolved. cs = GetTaskRun req # rs @ ds \<and> list_all is_definition_read rs
        \<and> map rs_step resolved = trs_steps (tr_spec tr) \<and> validated_calls L resolved (phase_of tr) ds
        \<or> (\<exists>t. cs = GetTaskRun req # rs @ [UpdateStatus t] \<and> list_all is_definition_read rs
             \<and> phase_of t = TaskRunPhaseFailed))"

lemma wp_reconcile:
  fixes C :: "'w client"
  assumes "echoes_phase C"
  shows "wp (reconcile C L R req) (\<lambda>r s'. \<exists>cs. calls s' = calls s @ cs
     \<and> (case fst (cl_get_task_run C req (ext s)) of
          Inl err \<Rightarrow> cs = [GetTaskRun req]
        | Inr tr \<Rightarrow> reconciled L req tr cs)) s"
    (is "wp _ ?Q s")
proof -
  obtain a w where get: "cl_get_task_run C req (ext s) = (a, w)" by (cases "cl_get_task_run C req (ext s)")
  show ?thesis
  proof (cases a)
    case (Inl err)
    with get show ?thesis by (simp add: reconcile_def)
  next
    case (Inr tr)
    let ?s1 = "s\<lparr>ext := w, calls := calls s @ [GetTaskRun req], task := tr\<rparr>"
    show ?thesis
    proof (cases "terminal (phase_of tr)")
      case True
      with get Inr show ?thesis by (auto simp: reconcile_def reconciled_def terminal_def)
    next
      case False
      let ?rest = "\<lambda>x. case x of Inl err \<Rightarrow> after_mark (mark_failed C L ''ResolutionFailed'' err)
          | Inr resolved \<Rightarrow> reconcile_validated C L R resolved"
      have "wp (resolve_all C L (new_step_resolver (tr_namespace tr)) (trs_steps (tr_spec tr)))
          (\<lambda>x. wp (?rest x) ?Q) ?s1"
      proof (rule wp_mono [OF wp_resolve_all_steps])
        fix x :: "string + resolved_step list" and s2 :: "'w st"
        assume "(\<forall>resolved. x = Inr resolved \<longrightarrow> map rs_step resolved = trs_steps (tr_spec tr))
          \<and> task s2 = task ?s1 \<and> (\<exists>cs. calls s2 = calls ?s1 @ cs \<and> list_all is_definition_read cs)"
        then obtain rs where s2: "task s2 = tr" "calls s2 = calls s @ GetTaskRun req # rs"
            "list_all is_definition_read rs"
          and steps: "\<And>resolved. x = Inr resolved \<Longrightarrow> map rs_step resolved = trs_steps (tr_spec tr)" by auto
        show "wp (?rest x) ?Q s2"
        proof (cases x)
          case (Inl err)
          have "wp (mark_failed C L ''ResolutionFailed'' err) (\<lambda>e. ?Q (Returned 0 (error_text e))) s2"
            by (rule wp_mono [OF wp_mark_failed_status])
               (use s2 get Inr False in \<open>auto simp: reconciled_def\<close>)
          with Inl show ?thesis by simp
        next
          case x: (Inr resolved)
          have "wp (reconcile_validated C L R resolved) ?Q s2"
          proof (rule wp_mono [OF wp_reconcile_validated [OF assms]])
            fix r and s' :: "'w st"
            assume "\<exists>cs. calls s' = calls s2 @ cs \<and> validated_calls L resolved (phase_of (task s2)) cs"
            then obtain ds where "calls s' = calls s @ GetTaskRun req # rs @ ds"
              "validated_calls L resolved (phase_of tr) ds" using s2 by auto
            then show "?Q r s'"
              using steps [OF x] s2 get Inr False
              by (intro exI [of _ "GetTaskRun req # rs @ ds"]) (auto simp: reconciled_def)
          qed
          with x show ?thesis by simp
        qed
      qed
      with get Inr False show ?thesis by (simp add: reconcile_def terminal_def)
    qed
  qed
qed

lemma never_panics_reconcile: "never_panics (reconcile C L R req)"
proof -
  have "never_panics (dispatch_steps C L R resolved)" for resolved
    unfolding never_panics_iff using dispatch_handler.returns [OF TrueI] by blast
  then have "never_panics (reconcile_validated C L R resolved)" for resolved
    unfolding reconcile_validated_def by (intro never_panics_rules)
  then show ?thesis
    unfolding reconcile_def by (intro never_panics_rules)
qed

lemma reconciled_cases:
  assumes "reconciled L req tr cs"
  obtains (terminal) "terminal (phase_of tr)" "cs = [GetTaskRun req]"
    | (rejected) rs t where "\<not> terminal (phase_of tr)" "cs = GetTaskRun req # rs @ [UpdateStatus t]"
        "list_all is_definition_read rs" "phase_of t = TaskRunPhaseFailed"
    | (started) rs t ds resolved where "\<not> terminal (phase_of tr)" "initial_phase (phase_of tr)"
        "cs = GetTaskRun req # rs @ UpdateStatus t # ds" "list_all is_definition_read rs"
        "phase_of t = TaskRunPhaseRunning" "map rs_step resolved = trs_steps (tr_spec tr)"
        "valid_steps L resolved" "status_ok resolved TaskRunPhaseRunning ds"
    | (continued) rs ds resolved where "\<not> terminal (phase_of tr)" "\<not> initial_phase (phase_of tr)"
        "cs = GetTaskRun req # rs @ ds" "list_all is_definition_read rs"
        "map rs_step resolved = trs_steps (tr_spec tr)" "valid_steps L resolved"
        "status_ok resolved (phase_of tr) ds"
proof (cases "terminal (phase_of tr)")
  case True
  with assms show ?thesis by (intro that(1)) (simp_all add: reconciled_def)
next
  case False
  from assms False obtain rs ds resolved where
    "cs = GetTaskRun req # rs @ ds \<and> list_all is_definition_read rs
        \<and> map rs_step resolved = trs_steps (tr_spec tr) \<and> validated_calls L resolved (phase_of tr) ds
     \<or> (\<exists>t. cs = GetTaskRun req # rs @ [UpdateStatus t] \<and> list_all is_definition_read rs
             \<and> phase_of t = TaskRunPhaseFailed)"
    by (auto simp: reconciled_def)
  then show ?thesis
    unfolding validated_calls_def using that(2-4) False
    by (elim disjE conjE exE) (auto split: if_splits)
qed

lemma phases_reads: "list_all is_definition_read cs \<Longrightarrow> phases cs = []"
  by (rule phases_none) (auto simp: list_all_iff elim!: is_status_update.elims)

definition forward :: "task_run_phase \<Rightarrow> task_run_phase list \<Rightarrow> bool" where
  \<comment> \<open>\<open>ps\<close> follows \<open>p\<close> along the life cycle, and nothing follows a terminal phase\<close>
  "forward p ps \<longleftrightarrow> sorted_wrt (\<le>) (p # ps) \<and> list_all (\<lambda>q. \<not> terminal q) (butlast ps)
     \<and> (terminal p \<longrightarrow> ps = [])"

lemma reconciled_forward:
  assumes "reconciled L req tr cs"
  shows "forward (phase_of tr) (phases cs)"
  using assms
proof (cases rule: reconciled_cases)
  case terminal
  then show ?thesis by (simp add: forward_def)
next
  case (rejected rs t)
  then show ?thesis by (simp add: forward_def phases_reads terminal_top)
next
  case (started rs t ds resolved)
  have low: "phase_of tr \<le> q" for q
    using started(2) by (auto simp: initial_phase_def less_eq_task_run_phase_def)
  from started(8) consider "phases ds = []" | "phases ds = [TaskRunPhaseRunning]" | "ended resolved ds"
    by (auto simp: status_ok_def)
  then show ?thesis
    by cases (use started low in \<open>auto simp: forward_def phases_reads ended_def terminal_top\<close>)
next
  case (continued rs ds resolved)
  from continued(7) consider "phases ds = []" | "phases ds = [phase_of tr]" | "ended resolved ds"
    by (auto simp: status_ok_def)
  then show ?thesis
    by cases (use continued in \<open>auto simp: forward_def phases_reads ended_def terminal_top\<close>)
qed

section \<open>An example\<close>

text \<open>A TaskRun with a wait step and a secret-update step, from creation to success in one call.\<close>

definition example_spec :: "step_spec list" where
  "example_spec = [example_step ''a'' ''wait'' [], example_step ''b'' ''secret-update'' [(''secretName'', ''db'')]]"

definition example_cluster :: cluster where
  "example_cluster = empty_cluster\<lparr>
     k_cluster_step_definitions :=
       [''wait'' \<mapsto> example_csd ''wait'' None, ''secret-update'' \<mapsto> example_csd ''secret-update'' None],
     k_task_runs := [NamespacedName ''apps'' ''demo'' \<mapsto> example_task_run [] example_spec]\<rparr>"

definition example_before :: "cluster st" where
  "example_before = example_state example_cluster (example_task_run [] [])"

definition example_after :: "reconcile_result \<times> cluster st" where
  "example_after = run_state (reconcile example_client example_lib \<lparr>rec_clientset_set = False\<rparr>
     (NamespacedName ''apps'' ''demo'')) example_before"

lemma example_run:
  "run_state (reconcile example_client example_lib \<lparr>rec_clientset_set = False\<rparr>
     (NamespacedName ''apps'' ''demo'')) example_before = (fst example_after, snd example_after)"
  by (simp add: example_after_def)

lemma example_log: "calls (snd example_after) = calls example_before @ calls (snd example_after)"
  by (simp add: example_before_def example_state_def)

lemma example_get:
  "fst (cl_get_task_run example_client (NamespacedName ''apps'' ''demo'') (ext example_before)) =
     Inr (example_task_run [] example_spec)"
  by (simp add: example_before_def example_state_def example_client_def found_def example_cluster_def)

lemma example_echoes: "echoes_phase example_client"
  by (simp add: echoes_phase_def example_client_def)

lemma example_plain_value: "resolve_value outs ''db'' = Inr ''db''"
  by (simp add: resolve_value_def match_template_def)

lemma example_calls:
  "phases (calls (snd example_after)) = [TaskRunPhaseRunning, TaskRunPhaseSucceeded]"
  "GetSecret (NamespacedName ''apps'' ''db'') \<in> set (calls (snd example_after))"
  "fst example_after = Returned 0 None"
  "is_status_update (last (calls (snd example_after)))"
proof -
  have "wp (reconcile example_client example_lib \<lparr>rec_clientset_set = False\<rparr> (NamespacedName ''apps'' ''demo''))
     (\<lambda>r s'. phases (calls s') = [TaskRunPhaseRunning, TaskRunPhaseSucceeded]
        \<and> GetSecret (NamespacedName ''apps'' ''db'') \<in> set (calls s')
        \<and> r = Returned 0 None \<and> is_status_update (last (calls s'))) example_before"
    by (simp add: reconcile_def resolve_all_def resolve_def new_step_resolver_def reconcile_validated_def
        validate_step_params_def validate_one_step_def validate_step_ordering_def is_runner_def
        dispatch_steps_def execute_api_native_steps_def execute_one_step_def resolve_templates_def
        execute_actions wait_step_def secret_update_def new_step_executor_def resolve_namespace_def
        example_plain_value mark_succeeded_def wp_set_phase with_phase_def Let_def example_spec_def
        example_cluster_def example_before_def example_defs pending_status_def mread_def error_text_def)
  then show "phases (calls (snd example_after)) = [TaskRunPhaseRunning, TaskRunPhaseSucceeded]"
    "GetSecret (NamespacedName ''apps'' ''db'') \<in> set (calls (snd example_after))"
    "fst example_after = Returned 0 None"
    "is_status_update (last (calls (snd example_after)))"
    by (simp_all add: example_after_def wp_def split_beta)
qed

section \<open>Properties\<close>

text \<open>C19: \<open>Reconcile\<close> never dereferences a nil pointer of its own making: for every TaskRun, every
  behaviour of the API and every state it returns a result.\<close>

theorem reconcile_never_panics:
  "\<exists>d e. fst (run_state (reconcile C L R req) s) = Returned d e"
  using never_panics_reconcile [of C L R req, unfolded never_panics_iff]
  by (cases "fst (run_state (reconcile C L R req) s)") auto

text \<open>A TaskRun that is gone, that cannot be read, or that has already succeeded or failed is left
  alone: \<open>Reconcile\<close> sends one request, the read, observes no metric, does not ask to be called
  again, and reports an error exactly when the read failed for a reason other than not found.\<close>

theorem reconcile_nothing_to_do:
  assumes "run_state (reconcile C L R req) s = (r, s')"
    and "case fst (cl_get_task_run C req (ext s)) of Inl _ \<Rightarrow> True
         | Inr tr \<Rightarrow> phase_of tr = TaskRunPhaseSucceeded \<or> phase_of tr = TaskRunPhaseFailed"
  shows "calls s' = calls s @ [GetTaskRun req] \<and> metrics s' = metrics s
     \<and> r = Returned 0 (case fst (cl_get_task_run C req (ext s)) of
             Inl err \<Rightarrow> if is_not_found err then None else Some (api_error_text err)
           | Inr _ \<Rightarrow> None)"
proof -
  have "wp (reconcile C L R req) (\<lambda>r s'. calls s' = calls s @ [GetTaskRun req] \<and> metrics s' = metrics s
     \<and> r = Returned 0 (case fst (cl_get_task_run C req (ext s)) of
             Inl err \<Rightarrow> if is_not_found err then None else Some (api_error_text err)
           | Inr _ \<Rightarrow> None)) s"
    using assms(2) by (auto simp: reconcile_def split: prod.split sum.splits)
  from wpD [OF this assms(1)] show ?thesis .
qed

theorem reconcile_nothing_to_do_witness:
  "calls (snd (run_state (reconcile example_client example_lib \<lparr>rec_clientset_set = False\<rparr>
      (NamespacedName ''apps'' ''other'')) example_before)) = [GetTaskRun (NamespacedName ''apps'' ''other'')]"
proof -
  have gone: "fst (cl_get_task_run example_client (NamespacedName ''apps'' ''other'') (ext example_before)) =
      Inl (NotFound ''not found'')"
    by (simp add: example_before_def example_state_def example_client_def found_def example_cluster_def
        empty_cluster_def)
  have "calls example_before = []" by (simp add: example_before_def example_state_def)
  with reconcile_nothing_to_do [OF surjective_pairing, of example_client "NamespacedName ''apps'' ''other''"
      example_before] gone
  show ?thesis by simp
qed

text \<open>C1: a TaskRun that is reported as Succeeded has succeeded: whatever the API answers, if the
  steps have distinct names then every status update of \<open>Reconcile\<close> with the phase Succeeded
  carries the step status Succeeded for every step of the TaskRun's spec.\<close>

theorem succeeded_is_truthful:
  assumes "echoes_phase C"
    and run: "run_state (reconcile C L R req) s = (r, s')" and log: "calls s' = calls s @ cs"
    and get: "fst (cl_get_task_run C req (ext s)) = Inr tr"
    and names: "distinct (map ss_name (trs_steps (tr_spec tr)))"
    and update: "UpdateStatus t \<in> set cs" "phase_of t = TaskRunPhaseSucceeded"
  shows "\<forall>step\<in>set (trs_steps (tr_spec tr)). row_phase (steps_of t) (ss_name step) = Some StepPhaseSucceeded"
proof -
  have "reconciled L req tr cs"
    using wpD [OF wp_reconcile [OF assms(1)] run] log get by simp
  moreover have truth: ?thesis
    if ok: "status_ok resolved old ds" and ds: "UpdateStatus t \<in> set ds" and old: "\<not> terminal old"
      and steps: "map rs_step resolved = trs_steps (tr_spec tr)" for resolved old ds
  proof -
    have mem: "phase_of t \<in> set (phases ds)"
      using ds by (auto simp: phases_member)
    with ok update(2) old have "ended resolved ds" by (auto simp: status_ok_def)
    then obtain es u where es: "ds = es @ [UpdateStatus u]" "phases es = []"
      "phase_of u = TaskRunPhaseSucceeded \<longrightarrow> distinct (map rs_name resolved) \<longrightarrow> all_succeeded resolved u"
      unfolding ended_def by blast
    have "UpdateStatus t \<notin> set es" using es(2) phases_member [of "phase_of t" es] by auto
    with ds es(1) have "t = u" by auto
    moreover have "map rs_name resolved = map ss_name (trs_steps (tr_spec tr))"
      by (simp flip: steps)
    ultimately have "all_succeeded resolved t" using es(3) update(2) names by simp
    then show ?thesis by (auto simp: all_succeeded_def simp flip: steps)
  qed
  ultimately show ?thesis
  proof (cases rule: reconciled_cases)
    case terminal
    with update show ?thesis by simp
  next
    case (rejected rs u)
    have "UpdateStatus t \<notin> set rs" using rejected(3) by (auto simp: list_all_iff)
    with rejected update show ?thesis by auto
  next
    case (started rs u ds resolved)
    have "UpdateStatus t \<notin> set rs" using started(4) by (auto simp: list_all_iff)
    with started update have "UpdateStatus t \<in> set ds" by auto
    from truth [OF started(8) this _ started(6)] show ?thesis by simp
  next
    case (continued rs ds resolved)
    have "UpdateStatus t \<notin> set rs" using continued(4) by (auto simp: list_all_iff)
    with continued update have "UpdateStatus t \<in> set ds" by auto
    from truth [OF continued(7) this continued(1,5)] show ?thesis .
  qed
qed

theorem succeeded_is_truthful_witness:
  "\<exists>t. UpdateStatus t \<in> set (calls (snd example_after)) \<and> phase_of t = TaskRunPhaseSucceeded
     \<and> row_phase (steps_of t) ''a'' = Some StepPhaseSucceeded
     \<and> row_phase (steps_of t) ''b'' = Some StepPhaseSucceeded"
proof -
  have "TaskRunPhaseSucceeded \<in> set (phases (calls (snd example_after)))" by (simp add: example_calls)
  then obtain t where t: "UpdateStatus t \<in> set (calls (snd example_after))" "phase_of t = TaskRunPhaseSucceeded"
    unfolding phases_member by blast
  have "distinct (map ss_name (trs_steps (tr_spec (example_task_run [] example_spec))))"
    by (simp add: example_task_run_def example_spec_def example_step_def)
  from succeeded_is_truthful [OF example_echoes example_run example_log example_get this t]
  have "row_phase (steps_of t) ''a'' = Some StepPhaseSucceeded" "row_phase (steps_of t) ''b'' = Some StepPhaseSucceeded"
    by (simp_all add: example_task_run_def example_spec_def example_step_def)
  with t show ?thesis by blast
qed

text \<open>The phase only moves forward: the phases that \<open>Reconcile\<close> writes, in the order it writes
  them and starting from the phase it read, never go back from Running to unset or Pending nor
  from a terminal phase to anything, and nothing follows a terminal phase.\<close>

theorem phases_advance:
  assumes "echoes_phase C"
    and run: "run_state (reconcile C L R req) s = (r, s')" and log: "calls s' = calls s @ cs"
    and get: "fst (cl_get_task_run C req (ext s)) = Inr tr"
  shows "sorted_wrt (\<le>) (phase_of tr # phases cs) \<and> list_all (\<lambda>p. \<not> terminal p) (butlast (phases cs))
     \<and> (terminal (phase_of tr) \<longrightarrow> phases cs = [])"
proof -
  have "reconciled L req tr cs"
    using wpD [OF wp_reconcile [OF assms(1)] run] log get by simp
  from reconciled_forward [OF this] show ?thesis by (simp add: forward_def)
qed

theorem phases_advance_witness:
  "sorted_wrt (\<le>) [TaskRunPhaseUnset, TaskRunPhaseRunning, TaskRunPhaseSucceeded]"
  using phases_advance [OF example_echoes example_run example_log example_get]
  by (simp add: example_calls example_task_run_def)

text \<open>Why step names have to be distinct: with two steps of one name \<open>SetStepStatus\<close> only ever writes
  the first entry, so the TaskRun succeeds while the second entry stays Pending.\<close>

lemma duplicate_name_stays_pending:
  "wp (reconcile example_client example_lib \<lparr>rec_clientset_set = False\<rparr> (NamespacedName ''apps'' ''demo''))
     (\<lambda>_ s'. phase_of (task s') = TaskRunPhaseSucceeded
        \<and> map st_phase (steps_of (task s')) = [StepPhaseSucceeded, StepPhasePending])
     (example_state (example_cluster\<lparr>k_task_runs := [NamespacedName ''apps'' ''demo'' \<mapsto>
        example_task_run [] [example_step ''a'' ''wait'' [], example_step ''a'' ''wait'' []]]\<rparr>)
      (example_task_run [] []))"
  by (simp add: reconcile_def resolve_all_def resolve_def new_step_resolver_def reconcile_validated_def
        validate_step_params_def validate_one_step_def validate_step_ordering_def is_runner_def
        dispatch_steps_def execute_api_native_steps_def execute_one_step_def resolve_templates_def
        execute_actions wait_step_def new_step_executor_def mark_succeeded_def wp_set_phase
        with_phase_def Let_def example_cluster_def example_defs pending_status_def mread_def
        running_status_def error_text_def)

end
