(* ===== verification/Steps.thy ===== *)
theory Steps
  imports Lifecycle
begin

text \<open>
  The reconciler as a state machine. An elementary step is one request, one look at the clock,
  one metric observation or one assignment to the status of the TaskRun in memory; \<open>step C\<close>
  relates the states of the controller before and after it. Every function of the controller
  only moves along such steps (\<open>moves\<close>), so an invariant of the steps, proved by rule induction
  once, holds throughout \<open>Reconcile\<close>, between any two of its requests.
\<close>

section \<open>Steps\<close>

fun effect :: "'w client \<Rightarrow> api_call \<Rightarrow> 'w \<Rightarrow> 'w" where
  \<comment> \<open>what a request other than a status update does to the world\<close>
  "effect C (GetTaskRun k) w = snd (cl_get_task_run C k w)"
| "effect C (GetStepDefinition k) w = snd (cl_get_step_definition C k w)"
| "effect C (GetClusterStepDefinition a) w = snd (cl_get_cluster_step_definition C a w)"
| "effect C (GetSecret k) w = snd (cl_get_secret C k w)"
| "effect C (GetConfigMap k) w = snd (cl_get_config_map C k w)"
| "effect C (GetWorkload kind k) w = snd (cl_get_workload C kind k w)"
| "effect C (GetJob k) w = snd (cl_get_job C k w)"
| "effect C (GetCronJob k) w = snd (cl_get_cron_job C k w)"
| "effect C (CreateSecret x) w = snd (cl_create_secret C x w)"
| "effect C (CreateConfigMap x) w = snd (cl_create_config_map C x w)"
| "effect C (CreateJob x) w = snd (cl_create_job C x w)"
| "effect C (CreateCronJob x) w = snd (cl_create_cron_job C x w)"
| "effect C (UpdateSecret x) w = snd (cl_update_secret C x w)"
| "effect C (UpdateConfigMap x) w = snd (cl_update_config_map C x w)"
| "effect C (UpdateWorkload kind x) w = snd (cl_update_workload C kind x w)"
| "effect C (UpdateStatus t) w = snd (cl_update_status C t w)"
| "effect C (ListPods ns ls) w = snd (cl_list_pods C ns ls w)"
| "effect C (PodLogs ns p c n) w = snd (cl_pod_logs C ns p c n w)"

inductive edit :: "(task_run_status \<Rightarrow> task_run_status) \<Rightarrow> bool" where
  \<comment> \<open>the assignments to the status in memory\<close>
  edit_row: "st_phase x \<in> {StepPhaseRunning, StepPhaseSucceeded, StepPhaseFailed} \<Longrightarrow>
     edit (\<lambda>st. st\<lparr>ts_steps := put_step_status (ts_steps st) x\<rparr>)"
| edit_init: "edit (\<lambda>st. st\<lparr>ts_steps := map pending_status steps\<rparr>)"
| edit_logs: "edit (\<lambda>st. st\<lparr>ts_steps := put_logs (ts_steps st) n logs\<rparr>)"
| edit_condition: "edit (\<lambda>st. st\<lparr>ts_conditions := f (ts_conditions st)\<rparr>)"
| edit_phase: "p \<in> {TaskRunPhaseRunning, TaskRunPhaseSucceeded, TaskRunPhaseFailed} \<Longrightarrow>
     edit (\<lambda>st. st\<lparr>ts_phase := p\<rparr>)"
| edit_start: "edit (\<lambda>st. if ts_start_time st = None then st\<lparr>ts_start_time := Some t\<rparr> else st)"
| edit_completion: "edit (\<lambda>st. st\<lparr>ts_completion_time := Some t\<rparr>)"

abbreviation edit_task :: "(task_run_status \<Rightarrow> task_run_status) \<Rightarrow> task_run \<Rightarrow> task_run" where
  "edit_task f tr \<equiv> tr\<lparr>tr_status := f (tr_status tr)\<rparr>"

inductive step :: "'w client \<Rightarrow> 'w st \<Rightarrow> 'w st \<Rightarrow> bool" for C where
  requested: "\<not> is_status_update c \<Longrightarrow>
     step C s (s\<lparr>ext := effect C c (ext s), calls := calls s @ [c]\<rparr>)"
| rejected: "cl_update_status C (task s) (ext s) = (Inl e, w) \<Longrightarrow>
     step C s (s\<lparr>ext := w, calls := calls s @ [UpdateStatus (task s)]\<rparr>)"
| accepted: "cl_update_status C (task s) (ext s) = (Inr tr, w) \<Longrightarrow>
     step C s (s\<lparr>ext := w, calls := calls s @ [UpdateStatus (task s)], task := tr\<rparr>)"
| clock: "step C s (s\<lparr>ext := snd (cl_now C (ext s))\<rparr>)"
| waited: "step C s (s\<lparr>ext := snd (cl_wait C d (ext s))\<rparr>)"
| observed: "step C s (s\<lparr>metrics := metrics s @ ms\<rparr>)"
| edited: "edit f \<Longrightarrow> step C s (s\<lparr>task := edit_task f (task s)\<rparr>)"

section \<open>Programs move along steps\<close>

definition moves :: "'w client \<Rightarrow> ('w, 'a) prog \<Rightarrow> bool" where
  "moves C m \<longleftrightarrow> (\<forall>s. (step C)\<^sup>*\<^sup>* s (snd (run_state m s)))"

lemma movesD: "moves C m \<Longrightarrow> run_state m s = (r, s') \<Longrightarrow> (step C)\<^sup>*\<^sup>* s s'"
  unfolding moves_def by (metis snd_conv)

lemma moves_step: "(\<And>s. step C s (snd (run_state m s))) \<Longrightarrow> moves C m"
  by (simp add: moves_def r_into_rtranclp)

lemma moves_return [simp]: "moves C (return x)"
  by (simp add: moves_def)

lemma moves_bind:
  assumes "moves C m" and "\<And>x. moves C (f x)"
  shows "moves C (State_Monad.bind m f)"
  unfolding moves_def
proof
  fix s
  obtain x s1 where m: "run_state m s = (x, s1)" by (cases "run_state m s")
  obtain y s2 where f: "run_state (f x) s1 = (y, s2)" by (cases "run_state (f x) s1")
  have "(step C)\<^sup>*\<^sup>* s s2"
    using movesD [OF assms(1) m] movesD [OF assms(2) f] by (rule rtranclp_trans)
  with m f show "(step C)\<^sup>*\<^sup>* s (snd (run_state (State_Monad.bind m f) s))" by simp
qed

lemma moves_request:
  "\<not> is_status_update c \<Longrightarrow> (\<And>w. snd (op1 w) = effect C c w) \<Longrightarrow> moves C (request c op1)"
proof (rule moves_step)
  fix s
  assume c: "\<not> is_status_update c" and e: "\<And>w. snd (op1 w) = effect C c w"
  show "step C s (snd (run_state (request c op1) s))"
    using requested [OF c, of C s] e [of "ext s"] by (auto simp: request_def split: prod.split)
qed

lemma moves_now: "moves C (ask (cl_now C))"
  by (rule moves_step) (simp add: ask_def clock split_beta)

lemma moves_wait: "moves C (ask (cl_wait C d))"
  by (rule moves_step) (simp add: ask_def waited split_beta)

lemma moves_get_task: "moves C get_task"
  by (simp add: moves_def get_task_def)

lemma moves_observe: "moves C (observe ms)"
  by (rule moves_step) (simp add: observe_def observed)

lemma moves_modify: "edit f \<Longrightarrow> moves C (modify_status f)"
  by (rule moves_step) (simp add: modify_status_def get_task_def put_task_def edited)

lemma moves_update_status: "moves C (update_status C)"
proof (rule moves_step)
  fix s
  show "step C s (snd (run_state (update_status C) s))"
  proof (cases "cl_update_status C (task s) (ext s)")
    case (Pair r w)
    then show ?thesis
      using rejected [of C s _ w] accepted [of C s _ w]
      by (cases r) (simp_all add: update_status_def get_task_def put_task_def request_def)
  qed
qed

lemma moves_if: "(b \<Longrightarrow> moves C m) \<Longrightarrow> (\<not> b \<Longrightarrow> moves C n) \<Longrightarrow> moves C (if b then m else n)"
  by simp

lemma moves_case_sum:
  "(\<And>a. moves C (f a)) \<Longrightarrow> (\<And>b. moves C (g b)) \<Longrightarrow> moves C (case x of Inl a \<Rightarrow> f a | Inr b \<Rightarrow> g b)"
  by (cases x) simp_all

lemma moves_case_option:
  "moves C m \<Longrightarrow> (\<And>a. moves C (f a)) \<Longrightarrow> moves C (case x of None \<Rightarrow> m | Some a \<Rightarrow> f a)"
  by (cases x) simp_all

lemma moves_case_prod: "(\<And>a b. moves C (f a b)) \<Longrightarrow> moves C (case x of (a, b) \<Rightarrow> f a b)"
  by (cases x) simp

lemma moves_case_list:
  "moves C m \<Longrightarrow> (\<And>x xs. moves C (f x xs)) \<Longrightarrow> moves C (case l of [] \<Rightarrow> m | x # xs \<Rightarrow> f x xs)"
  by (cases l) simp_all

lemma moves_case_pod_logs:
  "(\<And>e. moves C (f e)) \<Longrightarrow> (\<And>e. moves C (g e)) \<Longrightarrow> (\<And>b. moves C (h b)) \<Longrightarrow>
     moves C (case l of StreamError e \<Rightarrow> f e | ReadError e \<Rightarrow> g e | LogBytes b \<Rightarrow> h b)"
  by (cases l) simp_all

lemmas moves_rules =
  moves_return moves_bind moves_now moves_wait moves_get_task moves_observe moves_update_status
  moves_if moves_case_sum moves_case_option moves_case_prod moves_case_list moves_case_pod_logs
  moves_request

section \<open>The functions of the controller\<close>

lemma moves_set_step_status:
  "st_phase x \<in> {StepPhaseRunning, StepPhaseSucceeded, StepPhaseFailed} \<Longrightarrow> moves C (set_step_status x)"
  unfolding set_step_status_def by (intro moves_modify edit_row)

lemma moves_status_ops:
  "moves C (init_step_statuses steps)"
  "moves C (set_condition C L t status reason message)"
  "moves C record_task_metrics"
  "moves C (mark_step_succeeded n d outs a)"
  "moves C (mark_step_failed n d msg a)"
  unfolding init_step_statuses_def set_condition_def record_task_metrics_def
    mark_step_succeeded_def mark_step_failed_def
  by (intro moves_rules moves_modify edit_init edit_condition moves_set_step_status; simp)+

lemma moves_set_phase:
  "p \<in> {TaskRunPhaseRunning, TaskRunPhaseSucceeded, TaskRunPhaseFailed} \<Longrightarrow> moves C (set_phase C p)"
  unfolding set_phase_def
  by (intro moves_rules moves_modify edit_phase edit_start edit_completion moves_status_ops)

lemma moves_marks:
  "moves C (mark_failed C L reason message)"
  "moves C (mark_succeeded C L)"
  unfolding mark_failed_def mark_succeeded_def
  by (intro moves_rules moves_status_ops moves_set_phase; simp)+

lemma moves_after_mark: "moves C m \<Longrightarrow> moves C (after_mark m)"
  unfolding after_mark_def by (intro moves_rules)

lemma moves_resolve: "moves C (resolve C L r a)"
  unfolding resolve_def by (intro moves_rules) simp_all

lemma moves_resolve_loop: "moves C (resolve_loop C L r steps resolved unresolved)"
proof (induction steps arbitrary: r resolved unresolved)
  case (Cons step steps)
  show ?case
    unfolding resolve_loop.simps by (intro moves_rules moves_resolve Cons.IH)
qed simp

lemma moves_resolve_all: "moves C (resolve_all C L r steps)"
  unfolding resolve_all_def by (intro moves_rules moves_resolve_loop)

lemma moves_execute: "moves C (execute C L e action params)"
proof -
  have restart: "moves C (restart_workload C kind kn ns n stamp)" for kind kn ns n stamp
    unfolding restart_workload_def Let_def by (intro moves_rules) simp_all
  show ?thesis
    unfolding execute_def secret_update_def secret_read_def configmap_update_def rollout_restart_def
      wait_step_def assert_step_def Let_def
    by (intro moves_rules restart) simp_all
qed

lemma moves_execute_one_step: "moves C (execute_one_step C L e rs)"
  unfolding execute_one_step_def Let_def
  by (intro moves_rules moves_status_ops moves_set_step_status moves_execute) simp

lemma moves_partitioned_loop: "moves C (partitioned_loop C L e steps)"
  by (induction steps)
    (simp_all add: moves_after_mark moves_marks moves_bind moves_execute_one_step moves_case_option)

lemma moves_native: "moves C (execute_api_native_steps C L steps)"
  unfolding execute_api_native_steps_def native_loop_partitioned
  by (intro moves_rules moves_partitioned_loop)

lemma moves_from_partitioned: "moves C (execute_api_native_steps_from_partitioned C L p)"
  unfolding execute_api_native_steps_from_partitioned_def
  by (intro moves_rules moves_partitioned_loop moves_after_mark moves_marks)

lemma moves_collect_outputs: "moves C (collect_runner_outputs C R)"
  unfolding collect_runner_outputs_def by (intro moves_rules) simp_all

lemma moves_collect_logs_loop: "moves C (collect_logs_loop C ns pod i steps)"
proof (induction steps arbitrary: i)
  case (Cons rs steps)
  show ?case
    unfolding collect_logs_loop.simps Let_def
    by (intro moves_rules moves_modify edit_logs Cons.IH) simp_all
qed simp

lemma moves_collect_logs: "moves C (collect_runner_logs C R steps)"
  unfolding collect_runner_logs_def by (intro moves_rules moves_collect_logs_loop) simp_all

lemma moves_mark_loops:
  "moves C (mark_running_loop steps)"
  "moves C (mark_runner_succeeded_loop d outs steps)"
  "moves C (mark_runner_failed_loop d steps)"
  by (induction steps)
    (simp_all add: Let_def moves_bind moves_status_ops moves_set_step_status)

lemma moves_submit_job: "moves C (submit_job C L steps)"
  unfolding submit_job_def
  by (intro moves_rules moves_after_mark moves_marks moves_mark_loops) simp_all

lemma moves_ensure_params: "moves C (ensure_params_config_map C L steps)"
  unfolding ensure_params_config_map_def Let_def by (intro moves_rules) simp_all

lemma moves_reconcile_job: "moves C (reconcile_job C L R p)"
  unfolding reconcile_job_def create_runner_job_def
  by (intro moves_rules moves_after_mark moves_marks moves_mark_loops moves_collect_logs
      moves_collect_outputs moves_from_partitioned moves_ensure_params moves_submit_job) simp_all

lemma moves_reconcile_cron_job: "moves C (reconcile_cron_job C L p)"
  unfolding reconcile_cron_job_def
  by (intro moves_rules moves_after_mark moves_marks) simp_all

lemma moves_dispatch: "moves C (dispatch_steps C L R resolved)"
  unfolding dispatch_steps_def Let_def
  by (intro moves_rules moves_reconcile_job moves_reconcile_cron_job moves_native)

lemma moves_reconcile_validated: "moves C (reconcile_validated C L R resolved)"
  unfolding reconcile_validated_def
  by (intro moves_rules moves_after_mark moves_marks moves_dispatch moves_status_ops moves_set_phase) simp

definition after_read :: "'w client \<Rightarrow> lib \<Rightarrow> reconciler \<Rightarrow> task_run \<Rightarrow> ('w, reconcile_result) prog" where
  \<comment> \<open>\<open>Reconcile\<close> once it has read the TaskRun\<close>
  "after_read C L R tr =
     (if ts_phase (tr_status tr) = TaskRunPhaseSucceeded
         \<or> ts_phase (tr_status tr) = TaskRunPhaseFailed then return (Returned 0 None)
      else do {
        x \<leftarrow> resolve_all C L (new_step_resolver (tr_namespace tr)) (trs_steps (tr_spec tr));
        (case x of
           Inl err \<Rightarrow> after_mark (mark_failed C L ''ResolutionFailed'' err)
         | Inr resolved \<Rightarrow> reconcile_validated C L R resolved) })"

abbreviation loaded :: "'w st \<Rightarrow> namespaced_name \<Rightarrow> task_run \<Rightarrow> 'w \<Rightarrow> 'w st" where
  "loaded s req tr w \<equiv> s\<lparr>ext := w, calls := calls s @ [GetTaskRun req], task := tr\<rparr>"

lemma reconcile_loaded:
  "cl_get_task_run C req (ext s) = (Inr tr, w) \<Longrightarrow>
     run_state (reconcile C L R req) s = run_state (after_read C L R tr) (loaded s req tr w)"
  by (simp add: reconcile_def after_read_def request_def put_task_def)

lemma reconcile_unread:
  "cl_get_task_run C req (ext s) = (Inl err, w) \<Longrightarrow>
     run_state (reconcile C L R req) s =
       (Returned 0 (if is_not_found err then None else Some (api_error_text err)),
        s\<lparr>ext := w, calls := calls s @ [GetTaskRun req]\<rparr>)"
  by (simp add: reconcile_def request_def)

lemma moves_after_read: "moves C (after_read C L R tr)"
  unfolding after_read_def
  by (intro moves_rules moves_resolve_all moves_after_mark moves_marks moves_reconcile_validated)

text \<open>The TaskRun in memory is set by the read; from there on \<open>Reconcile\<close> moves along steps.\<close>

lemma reconcile_steps:
  assumes "cl_get_task_run C req (ext s) = (Inr tr, w)"
    and "run_state (reconcile C L R req) s = (r, s')"
  shows "(step C)\<^sup>*\<^sup>* (loaded s req tr w) s'"
  using movesD [OF moves_after_read] assms by (metis reconcile_loaded)

section \<open>Requests are only added to the log\<close>

lemma steps_append: "(step C)\<^sup>*\<^sup>* s s' \<Longrightarrow> \<exists>cs. calls s' = calls s @ cs"
proof (induction rule: rtranclp_induct)
  case (step t u)
  then obtain cs where "calls t = calls s @ cs" by blast
  with step.hyps(2) show ?case by cases auto
qed simp

section \<open>Nothing runs unvalidated\<close>

lemma rejected_requests:
  assumes "run_state (after_mark (mark_failed C L reason message)) s1 = (r, s')"
    and "calls s1 = calls s @ GetTaskRun req # rs" and "list_all is_definition_read rs"
    and "calls s' = calls s @ cs" and "c \<in> set cs"
  shows "c = GetTaskRun req \<or> is_definition_read c \<or> (\<exists>t. c = UpdateStatus t \<and> phase_of t = TaskRunPhaseFailed)"
  using wpD [OF wp_mark_ended(1) assms(1)] assms(2-) by (auto simp: list_all_iff)

text \<open>C4: nothing runs before it is validated: if \<open>Reconcile\<close> sends any request besides reading the
  TaskRun, reading definitions and recording a failure, then it is not the request of an ended
  TaskRun, the resolver has found a definition for every step of the spec it read, the steps it
  made of these definitions have parameters their schemas accept and are in a valid order, and
  the request was sent after all that.\<close>

theorem nothing_runs_unvalidated:
  assumes run: "run_state (reconcile C L R req) s = (r, s')" and log: "calls s' = calls s @ cs"
    and get: "cl_get_task_run C req (ext s) = (Inr tr, w)"
    and other: "c \<in> set cs" "c \<noteq> GetTaskRun req" "\<not> is_definition_read c"
      "\<not> (\<exists>t. c = UpdateStatus t \<and> phase_of t = TaskRunPhaseFailed)"
  shows "\<not> terminal (phase_of tr)
     \<and> (\<exists>resolved s1 rest.
          run_state (resolve_all C L (new_step_resolver (tr_namespace tr)) (trs_steps (tr_spec tr)))
            (s\<lparr>ext := w, calls := calls s @ [GetTaskRun req], task := tr\<rparr>) = (Inr resolved, s1)
          \<and> map rs_step resolved = trs_steps (tr_spec tr)
          \<and> validate_step_params L resolved = None \<and> validate_step_ordering L resolved = None
          \<and> calls s' = calls s1 @ rest \<and> c \<in> set rest)"
proof -
  let ?s0 = "loaded s req tr w"
  have rest: "run_state (after_read C L R tr) ?s0 = (r, s')"
    using run get by (simp add: reconcile_loaded)
  have open_run: "\<not> terminal (phase_of tr)"
    using rest log other by (auto simp: after_read_def terminal_def)
  obtain x s1 where res: "run_state (resolve_all C L (new_step_resolver (tr_namespace tr))
      (trs_steps (tr_spec tr))) ?s0 = (x, s1)"
    by (metis surj_pair)
  from wpD [OF wp_resolve_all_steps res] obtain rs where
    reads: "calls s1 = calls s @ GetTaskRun req # rs" "list_all is_definition_read rs"
      and steps: "\<And>resolved. x = Inr resolved \<Longrightarrow> map rs_step resolved = trs_steps (tr_spec tr)" by auto
  have no_mark: "run_state (after_mark (mark_failed C L reason message)) s1 \<noteq> (r, s')" for reason message
    using rejected_requests [OF _ reads log other(1)] other by blast
  from rest res open_run have after: "run_state (case x of
      Inl err \<Rightarrow> after_mark (mark_failed C L ''ResolutionFailed'' err)
    | Inr resolved \<Rightarrow> reconcile_validated C L R resolved) s1 = (r, s')"
    by (auto simp: after_read_def terminal_def)
  with no_mark obtain resolved where x: "x = Inr resolved" by (cases x) auto
  with after have validated: "run_state (reconcile_validated C L R resolved) s1 = (r, s')" by simp
  with no_mark have valid: "validate_step_params L resolved = None" "validate_step_ordering L resolved = None"
    unfolding reconcile_validated_def by (auto split: option.splits)
  from steps_append [OF movesD [OF moves_reconcile_validated validated]] obtain ds where
    ds: "calls s' = calls s1 @ ds" by blast
  with reads log other have "c \<in> set ds" by (auto simp: list_all_iff)
  with open_run res x steps valid ds show ?thesis by blast
qed

theorem nothing_runs_unvalidated_witness:
  "\<exists>resolved s1. run_state (resolve_all example_client example_lib (new_step_resolver ''apps'') example_spec)
       (example_before\<lparr>ext := example_cluster,
          calls := calls example_before @ [GetTaskRun (NamespacedName ''apps'' ''demo'')],
          task := example_task_run [] example_spec\<rparr>) = (Inr resolved, s1)
     \<and> validate_step_params example_lib resolved = None \<and> validate_step_ordering example_lib resolved = None"
proof -
  have get: "cl_get_task_run example_client (NamespacedName ''apps'' ''demo'') (ext example_before)
      = (Inr (example_task_run [] example_spec), example_cluster)"
    by (simp add: example_before_def example_state_def example_client_def found_def example_cluster_def)
  have "tr_namespace (example_task_run [] example_spec) = ''apps''"
    "trs_steps (tr_spec (example_task_run [] example_spec)) = example_spec"
    by (simp_all add: example_task_run_def)
  with nothing_runs_unvalidated [OF example_run example_log get example_calls(2)] show ?thesis by auto
qed

section \<open>Statuses are typed\<close>

text \<open>
  The CRD restricts the phases to the values that the kubebuilder markers of \<open>TaskRunPhase\<close> and
  \<open>StepPhase\<close> list; an unset phase is not serialised. A status outside them is not one the API
  would take, or serve.
\<close>

fun step_phase_valid :: "step_phase \<Rightarrow> bool" where
  "step_phase_valid (StepPhaseOther p) = False"
| "step_phase_valid _ = True"

fun task_run_phase_valid :: "task_run_phase \<Rightarrow> bool" where
  "task_run_phase_valid (TaskRunPhaseOther p) = (p = [])"
| "task_run_phase_valid _ = True"

definition typed_status :: "task_run_status \<Rightarrow> bool" where
  "typed_status st \<longleftrightarrow>
     task_run_phase_valid (ts_phase st) \<and> list_all (\<lambda>x. step_phase_valid (st_phase x)) (ts_steps st)"

definition serves_typed :: "'w client \<Rightarrow> bool" where
  \<comment> \<open>the API answers with typed objects\<close>
  "serves_typed C \<longleftrightarrow>
     (\<forall>k w tr w'. cl_get_task_run C k w = (Inr tr, w') \<longrightarrow> typed_status (tr_status tr))
     \<and> (\<forall>t w tr w'. cl_update_status C t w = (Inr tr, w') \<longrightarrow>
          typed_status (tr_status t) \<longrightarrow> typed_status (tr_status tr))"

lemma put_step_status_all: "list_all P ss \<Longrightarrow> P x \<Longrightarrow> list_all P (put_step_status ss x)"
  by (induction ss x rule: put_step_status.induct) auto

lemma put_logs_phases: "map st_phase (put_logs ss n logs) = map st_phase ss"
  by (induction ss n logs rule: put_logs.induct) auto

lemma put_logs_all:
  "list_all (\<lambda>x. P (st_phase x)) (put_logs ss n logs) = list_all (\<lambda>x. P (st_phase x)) ss"
  using arg_cong [OF put_logs_phases [of ss n logs], of "list_all P"]
  by (simp add: list.pred_map comp_def)

lemma edit_typed: "edit f \<Longrightarrow> typed_status st \<Longrightarrow> typed_status (f st)"
  by (induction rule: edit.induct)
    (auto simp: typed_status_def put_logs_all list.pred_map comp_def pending_status_def list.pred_True
      intro!: put_step_status_all)

lemma steps_typed:
  assumes "serves_typed C" and "(step C)\<^sup>*\<^sup>* s s'" and "typed_status (tr_status (task s))"
  shows "typed_status (tr_status (task s'))
     \<and> (\<exists>cs. calls s' = calls s @ cs \<and> (\<forall>t. UpdateStatus t \<in> set cs \<longrightarrow> typed_status (tr_status t)))"
  using assms(2)
proof (induction rule: rtranclp_induct)
  case base
  with assms(3) show ?case by simp
next
  case (step t u)
  then obtain cs where t: "typed_status (tr_status (task t))" "calls t = calls s @ cs"
    "\<forall>t. UpdateStatus t \<in> set cs \<longrightarrow> typed_status (tr_status t)" by blast
  have answer: "typed_status (tr_status tr)" if "cl_update_status C (task t) (ext t) = (Inr tr, w)" for tr w
    using assms(1) that t(1) unfolding serves_typed_def by blast
  show ?case
    using step.hyps(2) by cases (use t answer edit_typed in auto)
qed

text \<open>C20: every status update that \<open>Reconcile\<close> sends is well typed: its phase is one of the CRD's
  phases or unset and so is the phase of each of its step statuses, whatever happens on the
  way, provided the API itself answers with typed objects.\<close>

theorem status_updates_typed:
  assumes "serves_typed C"
    and run: "run_state (reconcile C L R req) s = (r, s')" and log: "calls s' = calls s @ cs"
    and update: "UpdateStatus t \<in> set cs"
  shows "task_run_phase_valid (phase_of t) \<and> list_all (\<lambda>x. step_phase_valid (st_phase x)) (steps_of t)"
proof (cases "cl_get_task_run C req (ext s)")
  case (Pair a w)
  show ?thesis
  proof (cases a)
    case (Inl err)
    with Pair run log update show ?thesis by (auto simp: reconcile_unread)
  next
    case (Inr tr)
    have "typed_status (tr_status tr)"
      using assms(1) Pair Inr unfolding serves_typed_def by blast
    then obtain ds where "calls s' = calls (loaded s req tr w) @ ds"
      "\<forall>t. UpdateStatus t \<in> set ds \<longrightarrow> typed_status (tr_status t)"
      using steps_typed [OF assms(1) reconcile_steps [OF Pair [unfolded Inr] run]] by auto
    with log update show ?thesis by (auto simp: typed_status_def)
  qed
qed

text \<open>A client that serves a TaskRun only if it is typed.\<close>

definition typed_client :: "cluster client" where
  "typed_client = example_client\<lparr>
     cl_get_task_run := (\<lambda>k w. found (case k_task_runs w k of
        None \<Rightarrow> None | Some tr \<Rightarrow> if typed_status (tr_status tr) then Some tr else None) w)\<rparr>"

lemma typed_client_serves: "serves_typed typed_client"
  by (auto simp: serves_typed_def typed_client_def example_client_def found_def
      split: option.splits if_splits)

definition typed_before :: "cluster st" where
  "typed_before = example_state (empty_cluster\<lparr>
     k_task_runs := [NamespacedName ''apps'' ''demo'' \<mapsto> example_task_run [] example_spec]\<rparr>)
     (example_task_run [] [])"

definition typed_after :: "reconcile_result \<times> cluster st" where
  "typed_after = run_state (reconcile typed_client example_lib \<lparr>rec_clientset_set = False\<rparr>
     (NamespacedName ''apps'' ''demo'')) typed_before"

lemma typed_update: "\<exists>t. UpdateStatus t \<in> set (calls (snd typed_after)) \<and> phase_of t = TaskRunPhaseFailed"
proof -
  have "wp (reconcile typed_client example_lib \<lparr>rec_clientset_set = False\<rparr> (NamespacedName ''apps'' ''demo''))
     (\<lambda>r s'. TaskRunPhaseFailed \<in> set (phases (calls s'))) typed_before"
    by (simp add: reconcile_def resolve_all_def resolve_def new_step_resolver_def mark_failed_def
        wp_set_phase with_phase_def Let_def example_spec_def typed_before_def typed_client_def
        typed_status_def example_defs mread_def)
  then show ?thesis by (simp add: typed_after_def wp_def split_beta phases_member)
qed

theorem status_updates_typed_witness:
  "\<exists>t. UpdateStatus t \<in> set (calls (snd typed_after)) \<and> phase_of t = TaskRunPhaseFailed
     \<and> list_all (\<lambda>x. step_phase_valid (st_phase x)) (steps_of t)"
proof -
  obtain t where t: "UpdateStatus t \<in> set (calls (snd typed_after))" "phase_of t = TaskRunPhaseFailed"
    using typed_update by blast
  have "run_state (reconcile typed_client example_lib \<lparr>rec_clientset_set = False\<rparr>
      (NamespacedName ''apps'' ''demo'')) typed_before = (fst typed_after, snd typed_after)"
    by (simp add: typed_after_def)
  moreover have "calls (snd typed_after) = calls typed_before @ calls (snd typed_after)"
    by (simp add: typed_before_def example_state_def)
  ultimately show ?thesis
    using status_updates_typed [OF typed_client_serves _ _ t(1)] t by blast
qed

end
