(* ===== verification/Progress.thy ===== *)
theory Progress
  imports Steps
begin

text \<open>
  One call of \<open>Reconcile\<close> gets somewhere: it sends a bounded number of requests, and unless it
  returns an error or asks to be called again, the API has accepted the end of the TaskRun or
  has its CronJob. Both are shown along the structure of the code, by rules for \<open>costs\<close> and
  \<open>settles\<close>.
\<close>

section \<open>The number of requests\<close>

definition costs :: "nat \<Rightarrow> ('w, 'a) prog \<Rightarrow> bool" where
  \<comment> \<open>at most \<open>n\<close> requests\<close>
  "costs n m \<longleftrightarrow> (\<forall>s. length (calls (snd (run_state m s))) \<le> length (calls s) + n)"

lemma costsD: "costs n m \<Longrightarrow> run_state m s = (r, s') \<Longrightarrow> length (calls s') \<le> length (calls s) + n"
  unfolding costs_def by (metis snd_conv)

lemma costs_mono: "costs n m \<Longrightarrow> n \<le> k \<Longrightarrow> costs k m"
  unfolding costs_def by (meson add_left_mono le_trans)

lemma costs_free [simp]:
  "costs n (return x)"
  "costs n (ask f)"
  "costs n get_task"
  "costs n (put_task t)"
  "costs n (observe ms)"
  "costs n (modify_status g)"
  by (simp_all add: costs_def ask_def get_task_def put_task_def observe_def modify_status_def
      split: prod.split)

lemma costs_request: "0 < n \<Longrightarrow> costs n (request c f)"
  by (auto simp: costs_def request_def split: prod.split)

lemma costs_bind_wp:
  assumes "costs a m" and "\<And>s. wp m (\<lambda>x _. costs b (f x)) s" and "a + b \<le> n"
  shows "costs n (State_Monad.bind m f)"
  unfolding costs_def
proof
  fix s
  obtain x s1 where m: "run_state m s = (x, s1)" by (cases "run_state m s")
  obtain y s2 where f: "run_state (f x) s1 = (y, s2)" by (cases "run_state (f x) s1")
  from costsD [OF assms(1) m] costsD [OF wpD [OF assms(2) m] f] assms(3)
  show "length (calls (snd (run_state (State_Monad.bind m f) s))) \<le> length (calls s) + n"
    using m f by simp
qed

lemma costs_bind:
  "costs a m \<Longrightarrow> (\<And>x. costs b (f x)) \<Longrightarrow> a + b \<le> n \<Longrightarrow> costs n (State_Monad.bind m f)"
  by (rule costs_bind_wp) (simp_all add: wp_def split_beta)

text \<open>The first part of a sequence sends nothing, or a single request.\<close>

lemma costs_bind_free: "costs 0 m \<Longrightarrow> (\<And>x. costs n (f x)) \<Longrightarrow> costs n (State_Monad.bind m f)"
  by (rule costs_bind [of 0 m n]) simp_all

lemma costs_bind_one: "costs 1 m \<Longrightarrow> (\<And>x. costs n (f x)) \<Longrightarrow> costs (Suc n) (State_Monad.bind m f)"
  by (rule costs_bind [of 1 m n]) simp_all

lemma costs_branch:
  "(b \<Longrightarrow> costs n m1) \<Longrightarrow> (\<not> b \<Longrightarrow> costs n m2) \<Longrightarrow> costs n (if b then m1 else m2)"
  "costs n m \<Longrightarrow> (\<And>a. costs n (f a)) \<Longrightarrow> costs n (case x of None \<Rightarrow> m | Some a \<Rightarrow> f a)"
  "(\<And>a. costs n (f1 a)) \<Longrightarrow> (\<And>c. costs n (g1 c)) \<Longrightarrow> costs n (case y of Inl a \<Rightarrow> f1 a | Inr c \<Rightarrow> g1 c)"
  by (simp_all split: option.split sum.split)

lemma costs_update_status: "costs (Suc n) (update_status C)"
  unfolding update_status_def
  by (intro costs_bind_free costs_bind_one costs_branch costs_free costs_request) simp_all

lemma costs_set_phase: "costs (Suc n) (set_phase C p)"
  unfolding set_phase_def record_task_metrics_def
  by (intro costs_bind_free costs_branch costs_free costs_update_status)

lemma costs_status_ops [simp]:
  "costs n (set_step_status x)"
  "costs n (init_step_statuses steps)"
  "costs n (set_condition C L t status reason message)"
  "costs n (mark_step_succeeded a d outs b)"
  "costs n (mark_step_failed a d msg b)"
  unfolding set_step_status_def init_step_statuses_def set_condition_def mark_step_succeeded_def
    mark_step_failed_def
  by (intro costs_bind_free costs_free)+

lemma costs_after_mark: "costs n m \<Longrightarrow> costs n (after_mark m)"
  unfolding after_mark_def by (rule costs_bind [of n _ 0]) simp_all

lemma costs_marks:
  "costs (Suc n) (after_mark (mark_failed C L reason message))"
  "costs (Suc n) (after_mark (mark_succeeded C L))"
  unfolding mark_failed_def mark_succeeded_def
  by (intro costs_after_mark costs_bind_free costs_status_ops costs_free costs_set_phase)+

lemma costs_resolve: "costs 2 (resolve C L r a)"
proof -
  have "costs (Suc (Suc 0)) (resolve C L r a)"
    unfolding resolve_def
    by (intro costs_branch costs_bind_one costs_free costs_request costs_bind [of 1 _ 0]) simp_all
  then show ?thesis by (simp add: numeral_2_eq_2)
qed

lemma costs_resolve_loop: "costs (2 * length steps) (resolve_loop C L r steps resolved unresolved)"
proof (induction steps arbitrary: r resolved unresolved)
  case (Cons step steps)
  show ?case
    unfolding resolve_loop.simps
    by (rule costs_bind [OF costs_resolve, of "2 * length steps"])
       (auto split: prod.split sum.split intro: Cons.IH)
qed simp

lemma costs_resolve_all: "costs (2 * length steps) (resolve_all C L r steps)"
  unfolding resolve_all_def
  by (rule costs_bind [OF costs_resolve_loop, of 0]) (auto split: prod.split)

lemma costs_actions:
  "costs (Suc (Suc 0)) (secret_update C e params)"
  "costs (Suc (Suc 0)) (secret_read C L e params)"
  "costs (Suc (Suc 0)) (configmap_update C e params)"
  "costs (Suc (Suc 0)) (restart_workload C kind kn ns n stamp)"
  "costs (Suc (Suc 0)) (wait_step C L params)"
  "costs (Suc (Suc 0)) (assert_step L params)"
  unfolding secret_update_def secret_read_def configmap_update_def restart_workload_def wait_step_def
    assert_step_def Let_def
  by (intro costs_branch costs_bind_free costs_bind_one costs_free costs_request; simp)+

lemma costs_execute: "costs 2 (execute C L e action params)"
proof -
  have "costs (Suc (Suc 0)) (rollout_restart C L e params)"
    unfolding rollout_restart_def Let_def
    by (intro costs_branch costs_bind_free costs_free costs_actions)
  then show ?thesis
    unfolding execute_def numeral_2_eq_2 by (intro costs_branch costs_actions costs_free)
qed

lemma costs_execute_one_step: "costs 2 (execute_one_step C L e rs)"
  unfolding execute_one_step_def Let_def
  by (intro costs_branch costs_bind_free costs_free costs_status_ops costs_bind [OF costs_execute, of 0]) simp_all

lemma costs_partitioned_loop: "costs (Suc (2 * length steps)) (partitioned_loop C L e steps)"
proof (induction steps)
  case (Cons rs steps)
  show ?case
    unfolding partitioned_loop.simps
    by (rule costs_bind [OF costs_execute_one_step, of "Suc (2 * length steps)"])
       (auto split: option.split intro: Cons.IH costs_marks)
qed (simp add: costs_marks)

lemma costs_native: "costs (Suc (2 * length steps)) (execute_api_native_steps C L steps)"
proof -
  have "length (filter (\<lambda>r. \<not> is_runner r) steps) \<le> length steps" by simp
  then show ?thesis
    unfolding execute_api_native_steps_def native_loop_partitioned
    by (intro costs_bind_free costs_free costs_mono [OF costs_partitioned_loop]) simp
qed

lemma costs_from_partitioned:
  "costs (Suc (2 * length (ps_api_native p))) (execute_api_native_steps_from_partitioned C L p)"
  unfolding execute_api_native_steps_from_partitioned_def
  by (intro costs_branch costs_bind_free costs_free costs_partitioned_loop costs_marks)

lemma costs_collect_outputs: "costs 2 (collect_runner_outputs C R)"
proof -
  have "costs (Suc (Suc 0)) (collect_runner_outputs C R)"
    unfolding collect_runner_outputs_def
    by (intro costs_branch costs_bind_free costs_bind_one costs_free costs_request)
       (auto split: list.split pod_logs.split intro!: costs_bind_one costs_request)
  then show ?thesis by (simp add: numeral_2_eq_2)
qed

lemma costs_collect_logs_loop: "costs (length steps) (collect_logs_loop C ns pod i steps)"
proof (induction steps arbitrary: i)
  case (Cons rs steps)
  show ?case
    unfolding collect_logs_loop.simps Let_def list.size
    by (rule costs_bind [of 1 _ "length steps"])
       (auto split: pod_logs.split intro: Cons.IH costs_request costs_bind_free)
qed simp

lemma costs_collect_logs: "costs (Suc (length steps)) (collect_runner_logs C R steps)"
  unfolding collect_runner_logs_def
  by (intro costs_branch costs_bind_free costs_bind_one costs_free costs_request)
     (auto split: list.split intro: costs_collect_logs_loop)

lemma costs_mark_loops [simp]:
  "costs n (mark_running_loop steps)"
  "costs n (mark_runner_succeeded_loop d outs steps)"
  "costs n (mark_runner_failed_loop d steps)"
  by (induction steps) (simp_all add: Let_def costs_bind_free)

lemma costs_submit_job: "costs 2 (submit_job C L steps)"
proof -
  have update: "costs 1 (do {
      u \<leftarrow> update_status C;
      (case u of Some err \<Rightarrow> return (f err) | None \<Rightarrow> return r) })" for f :: "api_error \<Rightarrow> reconcile_result" and r
    by (rule costs_bind [OF costs_update_status [of 0], of 0]) (auto split: option.split)
  have "costs (Suc 1) (submit_job C L steps)"
    unfolding submit_job_def
    by (intro costs_branch costs_bind_free [OF costs_free(3)] costs_bind_one [OF costs_request]
        costs_bind_free [OF costs_mark_loops(1)] costs_free costs_marks update) simp
  then show ?thesis by (simp add: numeral_2_eq_2)
qed

lemma costs_ensure_params: "costs 2 (ensure_params_config_map C L steps)"
proof -
  have "costs (Suc (Suc 0)) (ensure_params_config_map C L steps)"
    unfolding ensure_params_config_map_def Let_def
    by (intro costs_branch costs_bind_free costs_bind_one costs_free costs_request) simp_all
  then show ?thesis by (simp add: numeral_2_eq_2)
qed

lemma costs_reconcile_job:
  "costs (5 + length (ps_runner p) + 2 * length (ps_api_native p)) (reconcile_job C L R p)"
    (is "costs ?n _")
proof -
  have create: "costs 4 (create_runner_job C L p)"
    unfolding create_runner_job_def
    by (rule costs_bind [OF costs_ensure_params, of 2])
       (auto split: option.split intro: costs_submit_job costs_mono [OF costs_marks(1) [of 0]])
  have outputs: "costs (3 + 2 * length (ps_api_native p)) (do {
      stepOutputs \<leftarrow> collect_runner_outputs C R;
      mark_runner_succeeded_loop d stepOutputs (ps_runner p);
      execute_api_native_steps_from_partitioned C L p })" for d
    by (rule costs_bind [OF costs_collect_outputs, of "Suc (2 * length (ps_api_native p))"])
       (auto intro: costs_bind_free costs_from_partitioned)
  have succeeded: "costs (4 + length (ps_runner p) + 2 * length (ps_api_native p)) (do {
      collect_runner_logs C R (ps_runner p);
      stepOutputs \<leftarrow> collect_runner_outputs C R;
      mark_runner_succeeded_loop d stepOutputs (ps_runner p);
      execute_api_native_steps_from_partitioned C L p })" for d
    by (rule costs_bind [OF costs_collect_logs outputs]) simp
  have failed: "costs (4 + length (ps_runner p) + 2 * length (ps_api_native p)) (do {
      collect_runner_logs C R (ps_runner p);
      mark_runner_failed_loop d (ps_runner p);
      after_mark (mark_failed C L reason message) })" for d reason message
    by (rule costs_bind [OF costs_collect_logs, of 1])
       (auto intro!: costs_bind_free costs_marks(1) [of 0, simplified])
  show ?thesis
    unfolding reconcile_job_def
    by (rule costs_bind_free [OF costs_free(3)],
        rule costs_bind [of 1 _ "4 + length (ps_runner p) + 2 * length (ps_api_native p)"])
       (auto split: sum.split intro: costs_request succeeded failed costs_mono [OF create])
qed

lemma costs_reconcile_cron_job: "costs 2 (reconcile_cron_job C L p)"
proof -
  have "costs (Suc (Suc 0)) (reconcile_cron_job C L p)"
    unfolding reconcile_cron_job_def
    by (intro costs_branch costs_bind_free costs_bind_one costs_free costs_request costs_marks) simp_all
  then show ?thesis by (simp add: numeral_2_eq_2)
qed

lemma partition_length:
  "length (ps_runner (partition_steps resolved)) + length (ps_api_native (partition_steps resolved)) = length resolved"
  by (simp add: length_filter_partition)

lemma costs_dispatch: "costs (4 + 2 * length resolved) (dispatch_steps C L R resolved)"
proof -
  let ?n = "4 + 2 * length resolved" and ?p = "partition_steps resolved"
  have job: "costs ?n (reconcile_job C L R ?p)" if "length (ps_runner ?p) > 0"
    by (rule costs_mono [OF costs_reconcile_job]) (use that partition_length [of resolved] in linarith)
  have cron_job: "costs ?n (reconcile_cron_job C L ?p)"
    by (rule costs_mono [OF costs_reconcile_cron_job]) linarith
  have native: "costs ?n (execute_api_native_steps C L resolved)"
    by (rule costs_mono [OF costs_native]) linarith
  show ?thesis
    unfolding dispatch_steps_def Let_def
    by (rule costs_bind_free [OF costs_free(3)]) (intro costs_branch(1) job cron_job native; assumption)
qed

lemma costs_reconcile_validated: "costs (5 + 2 * length resolved) (reconcile_validated C L R resolved)"
proof -
  have start: "costs (5 + 2 * length resolved) (do {
      e \<leftarrow> set_phase C TaskRunPhaseRunning;
      (case e of
         Some err \<Rightarrow> return (Returned 0 (Some (f err)))
       | None \<Rightarrow> dispatch_steps C L R resolved) })" for f
    by (rule costs_bind [OF costs_set_phase [of 0], of "4 + 2 * length resolved"])
       (auto split: option.split intro: costs_dispatch)
  show ?thesis
    unfolding reconcile_validated_def
    by (intro costs_branch costs_bind_free costs_free costs_status_ops start
        costs_mono [OF costs_dispatch] costs_mono [OF costs_marks(1) [of 0]]) simp_all
qed

lemma costs_after_read: "costs (5 + 4 * length (trs_steps (tr_spec tr))) (after_read C L R tr)"
proof -
  let ?n = "length (trs_steps (tr_spec tr))"
  let ?rest = "\<lambda>x. case x of
      Inl err \<Rightarrow> after_mark (mark_failed C L ''ResolutionFailed'' err)
    | Inr resolved \<Rightarrow> reconcile_validated C L R resolved"
  have "costs (5 + 2 * ?n) (?rest x)" if "\<forall>resolved. x = Inr resolved \<longrightarrow> map rs_step resolved = trs_steps (tr_spec tr)" for x
  proof (cases x)
    case (Inl err)
    then show ?thesis by (auto intro: costs_mono [OF costs_marks(1) [of 0]])
  next
    case (Inr resolved)
    with that have "length resolved = ?n" by (metis length_map)
    with Inr show ?thesis using costs_reconcile_validated [of resolved C L R] by simp
  qed
  then have "wp (resolve_all C L r (trs_steps (tr_spec tr))) (\<lambda>x _. costs (5 + 2 * ?n) (?rest x)) s" for r s
    by (intro wp_mono [OF wp_resolve_all_steps]) blast
  then have "costs (5 + 4 * ?n) (State_Monad.bind (resolve_all C L r (trs_steps (tr_spec tr))) ?rest)" for r
    by (rule costs_bind_wp [OF costs_resolve_all]) simp
  then show ?thesis
    unfolding after_read_def by (intro costs_branch costs_free)
qed

section \<open>Ending\<close>

fun completes :: "'w client \<Rightarrow> lib \<Rightarrow> api_call \<Rightarrow> 'w st \<Rightarrow> bool" where
  \<comment> \<open>a last request after which nothing is left to do, with the answer that says so: an accepted
     terminal status, or the CronJob of the TaskRun in memory, found or created\<close>
  "completes C L (UpdateStatus tr) s' \<longleftrightarrow>
     terminal (phase_of tr) \<and> (\<exists>w. cl_update_status C tr w = (Inr (task s'), ext s'))"
| "completes C L (GetCronJob k) s' \<longleftrightarrow>
     k = runner_key (task s') \<and> (\<exists>w cj. cl_get_cron_job C k w = (Inr cj, ext s'))"
| "completes C L (CreateCronJob cj) s' \<longleftrightarrow>
     (\<exists>steps. build_cron_job L (task s') steps = Some (Inr cj))
     \<and> (\<exists>w. cl_create_cron_job C cj w = (None, ext s'))"
| "completes C L _ s' \<longleftrightarrow> False"

fun calls_again :: "reconcile_result \<Rightarrow> bool" where
  "calls_again Panicked = True"
| "calls_again (Returned d e) = (d = (if e = None then requeue_interval else 0))"

definition settled :: "'w client \<Rightarrow> lib \<Rightarrow> 'w st \<Rightarrow> reconcile_result \<Rightarrow> 'w st \<Rightarrow> bool" where
  "settled C L s r s' \<longleftrightarrow> calls_again r
     \<or> r = Returned 0 None \<and> (\<exists>cs c. calls s' = calls s @ cs @ [c] \<and> completes C L c s')"

definition settles :: "'w client \<Rightarrow> lib \<Rightarrow> ('w, reconcile_result) prog \<Rightarrow> bool" where
  \<comment> \<open>not to be called again means completed\<close>
  "settles C L m \<longleftrightarrow> (\<forall>s. wp m (settled C L s) s)"

lemma settlesD: "settles C L m \<Longrightarrow> run_state m s = (r, s') \<Longrightarrow> settled C L s r s'"
  unfolding settles_def by (auto dest!: wpD)

lemma settled_again [simp]: "calls_again r \<Longrightarrow> settled C L s r s'"
  by (simp add: settled_def)

lemma settles_return: "calls_again r \<Longrightarrow> settles C L (return r)"
  by (simp add: settles_def settled_def)

lemma settled_append: "calls s1 = calls s @ cs \<Longrightarrow> settled C L s1 r s' \<Longrightarrow> settled C L s r s'"
  unfolding settled_def by fastforce

lemma settles_bind:
  assumes m: "moves C m" and f: "\<And>x. settles C L (f x)"
  shows "settles C L (State_Monad.bind m f)"
  unfolding settles_def wp_run
proof (intro allI impI)
  fix s r s'
  assume run: "run_state (State_Monad.bind m f) s = (r, s')"
  obtain x s1 where s1: "run_state m s = (x, s1)" by (cases "run_state m s")
  with run have "run_state (f x) s1 = (r, s')" by simp
  with steps_append [OF movesD [OF m s1]] show "settled C L s r s'"
    by (auto intro: settled_append settlesD [OF f])
qed

lemma settles_branch:
  "(b \<Longrightarrow> settles C L m1) \<Longrightarrow> (\<not> b \<Longrightarrow> settles C L m2) \<Longrightarrow> settles C L (if b then m1 else m2)"
  "settles C L m \<Longrightarrow> (\<And>a. settles C L (f a)) \<Longrightarrow> settles C L (case x of None \<Rightarrow> m | Some a \<Rightarrow> f a)"
  "(\<And>a. settles C L (f1 a)) \<Longrightarrow> (\<And>c. settles C L (g1 c)) \<Longrightarrow>
     settles C L (case y of Inl a \<Rightarrow> f1 a | Inr c \<Rightarrow> g1 c)"
  by (simp_all split: option.split sum.split)

text \<open>A status write with a terminal phase settles: an error is returned, and otherwise the API has
  accepted it.\<close>

lemma settled_ended:
  "calls s' = calls s @ [UpdateStatus tr] \<Longrightarrow> terminal (phase_of tr) \<Longrightarrow> ended_by C tr r s' \<Longrightarrow>
     settled C L s r s'"
  by (auto simp: settled_def ended_by_def)

lemma wp_marks_settled:
  "wp (after_mark (mark_failed C L reason message)) (settled C L s) s"
  "wp (after_mark (mark_succeeded C L)) (settled C L s) s"
proof -
  show "wp (after_mark (mark_failed C L reason message)) (settled C L s) s"
    by (rule wp_mono [OF wp_mark_ended(1)]) (auto intro: settled_ended)
  show "wp (after_mark (mark_succeeded C L)) (settled C L s) s"
    by (rule wp_mono [OF wp_mark_ended(2)]) (auto intro: settled_ended)
qed

lemma settles_marks:
  "settles C L (after_mark (mark_failed C L reason message))"
  "settles C L (after_mark (mark_succeeded C L))"
  unfolding settles_def by (intro allI wp_marks_settled)+

lemma settles_partitioned_loop: "settles C L (partitioned_loop C L e steps)"
  by (induction steps)
    (simp_all add: settles_marks settles_bind [OF moves_execute_one_step] settles_branch)

lemma settles_native: "settles C L (execute_api_native_steps C L steps)"
  unfolding execute_api_native_steps_def native_loop_partitioned
  by (intro settles_bind [OF moves_get_task] settles_partitioned_loop)

lemma settles_from_partitioned: "settles C L (execute_api_native_steps_from_partitioned C L p)"
  unfolding execute_api_native_steps_from_partitioned_def
  by (intro settles_branch settles_bind [OF moves_get_task] settles_partitioned_loop settles_marks)

lemma settles_reconcile_job: "settles C L (reconcile_job C L R p)"
proof -
  have get: "moves C (request (GetJob k) (cl_get_job C k))" for k
    by (rule moves_request) simp_all
  have create: "moves C (request (CreateJob j) (cl_create_job C j))" for j
    by (rule moves_request) simp_all
  have submit: "settles C L (submit_job C L (ps_runner p))"
    unfolding submit_job_def
    by (intro settles_bind [OF moves_get_task] settles_bind [OF create] settles_bind [OF moves_mark_loops(1)]
        settles_bind [OF moves_update_status] settles_branch settles_return settles_marks)
       simp_all
  show ?thesis
    unfolding reconcile_job_def create_runner_job_def
    by (intro settles_bind [OF moves_get_task] settles_bind [OF get] settles_branch
        settles_bind [OF moves_ensure_params] settles_bind [OF moves_collect_logs]
        settles_bind [OF moves_collect_outputs] settles_bind [OF moves_mark_loops(2)]
        settles_bind [OF moves_mark_loops(3)] settles_return settles_marks submit
        settles_from_partitioned)
       simp_all
qed

lemma settles_reconcile_cron_job:
  fixes C :: "'w client"
  shows "settles C L (reconcile_cron_job C L p)"
  unfolding settles_def
proof
  fix s :: "'w st"
  let ?k = "runner_key (task s)"
  obtain x w where x: "cl_get_cron_job C ?k (ext s) = (x, w)" by (cases "cl_get_cron_job C ?k (ext s)")
  let ?s1 = "s\<lparr>ext := w, calls := calls s @ [GetCronJob ?k]\<rparr>"
  have failed: "wp (after_mark (mark_failed C L reason message)) (settled C L s) ?s1" for reason message
    by (rule wp_mono [OF wp_marks_settled(1)]) (auto intro: settled_append [of ?s1 s "[GetCronJob ?k]"])
  have created: "wp (do {
      c \<leftarrow> request (CreateCronJob cj) (cl_create_cron_job C cj);
      (case c of
         Some err \<Rightarrow> return (Returned 0 (Some (msg err)))
       | None \<Rightarrow> return (Returned 0 None)) }) (settled C L s) ?s1"
    if "build_cron_job L (task s) (ps_runner p) = Some (Inr cj)" for cj msg
    using that
    by (cases "fst (cl_create_cron_job C cj w)")
       (auto simp: settled_def split: prod.split intro!: exI [of _ "[GetCronJob ?k]"])
  show "wp (reconcile_cron_job C L p) (settled C L s) s"
  proof (cases x)
    case (Inr cj)
    with x show ?thesis by (auto simp: reconcile_cron_job_def settled_def)
  next
    case (Inl err)
    note unfold = reconcile_cron_job_def x Inl wp_bind wp_get_task wp_request prod.case sum.case
    show ?thesis
    proof (cases "build_cron_job L (task s) (ps_runner p)")
      case None
      then show ?thesis by (simp add: unfold)
    next
      case (Some b)
      with failed created show ?thesis
        by (cases b) (simp_all add: unfold del: wp_after_mark)
    qed
  qed
qed

lemma settles_reconcile_validated: "settles C L (reconcile_validated C L R resolved)"
proof -
  have dispatch: "settles C L (dispatch_steps C L R resolved)"
    unfolding dispatch_steps_def Let_def
    by (intro settles_bind [OF moves_get_task] settles_branch settles_reconcile_job
        settles_reconcile_cron_job settles_native)
  have phase: "moves C (set_phase C TaskRunPhaseRunning)"
    by (rule moves_set_phase) simp
  show ?thesis
    unfolding reconcile_validated_def
    by (intro settles_branch settles_bind [OF moves_get_task] settles_bind [OF moves_status_ops(1)]
        settles_bind [OF phase] settles_return settles_marks dispatch) simp
qed

lemma settles_after_read: "\<not> terminal (phase_of tr) \<Longrightarrow> settles C L (after_read C L R tr)"
  unfolding after_read_def
  by (intro settles_branch settles_bind [OF moves_resolve_all] settles_marks settles_reconcile_validated)
    (auto simp: terminal_def)

section \<open>Properties\<close>

text \<open>C21: one call of \<open>Reconcile\<close> does a bounded amount of work: it sends at most four requests per
  step of the TaskRun it reads and six more, whatever the API answers; there is no unbounded
  retry or polling inside a call.\<close>

theorem reconcile_requests_bounded:
  assumes run: "run_state (reconcile C L R req) s = (r, s')"
    and get: "fst (cl_get_task_run C req (ext s)) = Inr tr"
  shows "length (calls s') \<le> length (calls s) + 4 * length (trs_steps (tr_spec tr)) + 6"
proof -
  obtain w where w: "cl_get_task_run C req (ext s) = (Inr tr, w)"
    using get by (cases "cl_get_task_run C req (ext s)") simp
  with run have "run_state (after_read C L R tr) (loaded s req tr w) = (r, s')"
    by (simp add: reconcile_loaded)
  from costsD [OF costs_after_read this] show ?thesis by simp
qed

theorem reconcile_requests_bounded_witness:
  "length (calls (snd example_after)) \<le> 14"
  using reconcile_requests_bounded [OF example_run example_get]
  by (simp add: example_before_def example_state_def example_task_run_def example_spec_def)

text \<open>C5: a TaskRun is not forgotten: for a TaskRun it could read, \<open>Reconcile\<close> returns an error, or asks
  to be called again after five seconds, or is done with it. It is done only if the TaskRun it
  read had ended already, and then it sent nothing; or if its last request has completed it: the
  API accepted a terminal status, answered with the CronJob of the TaskRun, or accepted the
  creation of the CronJob built from it.\<close>

theorem done_means_ended:
  assumes run: "run_state (reconcile C L R req) s = (r, s')"
    and get: "cl_get_task_run C req (ext s) = (Inr tr, w)"
  shows "(\<exists>err. r = Returned 0 (Some err)) \<or> r = Returned (5 * second) None
     \<or> r = Returned 0 None
       \<and> (terminal (phase_of tr) \<and> calls s' = calls s @ [GetTaskRun req] \<and> task s' = tr
          \<or> (\<exists>cs t w2. calls s' = calls s @ cs @ [UpdateStatus t] \<and> terminal (phase_of t)
               \<and> cl_update_status C t w2 = (Inr (task s'), ext s'))
          \<or> (\<exists>cs w2 cj. calls s' = calls s @ cs @ [GetCronJob (runner_key (task s'))]
               \<and> cl_get_cron_job C (runner_key (task s')) w2 = (Inr cj, ext s'))
          \<or> (\<exists>cs cj w2 steps. calls s' = calls s @ cs @ [CreateCronJob cj]
               \<and> build_cron_job L (task s') steps = Some (Inr cj)
               \<and> cl_create_cron_job C cj w2 = (None, ext s')))"
proof -
  from run get have rest: "run_state (after_read C L R tr) (loaded s req tr w) = (r, s')"
    by (simp add: reconcile_loaded)
  show ?thesis
  proof (cases "terminal (phase_of tr)")
    case True
    with rest show ?thesis by (auto simp: after_read_def terminal_def)
  next
    case False
    have "settled C L s r s'"
      using settlesD [OF settles_after_read [OF False] rest]
      by (rule settled_append [rotated]) simp
    then show ?thesis
      unfolding settled_def
    proof (elim disjE conjE exE, goal_cases)
      case 1
      have "r \<noteq> Panicked"
        using run never_panics_reconcile [unfolded never_panics_iff] by (metis fst_conv)
      with 1 show ?thesis
        by (cases r) (auto simp: requeue_interval_def split: if_splits)
    next
      case (2 cs c)
      then show ?thesis by (cases c) auto
    qed
  qed
qed

theorem done_means_ended_witness:
  "\<exists>cs t w. calls (snd example_after) = cs @ [UpdateStatus t] \<and> terminal (phase_of t)
     \<and> cl_update_status example_client t w = (Inr (task (snd example_after)), ext (snd example_after))"
proof -
  have get: "cl_get_task_run example_client (NamespacedName ''apps'' ''demo'') (ext example_before)
      = (Inr (example_task_run [] example_spec), example_cluster)"
    by (simp add: example_before_def example_state_def example_client_def found_def example_cluster_def)
  have "\<not> terminal (phase_of (example_task_run [] example_spec))" "calls example_before = []"
    "5 * second \<noteq> 0"
    by (simp_all add: example_task_run_def terminal_def example_before_def example_state_def second_def)
  with done_means_ended [OF example_run get] example_calls(3,4)
  show ?thesis by auto
qed

end
