(* ===== verification/Contracts.thy ===== *)
theory Contracts
  imports Steps
begin

text \<open>
  Contracts of computations: from a TaskRun that satisfies \<open>I\<close>, a computation leaves one that
  satisfies \<open>J\<close>, and the requests it sends and the metrics it observes are related by \<open>R\<close>. The
  locale \<open>reconcile_contract\<close> says what \<open>I\<close>, \<open>J\<close> and \<open>R\<close> have to satisfy at the few places where
  the controller writes the status or creates an object; from that it derives the contract of
  every function of the controller and of \<open>Reconcile\<close>, once for all its interpretations.
\<close>

section \<open>Triples\<close>

definition keeps ::
  "(task_run \<Rightarrow> bool) \<Rightarrow> (api_call list \<Rightarrow> metric list \<Rightarrow> bool) \<Rightarrow> (task_run \<Rightarrow> bool)
     \<Rightarrow> ('w, 'a) prog \<Rightarrow> bool" where
  "keeps I R J m \<longleftrightarrow>
     (\<forall>s. I (task s) \<longrightarrow> wp m (\<lambda>_ s'. J (task s')
        \<and> (\<exists>cs ms. calls s' = calls s @ cs \<and> metrics s' = metrics s @ ms \<and> R cs ms)) s)"

lemma keepsD:
  assumes "keeps I R J m" and "I (task s)" and "run_state m s = (r, s')"
  obtains cs ms where "J (task s')" and "calls s' = calls s @ cs" and "metrics s' = metrics s @ ms" and "R cs ms"
  using assms unfolding keeps_def wp_run by blast

lemma keeps_conseq:
  "keeps I R J m \<Longrightarrow> (\<And>t. I' t \<Longrightarrow> I t) \<Longrightarrow> (\<And>t. J t \<Longrightarrow> J' t) \<Longrightarrow> keeps I' R J' m"
  unfolding keeps_def by (fastforce elim: wp_mono)

lemma keeps_branch:
  "(b \<Longrightarrow> keeps I R J m1) \<Longrightarrow> (\<not> b \<Longrightarrow> keeps I R J m2) \<Longrightarrow> keeps I R J (if b then m1 else m2)"
  "(x = None \<Longrightarrow> keeps I R J m) \<Longrightarrow> (\<And>a. x = Some a \<Longrightarrow> keeps I R J (f a)) \<Longrightarrow>
     keeps I R J (case x of None \<Rightarrow> m | Some a \<Rightarrow> f a)"
  "(\<And>a. y = Inl a \<Longrightarrow> keeps I R J (f1 a)) \<Longrightarrow> (\<And>c. y = Inr c \<Longrightarrow> keeps I R J (g1 c)) \<Longrightarrow>
     keeps I R J (case y of Inl a \<Rightarrow> f1 a | Inr c \<Rightarrow> g1 c)"
  "(\<And>a b. keeps I R J (f2 a b)) \<Longrightarrow> keeps I R J (case p of (a, b) \<Rightarrow> f2 a b)"
  "keeps I R J m3 \<Longrightarrow> (\<And>z zs. keeps I R J (f3 z zs)) \<Longrightarrow> keeps I R J (case l of [] \<Rightarrow> m3 | z # zs \<Rightarrow> f3 z zs)"
  "(\<And>e. keeps I R J (h1 e)) \<Longrightarrow> (\<And>e. keeps I R J (h2 e)) \<Longrightarrow> (\<And>b. keeps I R J (h3 b)) \<Longrightarrow>
     keeps I R J (case q of StreamError e \<Rightarrow> h1 e | ReadError e \<Rightarrow> h2 e | LogBytes b \<Rightarrow> h3 b)"
  by (simp_all split: option.split sum.split prod.split list.split pod_logs.split)

text \<open>A look at the TaskRun in memory fixes it for what follows.\<close>

lemma keeps_get_task:
  "(\<And>t. I t \<Longrightarrow> keeps (\<lambda>u. u = t) R J (f t)) \<Longrightarrow> keeps I R J (State_Monad.bind get_task f)"
  by (simp add: keeps_def)

section \<open>Relations of requests and metrics\<close>

locale trace_relation =
  fixes R :: "api_call list \<Rightarrow> metric list \<Rightarrow> bool"
  assumes silent: "R [] []"
    and appended: "R cs ms \<Longrightarrow> R ds ns \<Longrightarrow> R (cs @ ds) (ms @ ns)"
begin

lemma keeps_return: "(\<And>t. I t \<Longrightarrow> J t) \<Longrightarrow> keeps I R J (return x)"
  using silent by (force simp: keeps_def)

lemma keeps_bind:
  assumes m: "keeps I R K m" and f: "\<And>x. keeps K R J (f x)"
  shows "keeps I R J (State_Monad.bind m f)"
  unfolding keeps_def wp_run
proof (intro allI impI)
  fix s r s'
  assume I: "I (task s)" and run: "run_state (State_Monad.bind m f) s = (r, s')"
  obtain x s1 where s1: "run_state m s = (x, s1)" by (cases "run_state m s")
  with run have rest: "run_state (f x) s1 = (r, s')" by simp
  obtain cs ms where 1: "K (task s1)" "calls s1 = calls s @ cs" "metrics s1 = metrics s @ ms" "R cs ms"
    by (rule keepsD [OF m I s1])
  obtain ds ns where 2: "J (task s')" "calls s' = calls s1 @ ds" "metrics s' = metrics s1 @ ns" "R ds ns"
    by (rule keepsD [OF f 1(1) rest])
  from 1 2 appended [OF 1(4) 2(4)]
  show "J (task s') \<and> (\<exists>cs ms. calls s' = calls s @ cs \<and> metrics s' = metrics s @ ms \<and> R cs ms)"
    by auto
qed

lemma keeps_request: "R [c] [] \<Longrightarrow> keeps I R I (request c op1)"
  by (force simp: keeps_def split: prod.split)

lemma keeps_ask: "keeps I R I (ask op1)"
  using silent by (force simp: keeps_def split: prod.split)

lemma keeps_observe: "R [] ms \<Longrightarrow> keeps I R I (observe ms)"
  by (force simp: keeps_def)

lemma keeps_modify: "(\<And>t. I t \<Longrightarrow> J (edit_task f t)) \<Longrightarrow> keeps I R J (modify_status f)"
  using silent by (force simp: keeps_def)

lemma keeps_update:
  assumes "\<And>t. I t \<Longrightarrow> R [UpdateStatus t] []" and "\<And>t. I t \<Longrightarrow> J t"
    and "\<And>t w tr w'. I t \<Longrightarrow> cl_update_status C t w = (Inr tr, w') \<Longrightarrow> J tr"
  shows "keeps I R J (update_status C)"
  unfolding keeps_def using assms by (force split: prod.split sum.split)

lemma keeps_after_mark: "keeps I R J m \<Longrightarrow> keeps I R J (after_mark m)"
  unfolding after_mark_def by (rule keeps_bind, assumption, rule keeps_return)

lemma keeps_seq: "keeps I R I m \<Longrightarrow> (\<And>x. keeps I R J (f x)) \<Longrightarrow> keeps I R J (State_Monad.bind m f)"
  by (rule keeps_bind)

lemma keeps_skip: "keeps I R I (return x)"
  by (rule keeps_return)

end

section \<open>The controller\<close>

fun creates_runner :: "api_call \<Rightarrow> bool" where
  "creates_runner (CreateJob _) = True"
| "creates_runner (CreateCronJob _) = True"
| "creates_runner _ = False"

fun is_step_metric :: "metric \<Rightarrow> bool" where
  "is_step_metric (StepTotal _ _ _) = True"
| "is_step_metric (StepDuration _ _ _) = True"
| "is_step_metric _ = False"

definition failure_reasons :: "string set" where
  \<comment> \<open>the reasons \<open>Reconcile\<close> gives for a failure\<close>
  "failure_reasons =
     {''ResolutionFailed'', ''ValidationFailed'', ''InvalidStepOrdering'', ''StepFailed'', ''RunnerFailed'',
      ''ParamsConfigMapFailed'', ''JobBuildFailed'', ''CronJobBuildFailed''}"

lemma failure_reasons_simps [simp]:
  "''ResolutionFailed'' \<in> failure_reasons"
  "''ValidationFailed'' \<in> failure_reasons"
  "''InvalidStepOrdering'' \<in> failure_reasons"
  "''StepFailed'' \<in> failure_reasons"
  "''RunnerFailed'' \<in> failure_reasons"
  "''ParamsConfigMapFailed'' \<in> failure_reasons"
  "''JobBuildFailed'' \<in> failure_reasons"
  "''CronJobBuildFailed'' \<in> failure_reasons"
  by (simp_all add: failure_reasons_def)

locale reconcile_contract = trace_relation R
  for R :: "api_call list \<Rightarrow> metric list \<Rightarrow> bool" +
  fixes C :: "'w client" and L :: lib and I :: "task_run \<Rightarrow> bool" and J :: "task_run \<Rightarrow> bool"
  assumes unfinished: "I t \<Longrightarrow> J t"
    and table: "I t \<Longrightarrow> I (edit_task (\<lambda>st. st\<lparr>ts_steps := ss\<rparr>) t)"
    and other_request: "\<not> is_status_update c \<Longrightarrow> \<not> creates_runner c \<Longrightarrow> R [c] []"
    and step_metrics: "list_all is_step_metric ms \<Longrightarrow> R [] ms"
    and job: "I t \<Longrightarrow> build L t steps = Some (Inr (Some j)) \<Longrightarrow> R [CreateJob j] []"
    and cron_job: "I t \<Longrightarrow> build_cron_job L t steps = Some (Inr cj) \<Longrightarrow> R [CreateCronJob cj] []"
    and running: "keeps I R I (set_phase C TaskRunPhaseRunning)"
    and update: "keeps I R I (update_status C)"
    and failed: "reason \<in> failure_reasons \<Longrightarrow> keeps I R J (mark_failed C L reason message)"
    and succeeded: "keeps I R J (mark_succeeded C L)"
begin

lemma keeps_table: "keeps I R I (modify_status (\<lambda>st. st\<lparr>ts_steps := f (ts_steps st)\<rparr>))"
proof (rule keeps_modify)
  fix t
  assume "I t"
  from table [OF this, of "f (ts_steps (tr_status t))"]
  show "I (edit_task (\<lambda>st. st\<lparr>ts_steps := f (ts_steps st)\<rparr>) t)" by simp
qed

lemma keeps_status_ops:
  "keeps I R I (set_step_status x)"
  "keeps I R I (mark_step_succeeded n d outs a)"
  "keeps I R I (mark_step_failed n d msg a)"
proof -
  show set: "keeps I R I (set_step_status x)" for x
    unfolding set_step_status_def by (rule keeps_table)
  have metrics: "keeps I R I (State_Monad.bind get_task (\<lambda>tr. observe [StepTotal (tr_namespace tr) a p,
      StepDuration (tr_namespace tr) a d]))" for p
    by (rule keeps_get_task, rule keeps_conseq [OF keeps_observe [OF step_metrics, where I = I]]) simp_all
  show "keeps I R I (mark_step_succeeded n d outs a)" "keeps I R I (mark_step_failed n d msg a)"
    unfolding mark_step_succeeded_def mark_step_failed_def by (rule keeps_seq [OF set metrics])+
qed

lemma keeps_init: "keeps I R I (init_step_statuses steps)"
  unfolding init_step_statuses_def using keeps_table [of "\<lambda>_. map pending_status steps"] .

text \<open>A computation that looks at the TaskRun only to address its requests.\<close>

lemma keeps_get_any: "(\<And>t. keeps I R J' (f t)) \<Longrightarrow> keeps I R J' (State_Monad.bind get_task f)"
  by (rule keeps_get_task, rule keeps_conseq [where I = I and J = J']) simp_all

lemma keeps_other: "\<not> is_status_update c \<Longrightarrow> \<not> creates_runner c \<Longrightarrow> keeps I R I (request c op1)"
  by (rule keeps_request [OF other_request])

lemmas keeps_rules = keeps_get_any keeps_seq keeps_skip keeps_ask keeps_branch keeps_other

lemma keeps_execute: "keeps I R I (execute C L e action params)"
proof -
  have restart: "keeps I R I (restart_workload C kind kn ns n stamp)" for kind kn ns n stamp
    unfolding restart_workload_def Let_def by (intro keeps_rules) simp_all
  show ?thesis
    unfolding execute_def secret_update_def secret_read_def configmap_update_def rollout_restart_def
      wait_step_def assert_step_def Let_def
    by (intro keeps_rules restart) simp_all
qed

lemma keeps_execute_one_step: "keeps I R I (execute_one_step C L e rs)"
  unfolding execute_one_step_def Let_def
  by (intro keeps_rules keeps_status_ops keeps_execute)

lemma keeps_resolve_all: "keeps I R I (resolve_all C L r steps)"
proof -
  have resolve: "keeps I R I (resolve C L r a)" for r a
    unfolding resolve_def by (intro keeps_rules) simp_all
  have "keeps I R I (resolve_loop C L r steps resolved unresolved)" for r resolved unresolved
    by (induction steps arbitrary: r resolved unresolved)
      (auto intro!: keeps_rules resolve split: prod.split sum.split)
  then show ?thesis
    unfolding resolve_all_def by (intro keeps_rules)
qed

lemma keeps_partitioned_loop: "keeps I R J (partitioned_loop C L e steps)"
proof (induction steps)
  case (Cons rs steps)
  show ?case
    unfolding partitioned_loop.simps
    by (rule keeps_bind [OF keeps_execute_one_step])
       (intro keeps_branch Cons.IH keeps_after_mark failed, simp)
qed (simp add: keeps_after_mark succeeded)

lemma keeps_native: "keeps I R J (execute_api_native_steps C L steps)"
  unfolding execute_api_native_steps_def native_loop_partitioned
  by (intro keeps_get_any keeps_partitioned_loop)

lemma keeps_from_partitioned: "keeps I R J (execute_api_native_steps_from_partitioned C L p)"
  unfolding execute_api_native_steps_from_partitioned_def
  by (intro keeps_branch keeps_get_any keeps_partitioned_loop keeps_after_mark succeeded)

lemma keeps_collect_outputs: "keeps I R I (collect_runner_outputs C R')"
  unfolding collect_runner_outputs_def by (intro keeps_rules) simp_all

lemma keeps_collect_logs: "keeps I R I (collect_runner_logs C R' steps)"
proof -
  have loop: "keeps I R I (collect_logs_loop C ns pod i steps)" for ns pod i
  proof (induction steps arbitrary: i)
    case (Cons rs steps)
    show ?case
      unfolding collect_logs_loop.simps Let_def
      by (intro keeps_rules keeps_table Cons.IH) simp_all
  qed (simp add: keeps_return)
  show ?thesis
    unfolding collect_runner_logs_def by (intro keeps_rules loop) simp_all
qed

lemma keeps_mark_loops:
  "keeps I R I (mark_running_loop steps)"
  "keeps I R I (mark_runner_succeeded_loop d outs steps)"
  "keeps I R I (mark_runner_failed_loop d steps)"
  by (induction steps) (simp_all add: Let_def keeps_skip keeps_seq keeps_status_ops)

lemma keeps_ensure_params: "keeps I R I (ensure_params_config_map C L steps)"
  unfolding ensure_params_config_map_def Let_def by (intro keeps_rules) simp_all

lemma keeps_create:
  assumes "R [c] []" and "\<And>x. keeps I R J (f x)" and "I t"
  shows "keeps (\<lambda>u. u = t) R J (State_Monad.bind (request c op1) f)"
  by (rule keeps_conseq [OF keeps_bind [OF keeps_request [OF assms(1)] assms(2)], of _ J]) (use assms(3) in auto)

lemma keeps_submit_job: "keeps I R J (submit_job C L steps)"
  unfolding submit_job_def
proof (rule keeps_get_task)
  fix t
  assume t: "I t"
  have rest: "keeps I R J (case c of
         Some err \<Rightarrow> return (Returned 0 (Some (''creating Job: '' @ api_error_text err)))
       | None \<Rightarrow> do {
           mark_running_loop steps;
           u \<leftarrow> update_status C;
           (case u of
              Some err \<Rightarrow> return (Returned 0 (Some (''updating step statuses: '' @ api_error_text err)))
            | None \<Rightarrow> return (Returned requeue_interval None)) })" for c
    by (intro keeps_branch keeps_bind [OF keeps_mark_loops(1)] keeps_bind [OF update] keeps_return unfinished)
  show "keeps (\<lambda>u. u = t) R J (case build L t steps of
        None \<Rightarrow> return Panicked
      | Some (Inl err) \<Rightarrow> after_mark (mark_failed C L ''JobBuildFailed'' err)
      | Some (Inr None) \<Rightarrow> return Panicked
      | Some (Inr (Some j)) \<Rightarrow> do {
          c \<leftarrow> request (CreateJob j) (cl_create_job C j);
          (case c of
             Some err \<Rightarrow> return (Returned 0 (Some (''creating Job: '' @ api_error_text err)))
           | None \<Rightarrow> do {
               mark_running_loop steps;
               u \<leftarrow> update_status C;
               (case u of
                  Some err \<Rightarrow> return (Returned 0 (Some (''updating step statuses: '' @ api_error_text err)))
                | None \<Rightarrow> return (Returned requeue_interval None)) }) })"
    by (intro keeps_branch keeps_create rest t job [OF t] keeps_return
          keeps_conseq [OF keeps_after_mark [OF failed]]) (use t unfinished in auto)
qed

lemma keeps_reconcile_job: "keeps I R J (reconcile_job C L R' p)"
  unfolding reconcile_job_def create_runner_job_def
  by (intro keeps_get_any keeps_seq [OF keeps_other] keeps_branch keeps_bind [OF keeps_ensure_params]
      keeps_submit_job keeps_bind [OF keeps_collect_logs] keeps_bind [OF keeps_collect_outputs]
      keeps_bind [OF keeps_mark_loops(2)] keeps_bind [OF keeps_mark_loops(3)] keeps_from_partitioned
      keeps_after_mark failed keeps_return unfinished) simp_all

lemma keeps_reconcile_cron_job: "keeps I R J (reconcile_cron_job C L p)"
  unfolding reconcile_cron_job_def
proof (rule keeps_get_task)
  fix t
  assume t: "I t"
  show "keeps (\<lambda>u. u = t) R J (State_Monad.bind (request (GetCronJob (runner_key t)) (cl_get_cron_job C (runner_key t)))
     (\<lambda>r. case r of
        Inl err \<Rightarrow>
          if is_not_found err then
            (case build_cron_job L t (ps_runner p) of
               None \<Rightarrow> return Panicked
             | Some (Inl err2) \<Rightarrow> after_mark (mark_failed C L ''CronJobBuildFailed'' err2)
             | Some (Inr cronJob) \<Rightarrow> do {
                 c \<leftarrow> request (CreateCronJob cronJob) (cl_create_cron_job C cronJob);
                 (case c of
                    Some err2 \<Rightarrow> return (Returned 0 (Some (''creating CronJob: '' @ api_error_text err2)))
                  | None \<Rightarrow> return (Returned 0 None)) })
          else return (Returned 0 (Some (''getting CronJob: '' @ api_error_text err)))
      | Inr existingCronJob \<Rightarrow> return (Returned 0 None)))"
    by (rule keeps_seq [OF keeps_request [OF other_request]], simp, simp)
       (intro keeps_branch keeps_create t cron_job [OF t] keeps_return
          keeps_conseq [OF keeps_after_mark [OF failed]]; use t unfinished in auto)
qed

lemma keeps_dispatch: "keeps I R J (dispatch_steps C L R' resolved)"
  unfolding dispatch_steps_def Let_def
  by (intro keeps_get_any keeps_branch keeps_reconcile_job keeps_reconcile_cron_job keeps_native)

lemma keeps_reconcile_validated: "keeps I R J (reconcile_validated C L R' resolved)"
  unfolding reconcile_validated_def
  by (intro keeps_branch keeps_get_any keeps_after_mark failed keeps_bind [OF keeps_init]
      keeps_bind [OF running] keeps_return unfinished keeps_dispatch) simp_all

lemma keeps_after_read: "keeps I R J (after_read C L R' tr)"
  unfolding after_read_def
  by (intro keeps_branch keeps_return unfinished keeps_bind [OF keeps_resolve_all] keeps_after_mark
      failed keeps_reconcile_validated) simp_all

text \<open>What the contract says of a call of \<open>Reconcile\<close>.\<close>

lemma reconcile_keeps:
  assumes read: "R [GetTaskRun req] []"
    and I: "\<And>tr. fst (cl_get_task_run C req (ext s)) = Inr tr \<Longrightarrow> \<not> terminal (phase_of tr) \<Longrightarrow> I tr"
    and run: "run_state (reconcile C L R' req) s = (r, s')"
  obtains cs ms where "calls s' = calls s @ cs" and "metrics s' = metrics s @ ms" and "R cs ms"
proof -
  obtain a w where get: "cl_get_task_run C req (ext s) = (a, w)" by (cases "cl_get_task_run C req (ext s)")
  show thesis
  proof (cases a)
    case (Inl err)
    with get run read show ?thesis
      by (intro that [of "[GetTaskRun req]" "[]"]) (auto simp: reconcile_unread)
  next
    case (Inr tr)
    note rest = run [unfolded reconcile_loaded [OF get [unfolded Inr]]]
    show ?thesis
    proof (cases "terminal (phase_of tr)")
      case True
      with rest read show ?thesis
        by (intro that [of "[GetTaskRun req]" "[]"]) (auto simp: after_read_def terminal_def)
    next
      case False
      with I get Inr have "I (task (loaded s req tr w))" by simp
      then obtain cs ms where "calls s' = calls s @ [GetTaskRun req] @ cs" "metrics s' = metrics s @ ms" "R cs ms"
        by (rule keepsD [OF keeps_after_read _ rest]) auto
      with appended [OF read] show ?thesis by (intro that [of "[GetTaskRun req] @ cs" ms]) force+
    qed
  qed
qed

end

end
