(* ===== verification/Stability.thy ===== *)
theory Stability
  imports Contracts
begin

text \<open>
  Assertions that hold on throughout a call. An assertion about the state of the controller and
  the world is stable if no elementary step breaks it; a computation keeps it then, whatever it
  does. Creations of Jobs and CronJobs are left out, since the assertions of interest are about
  the Job: the computations that create none are listed here.
\<close>

section \<open>Stable assertions\<close>

text \<open>
  An assertion about the state is stable if it holds after every elementary step other than the
  creation of a Job or CronJob, whatever the API does to the world in it. A computation that
  creates none keeps it.
\<close>

abbreviation creates_none :: "('w, 'a) prog \<Rightarrow> bool" where
  "creates_none m \<equiv> sends (\<lambda>c. \<not> creates_runner c) m"

definition stable :: "'w client \<Rightarrow> ('w st \<Rightarrow> bool) \<Rightarrow> bool" where
  "stable C Inv \<longleftrightarrow>
     (\<forall>s s'. step C s s' \<longrightarrow> (\<forall>c. creates_runner c \<longrightarrow> calls s' \<noteq> calls s @ [c]) \<longrightarrow> Inv s \<longrightarrow> Inv s')"

lemma stable_True [simp]: "stable C (\<lambda>_. True)"
  by (simp add: stable_def)

lemma stable_steps:
  assumes "stable C Inv" and "(step C)\<^sup>*\<^sup>* s s'" and "calls s' = calls s @ cs"
    and "list_all (\<lambda>c. \<not> creates_runner c) cs" and "Inv s"
  shows "Inv s'"
  using assms(2,3,4)
proof (induction arbitrary: cs rule: rtranclp_induct)
  case (step t u)
  obtain ds where ds: "calls t = calls s @ ds" using steps_append [OF step.hyps(1)] by blast
  obtain es where es: "calls u = calls t @ es" using steps_append [of C t u] step.hyps(2) by blast
  from ds es step.prems have cs: "cs = ds @ es" by simp
  with step.prems(2) have "Inv t" by (intro step.IH [OF ds]) simp
  with assms(1) step.hyps(2) cs es step.prems(2) show ?case
    unfolding stable_def by fastforce
qed (rule assms(5))

lemma wp_stable:
  assumes "stable C Inv" and "moves C m" and "creates_none m" and "Inv s"
  shows "wp m (\<lambda>_. Inv) s"
proof -
  obtain r s' where run: "run_state m s = (r, s')" by (cases "run_state m s")
  obtain cs where "calls s' = calls s @ cs" "list_all (\<lambda>c. \<not> creates_runner c) cs"
    by (rule sendsD [OF assms(3) run])
  with run show ?thesis
    using stable_steps [OF assms(1) movesD [OF assms(2) run] _ _ assms(4)] by (simp add: wp_def)
qed

lemma wp_and_stable:
  "stable C Inv \<Longrightarrow> moves C m \<Longrightarrow> creates_none m \<Longrightarrow> Inv s \<Longrightarrow> wp m Q s \<Longrightarrow>
     wp m (\<lambda>r s'. Q r s' \<and> Inv s') s"
  by (simp only: wp_conj wp_stable simp_thms)

lemma sends_actions_creates_none: "sends is_action_call m \<Longrightarrow> creates_none m"
  by (rule sends_mono, assumption) (erule is_action_call.elims, simp_all)

lemma sends_logs_creates_none: "sends is_log_call m \<Longrightarrow> creates_none m"
  by (rule sends_mono, assumption) (erule is_log_call.elims, simp_all)

lemma sends_reads_creates_none: "sends is_definition_read m \<Longrightarrow> creates_none m"
  by (rule sends_mono, assumption) (erule is_definition_read.elims, simp_all)

lemma creates_none_native [sends_rules]:
  "creates_none (partitioned_loop C L e steps)"
  "creates_none (execute_api_native_steps C L steps)"
  "creates_none (execute_api_native_steps_from_partitioned C L p)"
proof -
  have one: "creates_none (execute_one_step C L e rs)" for e rs
    unfolding execute_one_step_def Let_def
    by (intro sends_bind sends_no_request sends_case_sum sends_status_ops sends_return
        sends_actions_creates_none sends_execute)
  show loop: "creates_none (partitioned_loop C L e steps)" for e steps
    by (induction steps)
       (simp_all, (intro sends_bind one sends_case_option sends_after_mark sends_marks | simp)+)
  show "creates_none (execute_api_native_steps C L steps)"
    unfolding execute_api_native_steps_def native_loop_partitioned by (intro sends_bind sends_no_request loop)
  show "creates_none (execute_api_native_steps_from_partitioned C L p)"
    unfolding execute_api_native_steps_from_partitioned_def
    by (intro sends_if sends_bind sends_no_request loop sends_after_mark sends_marks) simp_all
qed

lemma creates_none_others [sends_rules]:
  "creates_none (resolve_all C L r specs)"
  "creates_none (collect_runner_logs C R steps)"
  "creates_none (collect_runner_outputs C R)"
  "creates_none (ensure_params_config_map C L steps)"
  "creates_none (mark_runner_succeeded_loop d outs steps)"
  "creates_none (mark_runner_failed_loop d steps)"
  "creates_none (mark_running_loop steps)"
proof -
  show "creates_none (resolve_all C L r specs)" by (rule sends_reads_creates_none [OF sends_resolve_all])
  show "creates_none (collect_runner_logs C R steps)" by (rule sends_logs_creates_none [OF sends_collect_logs])
  show "creates_none (collect_runner_outputs C R)" by (rule sends_logs_creates_none [OF sends_collect_outputs])
  show "creates_none (ensure_params_config_map C L steps)"
    by (rule sends_ensure_params) (erule is_config_map_call.elims, simp_all)
  show "creates_none (mark_runner_succeeded_loop d outs steps)" "creates_none (mark_runner_failed_loop d steps)"
    "creates_none (mark_running_loop steps)"
    by (induction steps) (simp_all add: sends_bind Let_def)
qed

end
