(* ===== verification/Completion.thy ===== *)
theory Completion
  imports Progress Stability
begin

text \<open>
  When nothing is in the way a TaskRun ends: with an API that takes every status update, one call
  of \<open>Reconcile\<close> on a TaskRun without a schedule creates its Job if there is none, and takes the
  TaskRun to Succeeded or Failed once the Job has finished, whatever its steps are and however
  the actions of the steps go.
\<close>

section \<open>Nothing is in the way\<close>

definition takes_updates :: "'w client \<Rightarrow> bool" where
  \<comment> \<open>every status update is accepted, and answered with the TaskRun as it was sent\<close>
  "takes_updates C \<longleftrightarrow>
     (\<forall>t w. case fst (cl_update_status C t w) of
        Inl _ \<Rightarrow> False
      | Inr tr \<Rightarrow> phase_of tr = phase_of t \<and> tr_spec tr = tr_spec t
          \<and> tr_name tr = tr_name t \<and> tr_namespace tr = tr_namespace t)"

definition job_finished :: "'w client \<Rightarrow> namespaced_name \<Rightarrow> bool" where
  \<comment> \<open>the Job of that name is there and has succeeded or failed\<close>
  "job_finished C k \<longleftrightarrow>
     (\<forall>w. case fst (cl_get_job C k w) of
        Inl _ \<Rightarrow> False
      | Inr j \<Rightarrow> 0 <s jst_succeeded (job_status j) \<or> 0 <s jst_failed (job_status j))"

lemma takes_updatesE:
  assumes "takes_updates C"
  obtains tr w' where "cl_update_status C t w = (Inr tr, w')" and "phase_of tr = phase_of t"
    and "tr_spec tr = tr_spec t" and "tr_name tr = tr_name t" and "tr_namespace tr = tr_namespace t"
  using assms [unfolded takes_updates_def, rule_format, of t w]
  by (cases "cl_update_status C t w") (auto split: sum.splits)

lemma job_finishedE:
  assumes "job_finished C k"
  obtains j w' where "cl_get_job C k w = (Inr j, w')"
    and "0 <s jst_succeeded (job_status j) \<or> 0 <s jst_failed (job_status j)"
  using assms [unfolded job_finished_def, rule_format, of w]
  by (cases "cl_get_job C k w") (auto split: sum.splits)

section \<open>Computations that end the TaskRun\<close>

definition done_ended :: "reconcile_result \<Rightarrow> 'w st \<Rightarrow> bool" where
  "done_ended r s \<longleftrightarrow> r = Returned 0 None \<and> terminal (phase_of (task s))"

definition ends :: "('w, reconcile_result) prog \<Rightarrow> bool" where
  "ends m \<longleftrightarrow> (\<forall>s. wp m done_ended s)"

lemma ends_bind: "(\<And>x. ends (f x)) \<Longrightarrow> ends (State_Monad.bind m f)"
  by (simp add: ends_def wp_run [of m])

lemma ends_branch:
  "(b \<Longrightarrow> ends m1) \<Longrightarrow> (\<not> b \<Longrightarrow> ends m2) \<Longrightarrow> ends (if b then m1 else m2)"
  "ends m \<Longrightarrow> (\<And>a. ends (f a)) \<Longrightarrow> ends (case x of None \<Rightarrow> m | Some a \<Rightarrow> f a)"
  by (simp_all split: option.split)

lemma ends_set_phase:
  assumes "takes_updates C" and "terminal p"
  shows "wp (set_phase C p) (\<lambda>e s'. e = None \<and> terminal (phase_of (task s'))) s"
proof -
  obtain now w where now: "cl_now C (ext s) = (now, w)" by (cases "cl_now C (ext s)")
  let ?t = "(task s)\<lparr>tr_status := with_phase p now (tr_status (task s))\<rparr>"
  obtain tr w' where "cl_update_status C ?t w = (Inr tr, w')" "phase_of tr = phase_of ?t"
    by (rule takes_updatesE [OF assms(1)])
  with assms(2) now show ?thesis by (simp add: wp_set_phase Let_def)
qed

lemma ends_marks:
  assumes "takes_updates C"
  shows "ends (after_mark (mark_failed C L reason message))" and "ends (after_mark (mark_succeeded C L))"
proof -
  have "wp (set_phase C p) (\<lambda>e. done_ended (Returned 0 (error_text e))) s" if "terminal p" for p s
    by (rule wp_mono [OF ends_set_phase [OF assms that]]) (simp add: done_ended_def error_text_def)
  then show "ends (after_mark (mark_failed C L reason message))" "ends (after_mark (mark_succeeded C L))"
    by (simp_all add: ends_def mark_failed_def mark_succeeded_def split: prod.split)
qed

lemma ends_partitioned_loop: "takes_updates C \<Longrightarrow> ends (partitioned_loop C L e steps)"
  by (induction steps) (simp_all add: ends_marks ends_bind ends_branch)

lemma ends_native: "takes_updates C \<Longrightarrow> ends (execute_api_native_steps C L steps)"
  unfolding execute_api_native_steps_def native_loop_partitioned
  by (intro ends_bind ends_partitioned_loop)

lemma ends_from_partitioned: "takes_updates C \<Longrightarrow> ends (execute_api_native_steps_from_partitioned C L p)"
  unfolding execute_api_native_steps_from_partitioned_def
  by (intro ends_bind ends_branch ends_partitioned_loop ends_marks)

section \<open>Reconcile\<close>

lemma wp_finished_job_ends:
  assumes "takes_updates C" and "cl_get_job C (runner_key (task s)) (ext s) = (Inr j, w)"
    and "0 <s jst_succeeded (job_status j) \<or> 0 <s jst_failed (job_status j)"
  shows "wp (reconcile_job C L R p) done_ended s"
proof -
  have "ends (do {
      collect_runner_logs C R (ps_runner p);
      stepOutputs \<leftarrow> collect_runner_outputs C R;
      mark_runner_succeeded_loop (job_duration j) stepOutputs (ps_runner p);
      execute_api_native_steps_from_partitioned C L p })"
    by (intro ends_bind ends_from_partitioned assms(1))
  moreover have "ends (do {
      collect_runner_logs C R (ps_runner p);
      mark_runner_failed_loop (job_duration j) (ps_runner p);
      after_mark (mark_failed C L ''RunnerFailed'' ''runner Job failed'') })"
    by (intro ends_bind ends_marks assms(1))
  ultimately show ?thesis
    using assms(2,3) unfolding ends_def by (auto simp: reconcile_job_def)
qed

lemma wp_job_ends:
  assumes "takes_updates C" and "job_finished C (runner_key (task s))"
  shows "wp (reconcile_job C L R p) done_ended s"
  by (rule job_finishedE [OF assms(2)]) (rule wp_finished_job_ends [OF assms(1)])

lemma wp_dispatch_ends:
  assumes "takes_updates C" and "job_finished C (runner_key (task s))" and "trs_schedule (tr_spec (task s)) = []"
  shows "wp (dispatch_steps C L R resolved) done_ended s"
  using wp_job_ends [OF assms(1,2)] ends_native [OF assms(1)] assms(3)
  by (simp add: dispatch_steps_def Let_def ends_def)

lemma wp_start_ok:
  assumes "takes_updates C"
  shows "wp (set_phase C TaskRunPhaseRunning) (\<lambda>e s'. e = None \<and> tr_spec (task s') = tr_spec (task s)
     \<and> runner_key (task s') = runner_key (task s)) s"
proof -
  obtain now w where now: "cl_now C (ext s) = (now, w)" by (cases "cl_now C (ext s)")
  let ?t = "(task s)\<lparr>tr_status := with_phase TaskRunPhaseRunning now (tr_status (task s))\<rparr>"
  obtain tr w' where "cl_update_status C ?t w = (Inr tr, w')" "tr_spec tr = tr_spec ?t"
      "tr_name tr = tr_name ?t" "tr_namespace tr = tr_namespace ?t"
    by (rule takes_updatesE [OF assms])
  with now show ?thesis by (simp add: wp_set_phase Let_def runner_key_def)
qed

lemma runner_key_edit [simp]: "runner_key (edit_task f t) = runner_key t"
  by (simp add: runner_key_def)

lemma wp_failed_reaches:
  assumes "takes_updates C" and "stable C Inv" and "Inv s"
    and "\<And>r s'. done_ended r s' \<Longrightarrow> Inv s' \<Longrightarrow> Q r s'"
  shows "wp (after_mark (mark_failed C L reason message)) Q s"
proof -
  have "wp (after_mark (mark_failed C L reason message)) (\<lambda>r s'. done_ended r s' \<and> Inv s') s"
    by (intro wp_and_stable [OF assms(2) _ _ assms(3)] moves_after_mark moves_marks sends_after_mark sends_marks
        ends_marks(1) [OF assms(1), unfolded ends_def, rule_format]) simp
  then show ?thesis using assms(4) by (auto elim: wp_mono)
qed

lemma wp_validated_reaches:
  assumes "takes_updates C" and "stable C Inv" and "Inv s"
    and "\<And>r s'. done_ended r s' \<Longrightarrow> Inv s' \<Longrightarrow> Q r s'"
    and "\<And>s1. runner_key (task s1) = runner_key (task s) \<Longrightarrow> tr_spec (task s1) = tr_spec (task s) \<Longrightarrow>
      Inv s1 \<Longrightarrow> wp (dispatch_steps C L R resolved) Q s1"
  shows "wp (reconcile_validated C L R resolved) Q s"
proof -
  note failed = wp_failed_reaches [OF assms(1-4)]
  have start: "wp (set_phase C TaskRunPhaseRunning) (\<lambda>e s'. (e = None \<and> tr_spec (task s') = tr_spec (task s1)
      \<and> runner_key (task s') = runner_key (task s1)) \<and> Inv s') s1" if "Inv s1" for s1
    by (intro wp_and_stable [OF assms(2) _ _ that] wp_start_ok [OF assms(1)] moves_set_phase sends_marks) simp_all
  have init: "wp (init_step_statuses resolved) (\<lambda>_. Inv) s"
    by (rule wp_stable [OF assms(2) _ _ assms(3)]) (simp_all add: moves_status_ops)
  show ?thesis
    unfolding reconcile_validated_def
    using failed assms(3,5) init
    by (auto simp del: wp_after_mark intro!: wp_mono [OF start] split: option.split)
qed

text \<open>What a call comes to, given what it comes to once the steps are resolved and accepted.\<close>

lemma reconcile_reaches:
  fixes s :: "'w st"
  assumes "takes_updates C" and "stable C Inv"
    and loaded: "\<And>w. cl_get_task_run C req (ext s) = (Inr tr, w) \<Longrightarrow> Inv (loaded s req tr w)"
    and ended: "\<And>r s'. done_ended r s' \<Longrightarrow> Inv s' \<Longrightarrow> Q r s'"
    and get: "fst (cl_get_task_run C req (ext s)) = Inr tr"
    and dispatch: "\<And>s1 resolved. runner_key (task s1) = runner_key tr \<Longrightarrow> tr_spec (task s1) = tr_spec tr \<Longrightarrow>
      Inv s1 \<Longrightarrow> wp (dispatch_steps C L R resolved) Q s1"
    and run: "run_state (reconcile C L R req) s = (r, s')"
  shows "Q r s'"
proof -
  obtain w where w: "cl_get_task_run C req (ext s) = (Inr tr, w)"
    using get by (cases "cl_get_task_run C req (ext s)") simp
  let ?s = "loaded s req tr w"
  have "wp (after_read C L R tr) Q ?s"
  proof (cases "terminal (phase_of tr)")
    case True
    then show ?thesis using loaded [OF w]
      by (auto simp: after_read_def terminal_def done_ended_def intro!: ended)
  next
    case False
    let ?resolve = "resolve_all C L (new_step_resolver (tr_namespace tr)) (trs_steps (tr_spec tr))"
    have "wp ?resolve (\<lambda>x s1. (task s1 = task ?s \<and> metrics s1 = metrics ?s) \<and> Inv s1) ?s"
      by (intro wp_and_stable [OF assms(2)] frame_resolve_all moves_resolve_all creates_none_others loaded [OF w])
    then have "wp ?resolve (\<lambda>x. wp (case x of
           Inl err \<Rightarrow> after_mark (mark_failed C L ''ResolutionFailed'' err)
         | Inr resolved \<Rightarrow> reconcile_validated C L R resolved) Q) ?s"
    proof (rule wp_mono)
      fix x :: "string + resolved_step list" and s1 :: "'w st"
      assume "(task s1 = task ?s \<and> metrics s1 = metrics ?s) \<and> Inv s1"
      then have "task s1 = tr" "Inv s1" by simp_all
      then show "wp (case x of
           Inl err \<Rightarrow> after_mark (mark_failed C L ''ResolutionFailed'' err)
         | Inr resolved \<Rightarrow> reconcile_validated C L R resolved) Q s1"
        by (cases x) (auto simp del: wp_after_mark intro: ended dispatch
            wp_failed_reaches [OF assms(1,2)] wp_validated_reaches [OF assms(1,2)])
    qed
    with False show ?thesis by (simp add: after_read_def terminal_def)
  qed
  moreover have "run_state (after_read C L R tr) ?s = (r, s')"
    using run by (simp add: reconcile_loaded [OF w])
  ultimately show ?thesis by (rule wpD)
qed

section \<open>The Job is created\<close>







section \<open>Properties\<close>

text \<open>C6: an unobstructed TaskRun ends in one call: if the API takes status updates and the Job of the
  TaskRun has finished (which matters only if it has runner steps), then one call of
  \<open>Reconcile\<close> on a TaskRun without a schedule returns without an error, asks for no further
  call, and leaves the TaskRun Succeeded or Failed; a lookup that fails, a rejected parameter
  or a failing action makes it Failed and never leaves it Running.\<close>

theorem unobstructed_call_ends:
  fixes s :: "'w st"
  assumes "takes_updates C"
    and get: "fst (cl_get_task_run C req (ext s)) = Inr tr"
    and "job_finished C (runner_key tr)" and "trs_schedule (tr_spec tr) = []"
    and run: "run_state (reconcile C L R req) s = (r, s')"
  shows "r = Returned 0 None \<and> terminal (phase_of (task s'))"
proof -
  have "done_ended r s'"
    by (rule reconcile_reaches [OF assms(1) stable_True _ _ get _ run]) (use assms in \<open>auto intro: wp_dispatch_ends\<close>)
  then show ?thesis by (simp add: done_ended_def)
qed


text \<open>A TaskRun with a runner step and an API-native step, and a Job that has succeeded.\<close>

definition finished_client :: "cluster client" where
  "finished_client = example_client\<lparr>cl_get_job := \<lambda>k w. (Inr finished_job, w)\<rparr>"

definition two_step_run :: task_run where
  "two_step_run = example_task_run [] [example_step ''a'' ''build'' [], example_step ''b'' ''wait'' []]"

definition two_step_before :: "cluster st" where
  "two_step_before = example_state (empty_cluster\<lparr>
     k_cluster_step_definitions :=
       [''build'' \<mapsto> example_csd ''build'' (Some ''img''), ''wait'' \<mapsto> example_csd ''wait'' None],
     k_task_runs := [NamespacedName ''apps'' ''demo'' \<mapsto> two_step_run],
     k_pods := [''pod'']\<rparr>) (example_task_run [] [])"

theorem unobstructed_call_ends_witness:
  "let (r, s') = run_state (reconcile finished_client example_lib example_reconciler (NamespacedName ''apps'' ''demo'')) two_step_before
   in r = Returned 0 None \<and> terminal (phase_of (task s'))"
proof -
  have "takes_updates finished_client" by (simp add: takes_updates_def finished_client_def example_client_def)
  moreover have "fst (cl_get_task_run finished_client (NamespacedName ''apps'' ''demo'') (ext two_step_before)) = Inr two_step_run"
    by (simp add: finished_client_def two_step_before_def example_defs)
  moreover have "job_finished finished_client (runner_key two_step_run)"
    by (simp add: job_finished_def finished_client_def example_get_job)
  moreover have "trs_schedule (tr_spec two_step_run) = []" by (simp add: two_step_run_def example_defs)
  ultimately show ?thesis by (auto dest: unobstructed_call_ends)
qed



end
