(* ===== verification/Ownership.thy ===== *)
theory Ownership
  imports Contracts
begin

text \<open>
  The objects \<open>Reconcile\<close> creates to run a TaskRun: where they are, what they are called and who
  owns them, so that the garbage collector of Kubernetes removes them with the TaskRun. An
  interpretation of \<open>reconcile_contract\<close>.
\<close>

section \<open>Owned objects\<close>

definition owned_meta :: "string \<Rightarrow> string \<Rightarrow> object_meta \<Rightarrow> bool" where
  \<comment> \<open>in the namespace \<open>ns\<close>, named after the TaskRun \<open>n\<close>, labelled with it and owned by it\<close>
  "owned_meta ns n m \<longleftrightarrow>
     om_namespace m = ns \<and> om_name m = n @ ''-runner''
     \<and> mget (om_labels m) ''taskrun.io/taskrun'' = Some n
     \<and> (\<exists>r\<in>set (om_owner_references m). or_name r = n \<and> or_controller r)"

definition runs_once :: "job_spec \<Rightarrow> bool" where
  \<comment> \<open>no retry of the Job, no restart of a container\<close>
  "runs_once sp \<longleftrightarrow> jbs_backoff_limit sp = Some 0
     \<and> ps_restart_policy (pts_spec (jbs_template sp)) = RestartPolicyNever"

fun creates_owned :: "string \<Rightarrow> string \<Rightarrow> api_call \<Rightarrow> bool" where
  "creates_owned ns n (CreateJob j) = (owned_meta ns n (job_meta j) \<and> runs_once (job_spec j))"
| "creates_owned ns n (CreateCronJob cj) = (owned_meta ns n (cj_meta cj) \<and> runs_once (cj_job_template_spec cj))"
| "creates_owned ns n _ = True"

definition all_owned :: "string \<Rightarrow> string \<Rightarrow> api_call list \<Rightarrow> metric list \<Rightarrow> bool" where
  "all_owned ns n cs ms = list_all (creates_owned ns n) cs"

definition keeps_name :: "'w client \<Rightarrow> bool" where
  \<comment> \<open>the object that a status update answers with is the one that was sent\<close>
  "keeps_name C \<longleftrightarrow> (\<forall>t w tr w'. cl_update_status C t w = (Inr tr, w') \<longrightarrow>
     tr_name tr = tr_name t \<and> tr_namespace tr = tr_namespace t)"

lemma owned_job:
  assumes "sets_owner L" and "build L tr steps = Some (Inr (Some j))"
  shows "owned_meta (tr_namespace tr) (tr_name tr) (job_meta j) \<and> runs_once (job_spec j)"
proof -
  have "runs_once (job_spec j)"
    by (rule buildE [OF assms(2)]) (simp add: runs_once_def job_spec_with_def)
  with build_owned [OF assms] show ?thesis by (simp add: owned_meta_def)
qed

lemma owned_cron_job:
  assumes L: "sets_owner L" and "build_cron_job L tr steps = Some (Inr cj)"
  shows "owned_meta (tr_namespace tr) (tr_name tr) (cj_meta cj) \<and> runs_once (cj_job_template_spec cj)"
proof -
  obtain j where j: "build L tr steps = Some (Inr (Some j))" "cj_job_template_spec cj = job_spec j"
    and meta: "lib_set_controller_reference L tr (fresh_meta (job_name tr) (tr_namespace tr) (job_labels tr))
      = Inr (cj_meta cj)"
    using assms(2) by (auto simp: build_cron_job_def Let_def split: option.splits sum.splits)
  from L meta have "om_name (cj_meta cj) = job_name tr \<and> om_namespace (cj_meta cj) = tr_namespace tr
      \<and> om_labels (cj_meta cj) = job_labels tr
      \<and> (\<exists>r\<in>set (om_owner_references (cj_meta cj)). or_name r = tr_name tr \<and> or_controller r)"
    unfolding sets_owner_def by (metis fresh_meta_simps(1-3))
  with owned_job [OF L j(1)] j(2) show ?thesis
    by (simp add: owned_meta_def job_name_def job_labels_def)
qed

section \<open>The contract\<close>

definition named_pre :: "'w client \<Rightarrow> lib \<Rightarrow> string \<Rightarrow> string \<Rightarrow> task_run \<Rightarrow> bool" where
  "named_pre C L ns n tr \<longleftrightarrow> keeps_name C \<and> sets_owner L \<and> tr_namespace tr = ns \<and> tr_name tr = n"

interpretation owned: trace_relation "all_owned ns n" for ns n
  by unfold_locales (simp_all add: all_owned_def)

lemma named_update: "keeps (named_pre C L ns n) (all_owned ns n) (named_pre C L ns n) (update_status C)"
  by (rule owned.keeps_update) (auto simp: named_pre_def all_owned_def keeps_name_def)

lemma named_observe: "keeps (named_pre C L ns n) (all_owned ns n) (named_pre C L ns n) (observe ms)"
  by (rule owned.keeps_observe) (simp add: all_owned_def)

lemma named_modify: "keeps (named_pre C L ns n) (all_owned ns n) (named_pre C L ns n) (modify_status f)"
  by (rule owned.keeps_modify) (simp add: named_pre_def)

lemma named_any:
  "(\<And>t. keeps (named_pre C L ns n) (all_owned ns n) J (f t)) \<Longrightarrow>
     keeps (named_pre C L ns n) (all_owned ns n) J (State_Monad.bind get_task f)"
  by (rule keeps_get_task, rule keeps_conseq [where I = "named_pre C L ns n" and J = J]) simp_all

lemmas named_rules =
  owned.keeps_seq owned.keeps_skip owned.keeps_ask keeps_branch named_any named_update named_observe named_modify

lemma named_set_phase: "keeps (named_pre C L ns n) (all_owned ns n) (named_pre C L ns n) (set_phase C p)"
  unfolding set_phase_def record_task_metrics_def by (intro named_rules)

interpretation owned: reconcile_contract "all_owned ns n" C L "named_pre C L ns n" "named_pre C L ns n" for ns n C L
proof
  show "named_pre C L ns n t \<Longrightarrow> named_pre C L ns n (edit_task (\<lambda>st. st\<lparr>ts_steps := ss\<rparr>) t)" for t ss
    by (simp add: named_pre_def)
  show "\<not> is_status_update c \<Longrightarrow> \<not> creates_runner c \<Longrightarrow> all_owned ns n [c] []" for c
    by (cases c) (simp_all add: all_owned_def)
  show "all_owned ns n [] ms" for ms by (simp add: all_owned_def)
  show "all_owned ns n [CreateJob j] []"
    if "named_pre C L ns n t" "build L t steps = Some (Inr (Some j))" for t steps j
    using owned_job [OF _ that(2)] that(1) by (auto simp: all_owned_def named_pre_def)
  show "all_owned ns n [CreateCronJob cj] []"
    if "named_pre C L ns n t" "build_cron_job L t steps = Some (Inr cj)" for t steps cj
    using owned_cron_job [OF _ that(2)] that(1) by (auto simp: all_owned_def named_pre_def)
  show "keeps (named_pre C L ns n) (all_owned ns n) (named_pre C L ns n) (mark_failed C L reason message)" for reason message
    unfolding mark_failed_def set_condition_def by (intro named_rules named_set_phase)
  show "keeps (named_pre C L ns n) (all_owned ns n) (named_pre C L ns n) (mark_succeeded C L)"
    unfolding mark_succeeded_def set_condition_def by (intro named_rules named_set_phase)
qed (use named_set_phase named_update in blast)+

section \<open>The property\<close>

text \<open>C12: nothing is left behind: every Job and CronJob that \<open>Reconcile\<close> creates is in the namespace of
  the TaskRun it read, has the name \<open><task run>-runner\<close> and the label with its name, is owned by
  it, and neither retries nor restarts. In particular a call for one TaskRun never creates an
  object under the name of another.\<close>

theorem created_objects_owned:
  assumes "keeps_name C" and "sets_owner L"
    and "run_state (reconcile C L R req) s = (r, s')" and "calls s' = calls s @ cs"
    and "fst (cl_get_task_run C req (ext s)) = Inr tr"
  shows "(\<forall>j. CreateJob j \<in> set cs \<longrightarrow>
      owned_meta (tr_namespace tr) (tr_name tr) (job_meta j) \<and> runs_once (job_spec j))
    \<and> (\<forall>cj. CreateCronJob cj \<in> set cs \<longrightarrow>
      owned_meta (tr_namespace tr) (tr_name tr) (cj_meta cj) \<and> runs_once (cj_job_template_spec cj))"
proof -
  obtain ds ms where "calls s' = calls s @ ds" "all_owned (tr_namespace tr) (tr_name tr) ds ms"
    by (rule owned.reconcile_keeps [OF _ _ assms(3), of "tr_namespace tr" "tr_name tr"])
       (use assms(1,2,5) in \<open>auto simp: all_owned_def named_pre_def\<close>)
  with assms(4) show ?thesis by (force simp: all_owned_def list_all_iff)
qed

text \<open>A TaskRun with one runner step, before its Job exists.\<close>

definition runner_before :: "cluster st" where
  "runner_before = example_state (empty_cluster\<lparr>
     k_cluster_step_definitions := [''run'' \<mapsto> example_csd ''run'' (Some ''image'')],
     k_task_runs := [NamespacedName ''apps'' ''demo'' \<mapsto> example_task_run [] [example_step ''a'' ''run'' []]]\<rparr>)
     (example_task_run [] [])"

definition runner_after :: "reconcile_result \<times> cluster st" where
  "runner_after = run_state (reconcile example_client example_lib \<lparr>rec_clientset_set = False\<rparr>
     (NamespacedName ''apps'' ''demo'')) runner_before"

lemma runner_creates: "\<exists>j. CreateJob j \<in> set (calls (snd runner_after))"
proof -
  have "wp (reconcile example_client example_lib \<lparr>rec_clientset_set = False\<rparr> (NamespacedName ''apps'' ''demo''))
     (\<lambda>r s'. \<exists>j. CreateJob j \<in> set (calls s')) runner_before"
    by (simp add: reconcile_def resolve_all_def resolve_def new_step_resolver_def reconcile_validated_def
        validate_step_params_def validate_one_step_def validate_step_ordering_def is_runner_def
        dispatch_steps_def reconcile_job_def create_runner_job_def submit_job_def runner_key_def
        wp_set_phase with_phase_def Let_def runner_before_def example_defs mread_def build_def
        build_init_containers_def error_text_def ex_disj_distrib)
  then show ?thesis by (simp add: runner_after_def wp_def split_beta)
qed

theorem created_objects_owned_witness:
  "\<exists>j. CreateJob j \<in> set (calls (snd runner_after)) \<and> owned_meta ''apps'' ''demo'' (job_meta j)"
proof -
  have names: "keeps_name example_client"
    by (simp add: keeps_name_def example_client_def)
  have run: "run_state (reconcile example_client example_lib \<lparr>rec_clientset_set = False\<rparr>
      (NamespacedName ''apps'' ''demo'')) runner_before = (fst runner_after, snd runner_after)"
    by (simp add: runner_after_def)
  have log: "calls (snd runner_after) = calls runner_before @ calls (snd runner_after)"
    by (simp add: runner_before_def example_state_def)
  have get: "fst (cl_get_task_run example_client (NamespacedName ''apps'' ''demo'') (ext runner_before)) =
      Inr (example_task_run [] [example_step ''a'' ''run'' []])"
    by (simp add: runner_before_def example_state_def example_client_def found_def)
  from runner_creates created_objects_owned [OF names example_lib_laws(2) run log get]
  show ?thesis by (auto simp: example_task_run_def)
qed

end
