(* ===== verification/WorkQueue.thy ===== *)
theory WorkQueue
  imports Completion Ownership
begin

text \<open>
  A TaskRun from its creation to its end. controller-runtime calls \<open>Reconcile\<close> again as long as it
  returns an error or asks for another call; between the calls the Job, if there is one, runs on.
  \<open>work_queue\<close> is that loop with the number of calls as fuel, the world moving on by \<open>env\<close>
  between two calls. The theorem says how many calls are enough.
\<close>

section \<open>The loop\<close>

fun work_queue ::
  "nat \<Rightarrow> 'w client \<Rightarrow> lib \<Rightarrow> reconciler \<Rightarrow> namespaced_name \<Rightarrow> ('w \<Rightarrow> 'w) \<Rightarrow> 'w st \<Rightarrow> 'w st option" where
  "work_queue 0 C L R req env s = None"
| "work_queue (Suc n) C L R req env s =
     (case run_state (reconcile C L R req) s of (r, s') \<Rightarrow>
        if r = Returned 0 None then Some s'
        else work_queue n C L R req env (s'\<lparr>ext := env (ext s')\<rparr>))"

lemma work_queue_more:
  "work_queue n C L R req env s = Some s' \<Longrightarrow> n \<le> m \<Longrightarrow> work_queue m C L R req env s = Some s'"
proof (induction n arbitrary: m s)
  case (Suc n)
  then show ?case by (cases m) (auto split: prod.splits if_splits)
qed simp

section \<open>The API while a TaskRun runs\<close>

definition same_run :: "task_run \<Rightarrow> task_run \<Rightarrow> bool" where
  \<comment> \<open>the same TaskRun, whatever its status\<close>
  "same_run a b \<longleftrightarrow> tr_name b = tr_name a \<and> tr_namespace b = tr_namespace a \<and> tr_spec b = tr_spec a"

definition holds_run :: "'w client \<Rightarrow> namespaced_name \<Rightarrow> task_run \<Rightarrow> 'w \<Rightarrow> bool" where
  \<comment> \<open>a read answers with the TaskRun, possibly with an older status\<close>
  "holds_run C req tr w \<longleftrightarrow>
     (case fst (cl_get_task_run C req w) of Inl _ \<Rightarrow> False | Inr t \<Rightarrow> same_run tr t)"

definition keeps_run :: "'w client \<Rightarrow> ('w \<Rightarrow> 'w) \<Rightarrow> namespaced_name \<Rightarrow> task_run \<Rightarrow> bool" where
  \<comment> \<open>nobody deletes the TaskRun or edits its spec\<close>
  "keeps_run C env req tr \<longleftrightarrow> (\<forall>w. holds_run C req tr w \<longrightarrow>
     (\<forall>c. (\<forall>t. c = UpdateStatus t \<longrightarrow> same_run tr t) \<longrightarrow> holds_run C req tr (effect C c w))
     \<and> holds_run C req tr (snd (cl_now C w)) \<and> (\<forall>d. holds_run C req tr (snd (cl_wait C d w)))
     \<and> holds_run C req tr (env w))"

text \<open>
  The Job of the TaskRun: \<open>age w\<close> is \<open>None\<close> when there is none, and \<open>Some n\<close> when it finishes after
  at most \<open>n\<close> more rounds of the world.
\<close>

fun aged :: "nat option \<Rightarrow> nat option \<Rightarrow> bool" where
  "aged None b = (b = None)"
| "aged (Some n) None = False"
| "aged (Some n) (Some m) = (m \<le> n)"

definition shows_job :: "'w client \<Rightarrow> namespaced_name \<Rightarrow> nat option \<Rightarrow> 'w \<Rightarrow> bool" where
  "shows_job C k a w \<longleftrightarrow>
     (case fst (cl_get_job C k w) of
        Inl err \<Rightarrow> a = None \<and> is_not_found err
      | Inr j \<Rightarrow> a \<noteq> None
          \<and> (a = Some 0 \<longrightarrow> 0 <s jst_succeeded (job_status j) \<or> 0 <s jst_failed (job_status j)))"

definition runs_jobs ::
  "'w client \<Rightarrow> ('w \<Rightarrow> 'w) \<Rightarrow> namespaced_name \<Rightarrow> ('w \<Rightarrow> nat option) \<Rightarrow> nat \<Rightarrow> bool" where
  \<comment> \<open>a Job is created on request, nobody else creates or deletes it, and it finishes within \<open>B\<close> rounds\<close>
  "runs_jobs C env k age B \<longleftrightarrow>
     (\<forall>w. shows_job C k (age w) w \<and> (\<forall>n. age w = Some n \<longrightarrow> n \<le> B))
     \<and> (\<forall>c w. \<not> creates_runner c \<longrightarrow> aged (age w) (age (effect C c w)))
     \<and> (\<forall>w. aged (age w) (age (snd (cl_now C w)))) \<and> (\<forall>d w. aged (age w) (age (snd (cl_wait C d w))))
     \<and> (\<forall>j w. age w = None \<longrightarrow> NamespacedName (om_namespace (job_meta j)) (om_name (job_meta j)) = k \<longrightarrow>
          fst (cl_create_job C j w) = None \<and> age (snd (cl_create_job C j w)) \<noteq> None)
     \<and> (\<forall>w. aged (map_option (\<lambda>n. n - 1) (age w)) (age (env w)))"

lemma runs_jobsD:
  assumes "runs_jobs C env k age B"
  shows "shows_job C k (age w) w" and "age w = Some n \<Longrightarrow> n \<le> B"
    and "\<not> creates_runner c \<Longrightarrow> aged (age w) (age (effect C c w))"
    and "aged (age w) (age (snd (cl_now C w)))" and "aged (age w) (age (snd (cl_wait C d w)))"
    and "age w = None \<Longrightarrow> NamespacedName (om_namespace (job_meta j)) (om_name (job_meta j)) = k \<Longrightarrow>
      fst (cl_create_job C j w) = None \<and> age (snd (cl_create_job C j w)) \<noteq> None"
    and "aged (map_option (\<lambda>n. n - 1) (age w)) (age (env w))"
  using assms unfolding runs_jobs_def by blast+

definition creations :: "'w st \<Rightarrow> nat" where
  "creations s = length (filter creates_runner (calls s))"

fun rounds :: "nat \<Rightarrow> nat option \<Rightarrow> nat" where
  "rounds B None = Suc B"
| "rounds B (Some n) = n"

definition on_run ::
  "'w client \<Rightarrow> namespaced_name \<Rightarrow> task_run \<Rightarrow> ('w \<Rightarrow> nat option) \<Rightarrow> nat \<Rightarrow> nat \<Rightarrow> nat \<Rightarrow> 'w st \<Rightarrow> bool" where
  \<comment> \<open>at most \<open>n\<close> rounds to go; one Job is created, or still to be created, beyond \<open>d\<close> creations\<close>
  "on_run C req tr age B d n s \<longleftrightarrow>
     holds_run C req tr (ext s) \<and> same_run tr (task s) \<and> rounds B (age (ext s)) \<le> n
     \<and> creations s + (if age (ext s) = None then 1 else 0) \<le> d"

lemma aged_None [simp]: "aged a None = (a = None)"
  by (cases a) simp_all

lemma aged_refl [simp]: "aged a a"
  by (cases a) simp_all

lemma aged_rounds: "aged a b \<Longrightarrow> rounds B a \<le> n \<Longrightarrow> rounds B b \<le> n"
  by (cases a; cases b) simp_all

lemma on_run_aged:
  assumes "on_run C req tr age B d n s" and "aged (age (ext s)) (age (ext s'))" and "holds_run C req tr (ext s')"
    and "same_run tr (task s')" and "creations s' = creations s"
  shows "on_run C req tr age B d n s'"
  using assms aged_rounds [OF assms(2)] unfolding on_run_def by (cases "age (ext s)"; cases "age (ext s')") auto

lemma creations_simps [simp]:
  "creations (s\<lparr>ext := w\<rparr>) = creations s" "creations (s\<lparr>task := t\<rparr>) = creations s"
  "creations (s\<lparr>metrics := ms\<rparr>) = creations s"
  "creations (s\<lparr>ext := w, calls := calls s @ [c]\<rparr>) = creations s + (if creates_runner c then 1 else 0)"
  "creations (s\<lparr>ext := w, calls := calls s @ [c], task := t\<rparr>) = creations s + (if creates_runner c then 1 else 0)"
  by (simp_all add: creations_def)

lemma same_run_edit [simp]: "same_run tr (edit_task f t) = same_run tr t"
  by (simp add: same_run_def)

lemma stable_on_run:
  assumes "takes_updates C" and "keeps_run C env req tr" and jobs: "runs_jobs C env k age B"
  shows "stable C (on_run C req tr age B d n)"
  unfolding stable_def
proof (intro allI impI)
  fix s s'
  assume step: "step C s s'" and quiet: "\<forall>c. creates_runner c \<longrightarrow> calls s' \<noteq> calls s @ [c]"
    and inv: "on_run C req tr age B d n s"
  from inv have held: "holds_run C req tr (ext s)" "same_run tr (task s)" by (simp_all add: on_run_def)
  with assms(2) have kept: "(\<And>t. c = UpdateStatus t \<Longrightarrow> same_run tr t) \<Longrightarrow> holds_run C req tr (effect C c (ext s))"
    "holds_run C req tr (snd (cl_now C (ext s)))" "holds_run C req tr (snd (cl_wait C e (ext s)))" for c e
    unfolding keeps_run_def by blast+
  have updated: "holds_run C req tr w' \<and> aged (age (ext s)) (age w')"
    if "cl_update_status C (task s) (ext s) = (x, w')" for x w'
    using kept(1) [of "UpdateStatus (task s)"] runs_jobsD(3) [OF jobs, of "UpdateStatus (task s)" "ext s"] held that
    by simp
  show "on_run C req tr age B d n s'"
    using step
  proof cases
    case (requested c)
    with quiet have "\<not> creates_runner c" by auto
    moreover have "holds_run C req tr (effect C c (ext s))"
      by (rule kept(1)) (use requested in auto)
    ultimately show ?thesis
      using requested held runs_jobsD(3) [OF jobs] by (intro on_run_aged [OF inv]) auto
  next
    case (rejected e w)
    with updated [OF rejected(2)] held show ?thesis by (intro on_run_aged [OF inv]) simp_all
  next
    case (accepted t w)
    obtain t' where "cl_update_status C (task s) (ext s) = (Inr t', w)" "same_run (task s) t'"
      by (rule takes_updatesE [OF assms(1), of "task s" "ext s"]) (use accepted in \<open>simp add: same_run_def\<close>)
    with accepted updated [OF accepted(2)] held show ?thesis
      by (intro on_run_aged [OF inv]) (auto simp: same_run_def)
  next
    case clock
    with kept(2) held runs_jobsD(4) [OF jobs] show ?thesis by (intro on_run_aged [OF inv]) simp_all
  next
    case (waited e)
    with kept(3) held runs_jobsD(5) [OF jobs] show ?thesis by (intro on_run_aged [OF inv]) simp_all
  next
    case (observed ms)
    with inv show ?thesis by (simp add: on_run_def)
  next
    case (edited f)
    with inv show ?thesis by (simp add: on_run_def)
  qed
qed

lemma stable_age:
  assumes "runs_jobs C env k age B" and stays: "\<And>a b. aged a b \<Longrightarrow> P a \<Longrightarrow> P b"
  shows "stable C (\<lambda>s. P (age (ext s)))"
  unfolding stable_def
proof (intro allI impI)
  fix s s'
  assume step: "step C s s'" and quiet: "\<forall>c. creates_runner c \<longrightarrow> calls s' \<noteq> calls s @ [c]"
    and holds: "P (age (ext s))"
  note laws = runs_jobsD(3-5) [OF assms(1), THEN stays]
  show "P (age (ext s'))"
    using step
  proof cases
    case (requested c)
    with quiet have "\<not> creates_runner c" by auto
    with requested holds show ?thesis by (simp add: laws(1))
  next
    case (rejected e w)
    with holds laws(1) [of "UpdateStatus (task s)" "ext s"] show ?thesis by simp
  next
    case (accepted t w)
    with holds laws(1) [of "UpdateStatus (task s)" "ext s"] show ?thesis by simp
  qed (use holds laws(2,3) in simp_all)
qed

lemma aged_stays: "aged a b \<Longrightarrow> a \<noteq> None \<Longrightarrow> b \<noteq> None"
  by (cases a; cases b) simp_all

lemmas stable_created = stable_age [where P = "\<lambda>a. a \<noteq> None", OF _ aged_stays]
  and stable_missing = stable_age [where P = "\<lambda>a. a = None", simplified]

section \<open>One call\<close>

definition turned ::
  "'w client \<Rightarrow> namespaced_name \<Rightarrow> task_run \<Rightarrow> ('w \<Rightarrow> nat option) \<Rightarrow> nat \<Rightarrow> nat \<Rightarrow> nat \<Rightarrow> reconcile_result \<Rightarrow> 'w st \<Rightarrow> bool" where
  \<comment> \<open>the TaskRun has ended, or there is a Job with rounds to go\<close>
  "turned C req tr age B d n r s \<longleftrightarrow> on_run C req tr age B d n s
     \<and> (done_ended r s \<or> 0 < n \<and> r = Returned requeue_interval None \<and> age (ext s) \<noteq> None)"

lemma ended_turned: "done_ended r s \<Longrightarrow> on_run C req tr age B d n s \<Longrightarrow> turned C req tr age B d n r s"
  by (simp add: turned_def)

lemma wp_submit_turns:
  fixes s :: "'w st"
  assumes "takes_updates C" and "keeps_run C env req tr" and jobs: "runs_jobs C env (runner_key tr) age B"
    and "sets_owner L" and inv: "on_run C req tr age B d n s" and none: "age (ext s) = None"
    and steps: "list_all is_runner steps" "steps \<noteq> []"
  shows "wp (submit_job C L steps) (turned C req tr age B d n) s"
proof -
  note stable = stable_on_run [OF assms(1,2) jobs, of d n]
  from inv have same: "same_run tr (task s)" and held: "holds_run C req tr (ext s)" by (simp_all add: on_run_def)
  consider err where "build L (task s) steps = Some (Inl err)" | j where "build L (task s) steps = Some (Inr (Some j))"
    using steps by (metis build_None build_nil not_Some_eq obj_sumE)
  then show ?thesis
  proof cases
    case 1
    with wp_failed_reaches [OF assms(1) stable inv ended_turned] show ?thesis
      by (simp add: submit_job_def del: wp_after_mark)
  next
    case 2
    have "NamespacedName (om_namespace (job_meta j)) (om_name (job_meta j)) = runner_key tr"
      using owned_job [OF assms(4) 2] same by (simp add: owned_meta_def runner_key_def same_run_def)
    from runs_jobsD(6) [OF jobs none this]
    obtain w where w: "cl_create_job C j (ext s) = (None, w)" "age w \<noteq> None" by (metis prod.collapse snd_conv)
    let ?s = "s\<lparr>ext := w, calls := calls s @ [CreateJob j]\<rparr>"
    let ?rest = "do {
      mark_running_loop steps;
      u \<leftarrow> update_status C;
      (case u of
         Some err \<Rightarrow> return (Returned 0 (Some (''updating step statuses: '' @ api_error_text err)))
       | None \<Rightarrow> return (Returned requeue_interval None)) }"
    have "holds_run C req tr (effect C (CreateJob j) (ext s))"
      using assms(2) held unfolding keeps_run_def by blast
    moreover obtain m where "age w = Some m" "m \<le> B" using w(2) runs_jobsD(2) [OF jobs] by blast
    ultimately have "on_run C req tr age B d n ?s" using inv w none by (simp add: on_run_def)
    moreover have "moves C ?rest" "creates_none ?rest"
      by (intro moves_rules moves_mark_loops, intro sends_bind sends_case_option sends_return
          creates_none_others sends_update_status) simp
    ultimately have "wp ?rest (\<lambda>_. on_run C req tr age B d n) ?s" "wp ?rest (\<lambda>_ s'. age (ext s') \<noteq> None) ?s"
      by (intro wp_stable [OF stable] wp_stable [OF stable_created [OF jobs]]; simp add: w(2))+
    moreover have accepted: "cl_update_status C t v \<noteq> (Inl err, v')" for t v err v'
      by (rule takes_updatesE [OF assms(1), of t v]) simp
    have "wp ?rest (\<lambda>r _. r = Returned requeue_interval None) ?s"
      by (auto simp: accepted split: prod.split sum.split)
    ultimately have "wp ?rest (\<lambda>r s'. on_run C req tr age B d n s' \<and> age (ext s') \<noteq> None
        \<and> r = Returned requeue_interval None) ?s"
      by (simp only: wp_conj simp_thms)
    moreover have "0 < n" using inv none by (simp add: on_run_def)
    ultimately have "wp ?rest (turned C req tr age B d n) ?s"
      by (auto simp: turned_def simp del: wp_bind elim: wp_mono)
    with 2 w show ?thesis by (simp add: submit_job_def)
  qed
qed

lemma wp_job_turns:
  fixes s :: "'w st"
  assumes "takes_updates C" and "keeps_run C env req tr" and jobs: "runs_jobs C env (runner_key tr) age B"
    and "sets_owner L" and inv: "on_run C req tr age B d n s"
    and steps: "list_all is_runner (ps_runner p)" "ps_runner p \<noteq> []"
  shows "wp (reconcile_job C L R p) (turned C req tr age B d n) s"
proof -
  note stable = stable_on_run [OF assms(1,2) jobs, of d n]
  let ?k = "runner_key (task s)"
  have k: "?k = runner_key tr" using inv by (simp add: on_run_def same_run_def runner_key_def)
  obtain x w where x: "cl_get_job C ?k (ext s) = (x, w)" by (cases "cl_get_job C ?k (ext s)")
  let ?s = "s\<lparr>ext := w, calls := calls s @ [GetJob ?k]\<rparr>"
  have "moves C (request (GetJob ?k) (cl_get_job C ?k))" "creates_none (request (GetJob ?k) (cl_get_job C ?k))"
    by (intro moves_request sends_request; simp)+
  from wp_stable [OF stable this inv] x have inv1: "on_run C req tr age B d n ?s" by simp
  have shown: "case x of Inl err \<Rightarrow> age (ext s) = None \<and> is_not_found err | Inr j \<Rightarrow> age (ext s) \<noteq> None
      \<and> (age (ext s) = Some 0 \<longrightarrow> 0 <s jst_succeeded (job_status j) \<or> 0 <s jst_failed (job_status j))"
    using runs_jobsD(1) [OF jobs, of "ext s"] x k by (simp add: shows_job_def)
  have aged: "aged (age (ext s)) (age w)"
    using runs_jobsD(3) [OF jobs, of "GetJob ?k" "ext s"] x by simp
  note failed = wp_failed_reaches [OF assms(1) stable _ ended_turned]
  show ?thesis
  proof (cases x)
    case (Inl err)
    with shown aged have none: "age w = None" "is_not_found err" by auto
    let ?ensure = "ensure_params_config_map C L (ps_runner p)"
    have "wp ?ensure (\<lambda>_ s'. age (ext s') = None \<and> on_run C req tr age B d n s') ?s"
      by (intro wp_and_stable [OF stable _ _ inv1] wp_stable [OF stable_missing [OF jobs]]
          moves_ensure_params creates_none_others) (simp_all add: none)
    then have "wp ?ensure (\<lambda>e. wp (case e of
          Some err \<Rightarrow> after_mark (mark_failed C L ''ParamsConfigMapFailed'' err)
        | None \<Rightarrow> submit_job C L (ps_runner p)) (turned C req tr age B d n)) ?s"
      by (rule wp_mono)
         (auto simp del: wp_after_mark intro: failed wp_submit_turns [OF assms(1,2) jobs assms(4) _ _ steps] split: option.split)
    with x Inl none show ?thesis by (simp add: reconcile_job_def create_runner_job_def del: wp_after_mark)
  next
    case (Inr j)
    show ?thesis
    proof (cases "0 <s jst_succeeded (job_status j) \<or> 0 <s jst_failed (job_status j)")
      case True
      have "wp (reconcile_job C L R p) done_ended s"
        using wp_finished_job_ends [OF assms(1) _ True] x Inr by simp
      moreover have "wp (do {
          collect_runner_logs C R (ps_runner p);
          stepOutputs \<leftarrow> collect_runner_outputs C R;
          mark_runner_succeeded_loop (job_duration j) stepOutputs (ps_runner p);
          execute_api_native_steps_from_partitioned C L p }) (\<lambda>_. on_run C req tr age B d n) ?s"
        by (intro wp_stable [OF stable _ _ inv1] moves_bind moves_collect_logs moves_collect_outputs
            moves_mark_loops moves_from_partitioned sends_bind creates_none_others creates_none_native)
      moreover have "wp (do {
          collect_runner_logs C R (ps_runner p);
          mark_runner_failed_loop (job_duration j) (ps_runner p);
          after_mark (mark_failed C L ''RunnerFailed'' ''runner Job failed'') }) (\<lambda>_. on_run C req tr age B d n) ?s"
        by (intro wp_stable [OF stable _ _ inv1] moves_bind moves_collect_logs moves_after_mark moves_marks
            moves_mark_loops sends_bind creates_none_others sends_after_mark sends_marks) simp
      ultimately have "wp (reconcile_job C L R p) (\<lambda>r s'. done_ended r s' \<and> on_run C req tr age B d n s') s"
        using x Inr True by (simp only: wp_conj) (auto simp: reconcile_job_def simp del: wp_after_mark)
      then show ?thesis by (auto simp: turned_def elim: wp_mono)
    next
      case False
      with shown Inr have "age (ext s) \<noteq> None" "age (ext s) \<noteq> Some 0" by auto
      with inv have "0 < n" by (cases "age (ext s)") (auto simp: on_run_def)
      moreover have "age w \<noteq> None" using aged_stays [OF aged] \<open>age (ext s) \<noteq> None\<close> by blast
      ultimately have "turned C req tr age B d n (Returned requeue_interval None) ?s"
        using inv1 by (simp add: turned_def)
      with x Inr False show ?thesis by (simp add: reconcile_job_def)
    qed
  qed
qed

lemma wp_dispatch_turns:
  assumes "takes_updates C" and "keeps_run C env req tr" and jobs: "runs_jobs C env (runner_key tr) age B"
    and "sets_owner L" and inv: "on_run C req tr age B d n s" and "trs_schedule (tr_spec tr) = []"
  shows "wp (dispatch_steps C L R resolved) (turned C req tr age B d n) s"
proof -
  have "wp (execute_api_native_steps C L resolved) (\<lambda>r s'. done_ended r s' \<and> on_run C req tr age B d n s') s"
    using ends_native [OF assms(1)] unfolding ends_def
    by (intro wp_and_stable [OF stable_on_run [OF assms(1,2) jobs] moves_native creates_none_native(2) inv]) blast
  then have "wp (execute_api_native_steps C L resolved) (turned C req tr age B d n) s"
    by (auto simp: turned_def elim: wp_mono)
  moreover have "trs_schedule (tr_spec (task s)) = []"
    using inv assms(6) by (simp add: on_run_def same_run_def)
  ultimately show ?thesis
    using wp_job_turns [OF assms(1,2) jobs assms(4) inv partition_runners]
    by (simp add: dispatch_steps_def Let_def)
qed

lemma reconcile_turns:
  fixes s :: "'w st"
  assumes "takes_updates C" and "keeps_run C env req tr" and jobs: "runs_jobs C env (runner_key tr) age B"
    and "sets_owner L" and "trs_schedule (tr_spec tr) = []"
    and before: "holds_run C req tr (ext s)" "rounds B (age (ext s)) \<le> n"
      "creations s + (if age (ext s) = None then 1 else 0) \<le> d"
    and run: "run_state (reconcile C L R req) s = (r, s')"
  shows "turned C req tr age B d n r s'"
proof -
  obtain t where t: "fst (cl_get_task_run C req (ext s)) = Inr t" "same_run tr t"
    using before(1) by (auto simp: holds_run_def split: sum.splits)
  note stable = stable_on_run [OF assms(1,2) jobs, of d n]
  have loaded: "on_run C req tr age B d n (loaded s req t w)" if "cl_get_task_run C req (ext s) = (Inr t, w)" for w
  proof -
    have "on_run C req tr age B d n (s\<lparr>task := t\<rparr>)" using before t(2) by (simp add: on_run_def)
    moreover have "step C (s\<lparr>task := t\<rparr>) (loaded s req t w)"
      using requested [of "GetTaskRun req" C "s\<lparr>task := t\<rparr>"] that by (cases s) simp
    ultimately show ?thesis using stable unfolding stable_def by fastforce
  qed
  show ?thesis
    by (rule reconcile_reaches [OF assms(1) stable _ _ t(1) _ run])
       (blast intro: loaded ended_turned wp_dispatch_turns [OF assms(1,2) jobs assms(4) _ assms(5)])+
qed

section \<open>All calls\<close>

lemma work_queue_ends:
  assumes "takes_updates C" and "keeps_run C env req tr" and jobs: "runs_jobs C env (runner_key tr) age B"
    and "sets_owner L" and "trs_schedule (tr_spec tr) = []"
    and "holds_run C req tr (ext s)" and "rounds B (age (ext s)) \<le> n"
    and "creations s + (if age (ext s) = None then 1 else 0) \<le> d"
  shows "\<exists>s'. work_queue (Suc n) C L R req env s = Some s' \<and> terminal (phase_of (task s'))
     \<and> same_run tr (task s') \<and> creations s' \<le> d"
  using assms(6-8)
proof (induction n arbitrary: s rule: less_induct)
  case (less n)
  obtain r s1 where run: "run_state (reconcile C L R req) s = (r, s1)" by (cases "run_state (reconcile C L R req) s")
  have turned: "turned C req tr age B d n r s1"
    by (rule reconcile_turns [OF assms(1,2) jobs assms(4,5) less.prems run])
  show ?case
  proof (cases "r = Returned 0 None")
    case True
    have "requeue_interval \<noteq> 0" by (simp add: requeue_interval_def second_def)
    with turned True run show ?thesis by (auto simp: turned_def done_ended_def on_run_def)
  next
    case False
    with turned have on: "on_run C req tr age B d n s1" and "0 < n" and "age (ext s1) \<noteq> None"
      by (auto simp: turned_def done_ended_def)
    then obtain m where m: "age (ext s1) = Some m" "m \<le> n" by (auto simp: on_run_def)
    let ?s = "s1\<lparr>ext := env (ext s1)\<rparr>"
    from runs_jobsD(7) [OF jobs, of "ext s1"] m(1)
    obtain m' where m': "age (ext ?s) = Some m'" "m' \<le> m - 1" by (cases "age (ext ?s)") auto
    have "holds_run C req tr (ext ?s)" using assms(2) on by (simp add: keeps_run_def on_run_def)
    moreover have "rounds B (age (ext ?s)) \<le> n - 1" using m' m(2) by simp
    moreover have "creations ?s + (if age (ext ?s) = None then 1 else 0) \<le> d"
      using on m(1) m' by (simp add: on_run_def)
    ultimately have "\<exists>s'. work_queue (Suc (n - 1)) C L R req env ?s = Some s' \<and> terminal (phase_of (task s'))
        \<and> same_run tr (task s') \<and> creations s' \<le> d"
      using \<open>0 < n\<close> by (intro less.IH) simp_all
    with run False \<open>0 < n\<close> show ?thesis by simp
  qed
qed

text \<open>C3: every unobstructed TaskRun is brought to its end: with an API that takes status updates and
  Jobs, keeps the TaskRun (its reads may be stale) and runs its Job to an end within \<open>B\<close> rounds,
  \<open>B + 2\<close> calls of \<open>Reconcile\<close> are enough for a TaskRun without a schedule, whatever its steps
  are and however they go: the work queue then has nothing more to do, the TaskRun is Succeeded
  or Failed with its name and spec unchanged, and at most one Job was created for it, none if
  it had one.\<close>

theorem whole_run_ends:
  assumes "takes_updates C" and "keeps_run C env req tr" and "runs_jobs C env (runner_key tr) age B"
    and "sets_owner L" and "trs_schedule (tr_spec tr) = []" and "holds_run C req tr (ext s)"
  shows "\<exists>s'. work_queue (B + 2) C L R req env s = Some s' \<and> terminal (phase_of (task s'))
     \<and> same_run tr (task s')
     \<and> creations s' \<le> creations s + (if age (ext s) = None then 1 else 0)"
proof -
  have "rounds B (age (ext s)) \<le> Suc B"
    using runs_jobsD(2) [OF assms(3), of "ext s"] by (cases "age (ext s)") auto
  from work_queue_ends [OF assms this order_refl] show ?thesis by simp
qed

text \<open>The cluster of the examples, in which every Job succeeds between two calls.\<close>

definition finish_job :: "job \<Rightarrow> job" where
  "finish_job j = j\<lparr>job_status := (job_status j)\<lparr>jst_succeeded := 1\<rparr>\<rparr>"

definition finish_jobs :: "cluster \<Rightarrow> cluster" where
  "finish_jobs w = w\<lparr>k_jobs := \<lambda>k. map_option finish_job (k_jobs w k)\<rparr>"

definition demo_age :: "cluster \<Rightarrow> nat option" where
  "demo_age w = map_option (\<lambda>j. if 0 <s jst_succeeded (job_status j) then 0 else 1)
     (k_jobs w (NamespacedName ''apps'' ''demo-runner''))"

lemma demo_age_jobs: "k_jobs w' = k_jobs w \<Longrightarrow> aged (demo_age w) (demo_age w')"
  by (simp add: demo_age_def)

lemma demo_runs_jobs: "runs_jobs example_client finish_jobs (NamespacedName ''apps'' ''demo-runner'') demo_age 1"
proof -
  have "k_jobs (effect example_client c w) = k_jobs w" if "\<not> creates_runner c" for c w
    using that by (cases c) (auto simp: example_defs split: option.split)
  then have "aged (demo_age w) (demo_age (effect example_client c w))" if "\<not> creates_runner c" for c w
    using that by (intro demo_age_jobs) simp
  moreover have "shows_job example_client (NamespacedName ''apps'' ''demo-runner'') (demo_age w) w" for w
    by (auto simp: shows_job_def demo_age_def example_defs split: option.split)
  moreover have "aged (map_option (\<lambda>n. n - 1) (demo_age w)) (demo_age (finish_jobs w))" for w
    by (cases "k_jobs w (NamespacedName ''apps'' ''demo-runner'')")
       (simp_all add: demo_age_def finish_jobs_def finish_job_def word_sless_alt)
  ultimately show ?thesis
    unfolding runs_jobs_def
    by (auto intro!: demo_age_jobs) (auto simp: demo_age_def example_defs split: if_splits)
qed

lemma demo_keeps_run: "keeps_run example_client finish_jobs (NamespacedName ''apps'' ''demo'') two_step_run"
proof -
  have "holds_run example_client (NamespacedName ''apps'' ''demo'') two_step_run (effect example_client c w)"
    if "\<And>t. c = UpdateStatus t \<Longrightarrow> same_run two_step_run t"
      "holds_run example_client (NamespacedName ''apps'' ''demo'') two_step_run w" for c w
    using that by (cases c) (auto simp: holds_run_def example_defs split: option.splits)
  then show ?thesis
    by (auto simp: keeps_run_def) (auto simp: holds_run_def finish_jobs_def example_defs)
qed

theorem whole_run_ends_witness:
  "\<exists>s'. work_queue 3 example_client example_lib example_reconciler (NamespacedName ''apps'' ''demo'') finish_jobs two_step_before
       = Some s' \<and> terminal (phase_of (task s')) \<and> creations s' \<le> 1"
proof -
  have "takes_updates example_client" by (simp add: takes_updates_def example_client_def)
  moreover have "runner_key two_step_run = NamespacedName ''apps'' ''demo-runner''"
    by (simp add: runner_key_def two_step_run_def example_defs)
  moreover have "trs_schedule (tr_spec two_step_run) = []" by (simp add: two_step_run_def example_defs)
  moreover have "holds_run example_client (NamespacedName ''apps'' ''demo'') two_step_run (ext two_step_before)"
    by (simp add: holds_run_def same_run_def two_step_before_def example_defs)
  moreover have "creations two_step_before = 0" by (simp add: creations_def two_step_before_def example_defs)
  moreover have "demo_age (ext two_step_before) = None" by (simp add: demo_age_def two_step_before_def example_defs)
  ultimately show ?thesis
    using whole_run_ends [of example_client finish_jobs "NamespacedName ''apps'' ''demo''" two_step_run demo_age 1
        example_lib two_step_before example_reconciler] demo_runs_jobs demo_keeps_run example_lib_laws(2)
    by (auto simp: numeral_3_eq_3)
qed

end
