(* ===== verification/ControlLoop.thy ===== *)
theory ControlLoop
  imports Steps
begin

text \<open>
  Many calls of \<open>Reconcile\<close>, in the order the work queue makes them, with everything that
  happens in between: users edit, delete and create TaskRuns, other controllers write other
  objects, the manager restarts, reads come from a cache that lags behind, requests fail or
  succeed without an answer. The API server keeps the versions an object has had; what it
  promises about them (optimistic concurrency, a status subresource that only the controller
  writes) is the hypothesis \<open>versioned_store\<close>. The result is the life cycle of a TaskRun over
  all its versions, not only within a call.
\<close>

section \<open>The versions of an object\<close>

abbreviation uid_of :: "task_run \<Rightarrow> string option" where
  "uid_of tr \<equiv> map_of (om_extra (tr_meta tr)) ''uid''"

abbreviation version_of :: "task_run \<Rightarrow> string option" where
  "version_of tr \<equiv> map_of (om_extra (tr_meta tr)) ''resourceVersion''"

definition no_status :: task_run_status where
  "no_status = \<lparr>ts_phase = TaskRunPhaseUnset, ts_start_time = None, ts_completion_time = None,
     ts_steps = [], ts_conditions = []\<rparr>"

definition touched :: "task_run list \<Rightarrow> task_run list \<Rightarrow> bool" where
  \<comment> \<open>new versions that do not come from a status update: a creation, which starts without a
     status, or an edit, which keeps it\<close>
  "touched h h' \<longleftrightarrow>
     (\<exists>es. h' = h @ es \<and> (\<forall>e\<in>set es. tr_status e = (if h = [] then no_status else tr_status (last h))))"

definition stored :: "task_run \<Rightarrow> task_run \<Rightarrow> task_run list \<Rightarrow> task_run list \<Rightarrow> bool" where
  \<comment> \<open>the status update \<open>t\<close> is written as \<open>tr\<close>, if its version is the newest when it arrives\<close>
  "stored t tr h h' \<longleftrightarrow>
     (\<exists>h1. touched h h1 \<and> h1 \<noteq> [] \<and> version_of (last h1) = version_of t
        \<and> phase_of tr = phase_of t \<and> touched (h1 @ [tr]) h')"

definition versioned_store :: "'w client \<Rightarrow> string \<Rightarrow> ('w \<Rightarrow> task_run list) \<Rightarrow> bool" where
  \<comment> \<open>\<open>h\<close> gives the versions so far of the TaskRun with the uid \<open>u\<close>, the newest last\<close>
  "versioned_store C u h \<longleftrightarrow>
     (\<forall>w. distinct (map version_of (h w)))
   \<and> (\<forall>c w. \<not> is_status_update c \<longrightarrow> touched (h w) (h (effect C c w)))
   \<and> (\<forall>w. touched (h w) (h (snd (cl_now C w))))
   \<and> (\<forall>d w. touched (h w) (h (snd (cl_wait C d w))))
   \<and> (\<forall>k w tr w'. cl_get_task_run C k w = (Inr tr, w') \<longrightarrow> uid_of tr = Some u \<longrightarrow> tr \<in> set (h w'))
   \<and> (\<forall>t w e w'. cl_update_status C t w = (Inl e, w') \<longrightarrow>
        touched (h w) (h w') \<or> uid_of t = Some u \<and> (\<exists>tr. stored t tr (h w) (h w')))
   \<and> (\<forall>t w tr w'. cl_update_status C t w = (Inr tr, w') \<longrightarrow> uid_of tr = uid_of t
        \<and> (if uid_of t = Some u then stored t tr (h w) (h w') else touched (h w) (h w')))"

lemma versioned_storeD:
  assumes "versioned_store C u h"
  shows "distinct (map version_of (h w))"
    and "\<not> is_status_update c \<Longrightarrow> touched (h w) (h (effect C c w))"
    and "touched (h w) (h (snd (cl_now C w)))"
    and "touched (h w) (h (snd (cl_wait C d w)))"
    and "cl_get_task_run C k w = (Inr tr, w') \<Longrightarrow> uid_of tr = Some u \<Longrightarrow> tr \<in> set (h w')"
    and "cl_update_status C t w = (Inl e, w') \<Longrightarrow>
      touched (h w) (h w') \<or> uid_of t = Some u \<and> (\<exists>tr. stored t tr (h w) (h w'))"
    and "cl_update_status C t w = (Inr tr, w') \<Longrightarrow> uid_of tr = uid_of t"
    and "cl_update_status C t w = (Inr tr, w') \<Longrightarrow> uid_of t = Some u \<Longrightarrow> stored t tr (h w) (h w')"
    and "cl_update_status C t w = (Inr tr, w') \<Longrightarrow> uid_of t \<noteq> Some u \<Longrightarrow> touched (h w) (h w')"
  using assms unfolding versioned_store_def by (blast | metis)+

section \<open>Life cycles\<close>

definition follows :: "task_run \<Rightarrow> task_run \<Rightarrow> bool" where
  "follows a b \<longleftrightarrow> phase_of a \<le> phase_of b \<and> (terminal (phase_of a) \<longrightarrow> tr_status b = tr_status a)"

definition life_cycle :: "task_run list \<Rightarrow> bool" where
  \<comment> \<open>the phase never goes back, and the status is final once the phase is terminal\<close>
  "life_cycle h \<longleftrightarrow> sorted_wrt follows h"

lemma follows_refl [simp]: "follows a a"
  by (simp add: follows_def)

lemma follows_trans: "follows a b \<Longrightarrow> follows b c \<Longrightarrow> follows a c"
  by (auto simp: follows_def intro: order_trans)

lemma follows_same_status: "tr_status b = tr_status a \<Longrightarrow> follows a b"
  by (simp add: follows_def)

lemma life_cycle_last: "life_cycle h \<Longrightarrow> a \<in> set h \<Longrightarrow> follows a (last h)"
  by (cases h rule: rev_cases) (auto simp: life_cycle_def sorted_wrt_append)

lemma life_cycle_append:
  assumes "life_cycle h" and "sorted_wrt follows es" and "\<And>e. h \<noteq> [] \<Longrightarrow> e \<in> set es \<Longrightarrow> follows (last h) e"
  shows "life_cycle (h @ es)"
proof -
  have "follows a e" if "a \<in> set h" "e \<in> set es" for a e
  proof -
    from that(1) have "h \<noteq> []" by auto
    with life_cycle_last [OF assms(1) that(1)] assms(3) that(2) show ?thesis by (blast intro: follows_trans)
  qed
  with assms(1,2) show ?thesis by (simp add: life_cycle_def sorted_wrt_append)
qed

lemma life_cycle_touched:
  assumes "life_cycle h" and "touched h h'"
  shows "life_cycle h'"
proof -
  obtain es where es: "h' = h @ es"
    "\<forall>e\<in>set es. tr_status e = (if h = [] then no_status else tr_status (last h))"
    using assms(2) unfolding touched_def by blast
  have "sorted_wrt follows es"
    by (rule sorted_wrt_mono_rel [of _ "\<lambda>_ _. True"])
       (use es(2) in \<open>auto intro!: follows_same_status simp: sorted_wrt_iff_nth_less\<close>)
  then show ?thesis
    unfolding es(1) by (rule life_cycle_append [OF assms(1)]) (simp add: es(2) follows_same_status)
qed

lemma life_cycle_stored:
  assumes "life_cycle h" and "stored t tr h h'" and "distinct (map version_of h')"
    and v: "v \<in> set h" "version_of v = version_of t"
    and phase: "phase_of v \<le> phase_of t" "\<not> terminal (phase_of v)"
  shows "life_cycle h'"
proof -
  obtain h1 where h1: "touched h h1" "h1 \<noteq> []" "version_of (last h1) = version_of t"
      "phase_of tr = phase_of t" "touched (h1 @ [tr]) h'"
    using assms(2) unfolding stored_def by blast
  from h1(1) v(1) have "v \<in> set h1" by (auto simp: touched_def)
  moreover have "distinct (map version_of h1)"
    using h1(5) assms(3) by (auto simp: touched_def)
  moreover have "last h1 \<in> set h1" using h1(2) by simp
  ultimately have "last h1 = v"
    using v(2) h1(3) by (simp add: distinct_map inj_on_def)
  then have "follows (last h1) tr" using phase h1(4) by (simp add: follows_def)
  then have "life_cycle (h1 @ [tr])"
    by (intro life_cycle_append life_cycle_touched [OF assms(1) h1(1)]) simp_all
  then show ?thesis by (rule life_cycle_touched [OF _ h1(5)])
qed

definition extends :: "task_run list \<Rightarrow> task_run list \<Rightarrow> bool" where
  "extends h h' \<longleftrightarrow> (\<exists>es. h' = h @ es)"

lemma extends_refl [simp]: "extends h h"
  by (simp add: extends_def)

lemma extends_trans: "extends h h' \<Longrightarrow> extends h' h'' \<Longrightarrow> extends h h''"
  by (auto simp: extends_def)

lemma extends_set: "extends h h' \<Longrightarrow> v \<in> set h \<Longrightarrow> v \<in> set h'"
  by (auto simp: extends_def)

lemma touched_extends: "touched h h' \<Longrightarrow> extends h h'"
  by (auto simp: touched_def extends_def)

lemma stored_extends: "stored t tr h h' \<Longrightarrow> extends h h' \<and> tr \<in> set h'"
  by (auto simp: stored_def touched_def extends_def)

section \<open>Within a call\<close>

lemma forward_append: "forward p (ps @ qs) \<Longrightarrow> forward p ps"
  by (cases qs) (auto simp: forward_def sorted_wrt_append butlast_append list_all_iff dest: in_set_butlastD)

lemma forward_snoc:
  assumes "forward p (ps @ [q])" and "x = p \<or> x \<in> set ps"
  shows "x \<le> q \<and> \<not> terminal x"
  using assms by (auto simp: forward_def sorted_wrt_append list_all_iff)

definition holds_version :: "('w \<Rightarrow> task_run list) \<Rightarrow> string \<Rightarrow> task_run_phase list \<Rightarrow> 'w st \<Rightarrow> bool" where
  \<comment> \<open>the TaskRun in memory carries a version of the object whose phase is one of \<open>ps\<close>\<close>
  "holds_version h u ps s \<longleftrightarrow> uid_of (task s) = Some u \<longrightarrow>
     (\<exists>v\<in>set (h (ext s)). version_of v = version_of (task s) \<and> phase_of v \<in> set ps)"

definition on_course :: "('w \<Rightarrow> task_run list) \<Rightarrow> string \<Rightarrow> 'w st \<Rightarrow> 'w st \<Rightarrow> bool" where
  "on_course h u s0 s \<longleftrightarrow> (\<exists>cs. calls s = calls s0 @ cs \<and> extends (h (ext s0)) (h (ext s))
     \<and> (forward (phase_of (task s0)) (phases cs) \<longrightarrow>
          life_cycle (h (ext s)) \<and> holds_version h u (phase_of (task s0) # phases cs) s))"

lemma phases_other: "\<not> is_status_update c \<Longrightarrow> phases [c] = []"
  by (cases c) simp_all

lemma on_course_touched:
  assumes "on_course h u s0 s" and "touched (h (ext s)) (h (ext s'))"
    and "\<exists>ds. calls s' = calls s @ ds \<and> phases ds = []" and "tr_meta (task s') = tr_meta (task s)"
  shows "on_course h u s0 s'"
proof -
  from assms(1) obtain cs where cs: "calls s = calls s0 @ cs" "extends (h (ext s0)) (h (ext s))"
    "forward (phase_of (task s0)) (phases cs) \<Longrightarrow>
       life_cycle (h (ext s)) \<and> holds_version h u (phase_of (task s0) # phases cs) s"
    unfolding on_course_def by blast
  from assms(3) obtain ds where ds: "calls s' = calls s @ ds" "phases ds = []" by blast
  have "holds_version h u ps s \<Longrightarrow> holds_version h u ps s'" for ps
    using assms(4) extends_set [OF touched_extends [OF assms(2)]] by (auto simp: holds_version_def)
  with cs ds show ?thesis
    unfolding on_course_def
    by (intro exI [of _ "cs @ ds"])
       (auto intro: life_cycle_touched [OF _ assms(2)] extends_trans touched_extends [OF assms(2)])
qed

lemma on_course_update:
  assumes "versioned_store C u h" and "on_course h u s0 s"
    and h': "touched (h (ext s)) (h (ext s')) \<or> uid_of (task s) = Some u \<and> stored (task s) tr (h (ext s)) (h (ext s'))"
    and log: "calls s' = calls s @ [UpdateStatus (task s)]"
    and "task s' = task s \<or> uid_of (task s') = uid_of (task s)
       \<and> (uid_of (task s) = Some u \<longrightarrow> task s' = tr \<and> tr \<in> set (h (ext s')) \<and> phase_of tr = phase_of (task s))"
  shows "on_course h u s0 s'"
proof -
  let ?p = "phase_of (task s)"
  from assms(2) obtain cs where cs: "calls s = calls s0 @ cs" "extends (h (ext s0)) (h (ext s))"
    "forward (phase_of (task s0)) (phases cs) \<Longrightarrow>
       life_cycle (h (ext s)) \<and> holds_version h u (phase_of (task s0) # phases cs) s"
    unfolding on_course_def by blast
  have ext: "extends (h (ext s)) (h (ext s'))"
    using h' touched_extends stored_extends by blast
  have "life_cycle (h (ext s')) \<and> holds_version h u (phase_of (task s0) # phases cs @ [?p]) s'"
    if fwd: "forward (phase_of (task s0)) (phases cs @ [?p])"
  proof -
    from cs(3) [OF forward_append [OF fwd]]
    have life: "life_cycle (h (ext s))" and held: "holds_version h u (phase_of (task s0) # phases cs) s"
      by simp_all
    have "life_cycle (h (ext s'))"
    proof (cases "touched (h (ext s)) (h (ext s'))")
      case True
      then show ?thesis by (rule life_cycle_touched [OF life])
    next
      case False
      with h' have u: "uid_of (task s) = Some u" and st: "stored (task s) tr (h (ext s)) (h (ext s'))" by auto
      from held u obtain v where v: "v \<in> set (h (ext s))" "version_of v = version_of (task s)"
        "phase_of v = phase_of (task s0) \<or> phase_of v \<in> set (phases cs)"
        unfolding holds_version_def by auto
      from forward_snoc [OF fwd v(3)] show ?thesis
        using life_cycle_stored [OF life st versioned_storeD(1) [OF assms(1)] v(1,2)] by blast
    qed
    moreover have "holds_version h u (phase_of (task s0) # phases cs @ [?p]) s'"
      using held assms(5) extends_set [OF ext] unfolding holds_version_def by (auto; blast)
    ultimately show ?thesis ..
  qed
  with cs(1,2) log ext show ?thesis
    unfolding on_course_def
    by (intro exI [of _ "cs @ [UpdateStatus (task s)]"]) (auto intro: extends_trans)
qed

lemma on_course_step:
  assumes "versioned_store C u h" and "echoes_phase C" and "step C s s'" and "on_course h u s0 s"
  shows "on_course h u s0 s'"
  using assms(3)
proof cases
  case (requested c)
  show ?thesis
    by (rule on_course_touched [OF assms(4)])
       (use requested versioned_storeD(2) [OF assms(1)] phases_other in auto)
next
  case (rejected e w)
  from versioned_storeD(6) [OF assms(1) rejected(2)]
  obtain tr where "touched (h (ext s)) (h w) \<or> uid_of (task s) = Some u \<and> stored (task s) tr (h (ext s)) (h w)"
    by blast
  then show ?thesis
    by (intro on_course_update [OF assms(1,4)]) (use rejected in auto)
next
  case (accepted tr w)
  note laws = versioned_storeD [OF assms(1)]
  show ?thesis
    by (rule on_course_update [OF assms(1,4), where tr = tr])
       (use accepted laws(7-9) [OF accepted(2)] stored_extends echoed [OF assms(2) accepted(2)] in auto)
qed (use on_course_touched [OF assms(4)] versioned_storeD(3,4) [OF assms(1)] in \<open>auto simp: touched_def\<close>)

lemma on_course_steps:
  assumes "versioned_store C u h" and "echoes_phase C" and "(step C)\<^sup>*\<^sup>* s0 s'" and "on_course h u s0 s0"
  shows "on_course h u s0 s'"
  using assms(3) by (induction rule: rtranclp_induct) (auto intro: on_course_step [OF assms(1,2)] assms(4))

section \<open>Between calls\<close>

inductive control_loop :: "'w client \<Rightarrow> lib \<Rightarrow> ('w \<Rightarrow> task_run list) \<Rightarrow> 'w \<Rightarrow> 'w \<Rightarrow> bool"
  for C :: "'w client" and L and h where
  beginning: "control_loop C L h w w"
| reconciled: "control_loop C L h w (ext s) \<Longrightarrow> run_state (reconcile C L R req) s = (r, s') \<Longrightarrow>
     control_loop C L h w (ext s')"
| meanwhile: "control_loop C L h w w1 \<Longrightarrow> touched (h w1) (h w2) \<Longrightarrow> control_loop C L h w w2"

lemma reconcile_life_cycle:
  assumes store: "versioned_store C u h" and "echoes_phase C"
    and run: "run_state (reconcile C L R req) s = (r, s')" and life: "life_cycle (h (ext s))"
  shows "life_cycle (h (ext s')) \<and> extends (h (ext s)) (h (ext s'))"
proof -
  obtain a w where get: "cl_get_task_run C req (ext s) = (a, w)" by (cases "cl_get_task_run C req (ext s)")
  have read: "touched (h (ext s)) (h w)"
    using versioned_storeD(2) [OF store, of "GetTaskRun req" "ext s"] get by simp
  show ?thesis
  proof (cases a)
    case (Inl err)
    with get run have "ext s' = w" by (auto simp: reconcile_unread)
    with read show ?thesis by (auto intro: life_cycle_touched [OF life] touched_extends)
  next
    case (Inr tr)
    let ?s1 = "loaded s req tr w"
    have "on_course h u ?s1 ?s1"
      using life_cycle_touched [OF life read] versioned_storeD(5) [OF store get [unfolded Inr]]
      by (auto simp: on_course_def holds_version_def)
    with on_course_steps [OF store assms(2) reconcile_steps [OF get [unfolded Inr] run]]
    obtain cs where cs: "calls s' = calls s @ GetTaskRun req # cs" "extends (h w) (h (ext s'))"
      "forward (phase_of tr) (phases cs) \<Longrightarrow> life_cycle (h (ext s'))"
      unfolding on_course_def by auto
    have "reconciled L req tr (GetTaskRun req # cs)"
      using wpD [OF wp_reconcile [OF assms(2)] run] cs(1) get Inr by simp
    from reconciled_forward [OF this] have "life_cycle (h (ext s'))" by (simp add: cs(3))
    with read cs(2) show ?thesis by (auto intro: extends_trans touched_extends)
  qed
qed

lemma control_loop_life_cycle:
  assumes "versioned_store C u h" and "echoes_phase C" and "control_loop C L h w w'" and "life_cycle (h w)"
  shows "life_cycle (h w') \<and> extends (h w) (h w')"
  using assms(3,4)
proof (induction rule: control_loop.induct)
  case (reconciled w s R req r s')
  then show ?case
    using reconcile_life_cycle [OF assms(1,2)] by (blast intro: extends_trans)
next
  case (meanwhile w w1 w2)
  then show ?case
    by (blast intro: life_cycle_touched extends_trans touched_extends)
qed simp

section \<open>An API server with versions\<close>

text \<open>The example cluster again, with the versions of the TaskRun \<open>demo\<close> beside it: a read answers
  with the newest, and a status update is accepted if it is of the newest version.\<close>

definition stamp :: "nat \<Rightarrow> task_run \<Rightarrow> task_run" where
  "stamp n tr = tr\<lparr>tr_meta := (tr_meta tr)\<lparr>om_extra :=
     [(''uid'', ''u''), (''resourceVersion'', replicate n (CHR ''i''))]\<rparr>\<rparr>"

definition versions :: "cluster \<times> task_run list \<Rightarrow> task_run list" where
  "versions w = map (\<lambda>i. stamp i (snd w ! i)) [0..<length (snd w)]"

definition lifted :: "(cluster \<Rightarrow> 'r \<times> cluster) \<Rightarrow> cluster \<times> 'h \<Rightarrow> 'r \<times> cluster \<times> 'h" where
  "lifted f w = (case f (fst w) of (r, k) \<Rightarrow> (r, k, snd w))"

definition lifted_client :: "(cluster \<times> 'h) client" where
  \<comment> \<open>the example client on a cluster with something beside it\<close>
  "lifted_client =
     \<lparr>cl_get_task_run = (\<lambda>k. lifted (cl_get_task_run example_client k)),
      cl_get_step_definition = (\<lambda>k. lifted (cl_get_step_definition example_client k)),
      cl_get_cluster_step_definition = (\<lambda>k. lifted (cl_get_cluster_step_definition example_client k)),
      cl_get_secret = (\<lambda>k. lifted (cl_get_secret example_client k)),
      cl_get_config_map = (\<lambda>k. lifted (cl_get_config_map example_client k)),
      cl_get_workload = (\<lambda>kind k. lifted (cl_get_workload example_client kind k)),
      cl_get_job = (\<lambda>k. lifted (cl_get_job example_client k)),
      cl_get_cron_job = (\<lambda>k. lifted (cl_get_cron_job example_client k)),
      cl_create_secret = (\<lambda>x. lifted (cl_create_secret example_client x)),
      cl_create_config_map = (\<lambda>x. lifted (cl_create_config_map example_client x)),
      cl_create_job = (\<lambda>x. lifted (cl_create_job example_client x)),
      cl_create_cron_job = (\<lambda>x. lifted (cl_create_cron_job example_client x)),
      cl_update_secret = (\<lambda>x. lifted (cl_update_secret example_client x)),
      cl_update_config_map = (\<lambda>x. lifted (cl_update_config_map example_client x)),
      cl_update_workload = (\<lambda>kind x. lifted (cl_update_workload example_client kind x)),
      cl_update_status = (\<lambda>t. lifted (cl_update_status example_client t)),
      cl_list_pods = (\<lambda>ns ls. lifted (cl_list_pods example_client ns ls)),
      cl_pod_logs = (\<lambda>ns p c n. lifted (cl_pod_logs example_client ns p c n)),
      cl_now = lifted (cl_now example_client),
      cl_wait = (\<lambda>d. lifted (cl_wait example_client d))\<rparr>"

definition versioned_client :: "(cluster \<times> task_run list) client" where
  "versioned_client = lifted_client
     \<lparr>cl_get_task_run := \<lambda>k w. (if versions w = [] then Inl (NotFound ''not found'') else Inr (last (versions w)), w),
      cl_update_status := \<lambda>t w.
        if versions w \<noteq> [] \<and> uid_of t = Some ''u'' \<and> version_of t = version_of (last (versions w))
        then (Inr (stamp (length (snd w)) t), fst w, snd w @ [t])
        else (Inl (ApiError ''conflict''), w)\<rparr>"

lemmas versioned_client_defs = versioned_client_def lifted_client_def

lemma stamp_simps [simp]:
  "uid_of (stamp n tr) = Some ''u''"
  "version_of (stamp n tr) = Some (replicate n (CHR ''i''))"
  "tr_status (stamp n tr) = tr_status tr"
  "tr_spec (stamp n tr) = tr_spec tr"
  by (simp_all add: stamp_def)

lemma versions_snoc: "versions (k, ts @ [t]) = versions (k, ts) @ [stamp (length ts) t]"
  by (simp add: versions_def nth_append cong: map_cong)

lemma versions_lifted [simp]: "versions (snd (lifted f w)) = versions w"
  by (simp add: lifted_def versions_def split: prod.split)

lemma touched_same [simp]: "touched h h"
  by (simp add: touched_def)

lemma versioned_client_store: "versioned_store versioned_client ''u'' versions"
proof -
  have "distinct (map version_of (versions w))" for w
    by (simp add: versions_def comp_def distinct_map inj_on_def)
  moreover have "touched (versions w) (versions (effect versioned_client c w))" if "\<not> is_status_update c" for c w
    using that by (cases c) (simp_all add: versioned_client_defs)
  moreover have "stored t (stamp (length ts) t) (versions (k, ts)) (versions (k, ts @ [t]))"
    if "versions (k, ts) \<noteq> []" "version_of t = version_of (last (versions (k, ts)))" for t k ts
    unfolding stored_def versions_snoc
    by (rule exI [of _ "versions (k, ts)"]) (use that in simp)
  ultimately show ?thesis
    unfolding versioned_store_def by (auto simp: versioned_client_defs split: if_splits)
qed

lemma versioned_client_echoes: "echoes_phase versioned_client"
  by (simp add: echoes_phase_def versioned_client_defs)

definition loop_before :: "(cluster \<times> task_run list) st" where
  "loop_before = \<lparr>ext = (example_cluster, [example_task_run [] example_spec]), calls = [], metrics = [],
     task = example_task_run [] []\<rparr>"

definition loop_after :: "(cluster \<times> task_run list) st" where
  "loop_after = snd (run_state (reconcile versioned_client example_lib \<lparr>rec_clientset_set = False\<rparr>
     (NamespacedName ''apps'' ''demo'')) loop_before)"

lemma loop_runs: "control_loop versioned_client example_lib versions (ext loop_before) (ext loop_after)"
  by (rule reconciled [OF beginning], unfold loop_after_def, rule surjective_pairing)

lemma loop_phases:
  "map phase_of (versions (ext loop_after)) = [TaskRunPhaseUnset, TaskRunPhaseRunning, TaskRunPhaseSucceeded]"
proof -
  have "wp (reconcile versioned_client example_lib \<lparr>rec_clientset_set = False\<rparr> (NamespacedName ''apps'' ''demo''))
     (\<lambda>r s'. map phase_of (versions (ext s')) = [TaskRunPhaseUnset, TaskRunPhaseRunning, TaskRunPhaseSucceeded])
     loop_before"
    by (simp add: reconcile_def resolve_all_def resolve_def new_step_resolver_def reconcile_validated_def
        validate_step_params_def validate_one_step_def validate_step_ordering_def is_runner_def
        dispatch_steps_def execute_api_native_steps_def execute_one_step_def resolve_templates_def
        execute_actions wait_step_def secret_update_def new_step_executor_def resolve_namespace_def
        example_plain_value mark_succeeded_def wp_set_phase with_phase_def Let_def example_spec_def
        example_cluster_def loop_before_def example_defs pending_status_def mread_def
        versioned_client_defs versions_def lifted_def stamp_def)
  then show ?thesis by (simp add: loop_after_def wp_def split_beta)
qed

section \<open>The property\<close>

text \<open>C2: over its whole life a TaskRun only moves forward: through any sequence of calls of
  \<open>Reconcile\<close>, of any TaskRuns and with anything done by others in between, stale reads, lost
  answers and restarts included, no later version of the TaskRun has an earlier phase than an
  earlier version, and once a version has succeeded or failed the status never changes again.\<close>

theorem status_only_advances:
  assumes "versioned_store C u h" and "echoes_phase C"
    and "control_loop C L h w w'" and "life_cycle (h w)"
    and "i \<le> j" and "j < length (h w')"
  shows "phase_of (h w' ! i) \<le> phase_of (h w' ! j)
    \<and> (terminal (phase_of (h w' ! i)) \<longrightarrow> tr_status (h w' ! j) = tr_status (h w' ! i))"
proof (cases "i = j")
  case False
  have "sorted_wrt follows (h w')"
    using control_loop_life_cycle [OF assms(1-4)] by (simp add: life_cycle_def)
  with False assms(5,6) have "follows (h w' ! i) (h w' ! j)" by (simp add: sorted_wrt_iff_nth_less)
  then show ?thesis by (simp add: follows_def)
qed simp

theorem status_only_advances_witness:
  "phase_of (versions (ext loop_after) ! 1) = TaskRunPhaseRunning
   \<and> phase_of (versions (ext loop_after) ! 2) = TaskRunPhaseSucceeded
   \<and> phase_of (versions (ext loop_after) ! 1) \<le> phase_of (versions (ext loop_after) ! 2)"
proof -
  have len: "length (versions (ext loop_after)) = 3"
    using arg_cong [OF loop_phases, of length] by simp
  have "life_cycle (versions (ext loop_before))"
    by (simp add: life_cycle_def loop_before_def versions_def)
  from status_only_advances [OF versioned_client_store versioned_client_echoes loop_runs this, of 1 2] len
  have le: "phase_of (versions (ext loop_after) ! 1) \<le> phase_of (versions (ext loop_after) ! 2)" by simp
  have "map phase_of (versions (ext loop_after)) ! 1 = TaskRunPhaseRunning"
    "map phase_of (versions (ext loop_after)) ! 2 = TaskRunPhaseSucceeded"
    by (simp_all only: loop_phases) simp_all
  with len le show ?thesis by simp
qed

end
