(* ===== verification/Conflicts.thy ===== *)
theory Conflicts
  imports ControlLoop "HOL-Library.Sublist"
begin

text \<open>
  The actions that change a Secret, a ConfigMap or a workload read the object, change it and write
  it back, while other TaskRuns, users and controllers write the same object. They rely on the
  optimistic concurrency of the API server: an update carries the version that was read and is
  refused if it is no longer the newest. \<open>optimistic\<close> states that for one object and its
  versions; the lemmas say what it makes of a read followed by a write.
\<close>

section \<open>Versions of an object\<close>

abbreviation resource_version :: "object_meta \<Rightarrow> string option" where
  "resource_version m \<equiv> map_of (om_extra m) ''resourceVersion''"

definition written ::
  "('o \<Rightarrow> 'c) \<Rightarrow> ('w \<Rightarrow> 'o list) \<Rightarrow> 'w \<Rightarrow> 'w \<Rightarrow> ('o list \<Rightarrow> bool) \<Rightarrow> 'o \<Rightarrow> bool" where
  \<comment> \<open>a version with the content of \<open>x\<close> is added after versions that satisfy \<open>P\<close>; others may come before and after\<close>
  "written content h w w' P x \<longleftrightarrow>
     (\<exists>pre y post. h w' = pre @ y # post \<and> prefix (h w) pre \<and> P pre \<and> content y = content x)"

definition optimistic ::
  "('o \<Rightarrow> object_meta) \<Rightarrow> ('o \<Rightarrow> 'c) \<Rightarrow> namespaced_name \<Rightarrow> ('w \<Rightarrow> (api_error + 'o) \<times> 'w)
    \<Rightarrow> ('o \<Rightarrow> 'w \<Rightarrow> api_error option \<times> 'w) \<Rightarrow> ('o \<Rightarrow> 'w \<Rightarrow> api_error option \<times> 'w) \<Rightarrow> ('w \<Rightarrow> 'o list) \<Rightarrow> bool" where
  \<comment> \<open>\<open>h\<close> gives the versions so far of the object with the key \<open>k\<close>, the newest last\<close>
  "optimistic meta content k get create update h \<longleftrightarrow>
     (\<forall>w. distinct (map (\<lambda>x. resource_version (meta x)) (h w)))
   \<and> (\<forall>w r w'. get w = (r, w') \<longrightarrow> prefix (h w) (h w'))
   \<and> (\<forall>w x w'. get w = (Inr x, w') \<longrightarrow> x \<in> set (h w') \<and> meta_key (meta x) = k)
   \<and> (\<forall>x w w'. create x w = (None, w') \<longrightarrow> meta_key (meta x) = k \<longrightarrow> written content h w w' (\<lambda>_. True) x)
   \<and> (\<forall>x w w'. update x w = (None, w') \<longrightarrow> meta_key (meta x) = k \<longrightarrow>
        written content h w w' (\<lambda>pre. pre \<noteq> []
          \<and> resource_version (meta (last pre)) = resource_version (meta x)) x)"

lemma optimisticD:
  assumes "optimistic meta content k get create update h"
  shows "distinct (map (\<lambda>x. resource_version (meta x)) (h w))"
    and "get w = (r, w') \<Longrightarrow> prefix (h w) (h w')"
    and "get w = (Inr x, w') \<Longrightarrow> x \<in> set (h w') \<and> meta_key (meta x) = k"
    and "create x w = (None, w') \<Longrightarrow> meta_key (meta x) = k \<Longrightarrow> written content h w w' (\<lambda>_. True) x"
    and "update x w = (None, w') \<Longrightarrow> meta_key (meta x) = k \<Longrightarrow>
      written content h w w' (\<lambda>pre. pre \<noteq> [] \<and> resource_version (meta (last pre)) = resource_version (meta x)) x"
proof -
  note laws = assms [unfolded optimistic_def]
  from laws show "distinct (map (\<lambda>x. resource_version (meta x)) (h w))" by (elim conjE) (erule spec)
  from laws show "get w = (r, w') \<Longrightarrow> prefix (h w) (h w')" by (elim conjE) iprover
  from laws show "get w = (Inr x, w') \<Longrightarrow> x \<in> set (h w') \<and> meta_key (meta x) = k" by (elim conjE) iprover
  from laws show "create x w = (None, w') \<Longrightarrow> meta_key (meta x) = k \<Longrightarrow> written content h w w' (\<lambda>_. True) x"
    by (elim conjE) iprover
  from laws show "update x w = (None, w') \<Longrightarrow> meta_key (meta x) = k \<Longrightarrow>
      written content h w w' (\<lambda>pre. pre \<noteq> [] \<and> resource_version (meta (last pre)) = resource_version (meta x)) x"
    by (elim conjE) iprover
qed

lemma written_since: "prefix (h w0) (h w) \<Longrightarrow> written content h w w' P x \<Longrightarrow> written content h w0 w' P x"
  unfolding written_def by (blast intro: prefix_order.trans)

text \<open>An accepted update of an object that was read is a change of the newest version.\<close>

lemma read_then_updated:
  assumes laws: "optimistic meta content k get create update h"
    and get: "get w0 = (Inr x, w1)" and update: "update y w1 = (None, w2)" and meta: "meta y = meta x"
  shows "written content h w0 w2 (\<lambda>pre. pre \<noteq> [] \<and> last pre = x) y"
proof -
  note D = optimisticD [OF laws]
  from D(3) [OF get] have x: "x \<in> set (h w1)" "meta_key (meta y) = k" by (simp_all add: meta)
  from D(5) [OF update x(2)] obtain pre z post where
    z: "h w2 = pre @ z # post" "prefix (h w1) pre" "pre \<noteq> []" "content z = content y"
      "resource_version (meta (last pre)) = resource_version (meta x)"
    by (auto simp: written_def meta)
  from z(2) x(1) have "x \<in> set pre" by (auto simp: prefix_def)
  moreover have "inj_on (\<lambda>x. resource_version (meta x)) (set pre)"
    using D(1) [of w2] z(1) by (simp add: distinct_map)
  ultimately have "last pre = x" using z(3,5) by (auto dest: inj_onD)
  with z show ?thesis
    unfolding written_def by (blast intro: prefix_order.trans D(2) [OF get])
qed

lemma read_then_created:
  assumes "optimistic meta content k get create update h"
    and "get w0 = (r, w1)" and "create y w1 = (None, w2)" and "meta_key (meta y) = k"
  shows "written content h w0 w2 (\<lambda>_. True) y"
  by (rule written_since [OF optimisticD(2) [OF assms(1,2)] optimisticD(4) [OF assms(1,3,4)]])

section \<open>The actions\<close>

abbreviation data_of :: "(string \<rightharpoonup> string) option \<Rightarrow> string \<rightharpoonup> string" where
  "data_of d \<equiv> (case d of None \<Rightarrow> Map.empty | Some m \<Rightarrow> m)"

definition put_key :: "string \<Rightarrow> string \<Rightarrow> string gomap \<Rightarrow> ('o \<Rightarrow> (string \<rightharpoonup> string) option) \<Rightarrow> 'o list \<Rightarrow> 'o \<Rightarrow> bool" where
  \<comment> \<open>the version after \<open>pre\<close>: a new object with one key, or the newest version with one key set\<close>
  "put_key k v outs content pre y \<longleftrightarrow>
     outs = Some [(''updated'', ''created'')] \<and> content y = Some [k \<mapsto> v]
     \<or> outs = Some [(''updated'', ''patched'')] \<and> pre \<noteq> [] \<and> content y = Some ((data_of (content (last pre)))(k \<mapsto> v))"

text \<open>C28: no write is lost: a \<open>secret-update\<close> that succeeds has changed the version of the Secret that was the
  newest when its write arrived, and only its key; whatever others have written before that,
  between the read and the write or after a stale read, is in the version it leaves. If it
  created the Secret, that version has just the key.\<close>

theorem secret_update_loses_nothing:
  assumes laws: "optimistic sec_meta sec_data nn (cl_get_secret C nn) (cl_create_secret C) (cl_update_secret C) h"
    and nn: "nn = NamespacedName (resolve_namespace e params) (mread params ''secretName'')"
    and run: "run_state (execute C L e ''secret-update'' params) s = (Inr outs, s')"
  shows "\<exists>pre y post. h (ext s') = pre @ y # post \<and> prefix (h (ext s)) pre
     \<and> put_key (mread params ''key'') (param_value params) outs sec_data pre y"
proof -
  obtain x w1 where get: "cl_get_secret C nn (ext s) = (x, w1)" by (cases "cl_get_secret C nn (ext s)")
  from run have run: "run_state (secret_update C e params) s = (Inr outs, s')" by (simp add: execute_actions)
  show ?thesis
  proof (cases x)
    case (Inl err)
    let ?y = "\<lparr>sec_meta = fresh_meta (mread params ''secretName'') (resolve_namespace e params) None,
      sec_data = Some [mread params ''key'' \<mapsto> param_value params]\<rparr>"
    from run get Inl nn have "cl_create_secret C ?y w1 = (None, ext s')" "outs = Some [(''updated'', ''created'')]"
      by (auto simp: secret_update_def Let_def request_def split: if_splits prod.splits option.splits)
    with read_then_created [OF laws get, of ?y] nn show ?thesis
      by (force simp: written_def put_key_def)
  next
    case (Inr z)
    let ?y = "z\<lparr>sec_data := Some ((data_of (sec_data z))(mread params ''key'' \<mapsto> param_value params))\<rparr>"
    from run get Inr nn have "cl_update_secret C ?y w1 = (None, ext s')" "outs = Some [(''updated'', ''patched'')]"
      by (auto simp: secret_update_def Let_def request_def split: if_splits prod.splits option.splits)
    with read_then_updated [OF laws get [unfolded Inr], of ?y] show ?thesis
      by (force simp: written_def put_key_def)
  qed
qed

text \<open>The same holds of \<open>configmap-update\<close>.\<close>

theorem configmap_update_loses_nothing:
  assumes laws: "optimistic cm_meta cm_data nn (cl_get_config_map C nn) (cl_create_config_map C)
      (cl_update_config_map C) h"
    and nn: "nn = NamespacedName (resolve_namespace e params) (mread params ''configMapName'')"
    and run: "run_state (execute C L e ''configmap-update'' params) s = (Inr outs, s')"
  shows "\<exists>pre y post. h (ext s') = pre @ y # post \<and> prefix (h (ext s)) pre
     \<and> put_key (mread params ''key'') (param_value params) outs cm_data pre y"
proof -
  obtain x w1 where get: "cl_get_config_map C nn (ext s) = (x, w1)" by (cases "cl_get_config_map C nn (ext s)")
  from run have run: "run_state (configmap_update C e params) s = (Inr outs, s')" by (simp add: execute_actions)
  show ?thesis
  proof (cases x)
    case (Inl err)
    let ?y = "\<lparr>cm_meta = fresh_meta (mread params ''configMapName'') (resolve_namespace e params) None,
      cm_data = Some [mread params ''key'' \<mapsto> param_value params]\<rparr>"
    from run get Inl nn have "cl_create_config_map C ?y w1 = (None, ext s')" "outs = Some [(''updated'', ''created'')]"
      by (auto simp: configmap_update_def Let_def request_def split: if_splits prod.splits option.splits)
    with read_then_created [OF laws get, of ?y] nn show ?thesis
      by (force simp: written_def put_key_def)
  next
    case (Inr z)
    let ?y = "z\<lparr>cm_data := Some ((data_of (cm_data z))(mread params ''key'' \<mapsto> param_value params))\<rparr>"
    from run get Inr nn have "cl_update_config_map C ?y w1 = (None, ext s')" "outs = Some [(''updated'', ''patched'')]"
      by (auto simp: configmap_update_def Let_def request_def split: if_splits prod.splits option.splits)
    with read_then_updated [OF laws get [unfolded Inr], of ?y] show ?thesis
      by (force simp: written_def put_key_def)
  qed
qed

text \<open>A rollout restart that succeeds has changed the newest version of the workload, and only the
  annotation \<open>restartedAt\<close> of its pod template: a change of the image or of the number of
  replicas by somebody else is never undone by it.\<close>

theorem restart_loses_nothing:
  assumes laws: "optimistic wl_meta (\<lambda>x. (wl_template_annotations x, wl_rest x)) (NamespacedName ns n)
      (cl_get_workload C kind (NamespacedName ns n)) create (cl_update_workload C kind) h"
    and run: "run_state (restart_workload C kind kn ns n restartedAt) s = (Inr outs, s')"
  shows "\<exists>pre y post. h (ext s') = pre @ y # post \<and> prefix (h (ext s)) pre \<and> pre \<noteq> []
     \<and> wl_rest y = wl_rest (last pre)
     \<and> wl_template_annotations y =
         Some ((data_of (wl_template_annotations (last pre)))(''kubectl.kubernetes.io/restartedAt'' \<mapsto> restartedAt))"
proof -
  let ?nn = "NamespacedName ns n"
  obtain z w1 where get: "cl_get_workload C kind ?nn (ext s) = (Inr z, w1)"
    using run by (cases "cl_get_workload C kind ?nn (ext s)"; cases "fst (cl_get_workload C kind ?nn (ext s))")
      (auto simp: restart_workload_def Let_def request_def)
  let ?y = "z\<lparr>wl_template_annotations :=
    Some ((data_of (wl_template_annotations z))(''kubectl.kubernetes.io/restartedAt'' \<mapsto> restartedAt))\<rparr>"
  from run get have "cl_update_workload C kind ?y w1 = (None, ext s')"
    by (auto simp: restart_workload_def Let_def request_def split: if_splits prod.splits option.splits)
  then have "written (\<lambda>x. (wl_template_annotations x, wl_rest x)) h (ext s) (ext s') (\<lambda>pre. pre \<noteq> [] \<and> last pre = z) ?y"
    by (intro read_then_updated [where k = ?nn, OF laws get]) simp_all
  then show ?thesis by (force simp: written_def)
qed

section \<open>An example\<close>

text \<open>The example cluster with the versions of the Secret \<open>db\<close> beside it: a read answers with the
  newest, and an update is accepted if it is of the newest version.\<close>

definition stamp_secret :: "nat \<Rightarrow> secret \<Rightarrow> secret" where
  "stamp_secret n x = x\<lparr>sec_meta := (sec_meta x)\<lparr>om_namespace := ''apps'', om_name := ''db'',
     om_extra := [(''resourceVersion'', replicate n (CHR ''i''))]\<rparr>\<rparr>"

definition secret_versions :: "cluster \<times> secret list \<Rightarrow> secret list" where
  "secret_versions w = map (\<lambda>i. stamp_secret i (snd w ! i)) [0..<length (snd w)]"

definition secret_client :: "(cluster \<times> secret list) client" where
  "secret_client = lifted_client
     \<lparr>cl_get_secret := \<lambda>k w.
        (if secret_versions w = [] then Inl (NotFound ''not found'') else Inr (last (secret_versions w)), w),
      cl_create_secret := \<lambda>x w. (None, fst w, snd w @ [x]),
      cl_update_secret := \<lambda>x w.
        (if secret_versions w \<noteq> []
            \<and> resource_version (sec_meta x) = resource_version (sec_meta (last (secret_versions w)))
         then (None, fst w, snd w @ [x]) else (Some (ApiError ''conflict''), w))\<rparr>"

lemma secret_versions_snoc:
  "secret_versions (k, xs @ [x]) = secret_versions (k, xs) @ [stamp_secret (length xs) x]"
  by (simp add: secret_versions_def nth_append cong: map_cong)

lemma stamp_secret_simps [simp]:
  "sec_data (stamp_secret n x) = sec_data x"
  "resource_version (sec_meta (stamp_secret n x)) = Some (replicate n (CHR ''i''))"
  "meta_key (sec_meta (stamp_secret n x)) = NamespacedName ''apps'' ''db''"
  by (simp_all add: stamp_secret_def)

lemma secret_client_optimistic:
  "optimistic sec_meta sec_data (NamespacedName ''apps'' ''db'')
     (cl_get_secret secret_client (NamespacedName ''apps'' ''db'')) (cl_create_secret secret_client)
     (cl_update_secret secret_client) secret_versions"
proof -
  have "distinct (map (\<lambda>x. resource_version (sec_meta x)) (secret_versions w))" for w
    by (simp add: secret_versions_def comp_def distinct_map inj_on_def)
  moreover have "om_namespace (sec_meta x) = ''apps'' \<and> om_name (sec_meta x) = ''db''"
    if "x \<in> set (secret_versions w)" for x w
    using that by (auto simp: secret_versions_def stamp_secret_def)
  moreover have "written sec_data secret_versions (k, xs) (k, xs @ [x]) P x" if "P (secret_versions (k, xs))" for k xs x P
    using that unfolding written_def secret_versions_snoc by (intro exI [of _ "secret_versions (k, xs)"]) simp
  ultimately show ?thesis
    unfolding optimistic_def by (auto simp: secret_client_def split: if_splits dest: last_in_set)
qed

definition shared_secret :: secret where
  "shared_secret = \<lparr>sec_meta = fresh_meta ''db'' ''apps'' None, sec_data = Some [''other'' \<mapsto> ''kept'']\<rparr>"

definition shared_before :: "(cluster \<times> secret list) st" where
  "shared_before = \<lparr>ext = (empty_cluster, [shared_secret]), calls = [], metrics = [], task = example_task_run [] []\<rparr>"

theorem secret_update_loses_nothing_witness:
  "\<exists>y. secret_versions (ext (snd (run_state (execute secret_client example_lib example_executor ''secret-update'' example_params)
       shared_before))) = [stamp_secret 0 shared_secret, y]
     \<and> sec_data y = Some [''other'' \<mapsto> ''kept'', ''password'' \<mapsto> ''new'']"
proof -
  let ?h = "secret_versions (ext (snd (run_state (execute secret_client example_lib example_executor ''secret-update'' example_params)
       shared_before)))"
  have "wp (execute secret_client example_lib example_executor ''secret-update'' example_params)
     (\<lambda>r s'. r = Inr (Some [(''updated'', ''patched'')]) \<and> length (secret_versions (ext s')) = 2) shared_before"
    by (simp add: execute_actions secret_update_def Let_def secret_client_def shared_before_def secret_versions_def)
  then obtain s' where run: "run_state (execute secret_client example_lib example_executor ''secret-update'' example_params)
       shared_before = (Inr (Some [(''updated'', ''patched'')]), s')" and len: "length (secret_versions (ext s')) = 2"
    by (auto simp: wp_def split: prod.splits)
  have vals: "mread example_params ''key'' = ''password''" "mread example_params ''secretName'' = ''db''"
    "param_value example_params = ''new''" "resolve_namespace example_executor example_params = ''apps''"
    by (simp_all add: example_params_def param_value_def mread_def resolve_namespace_def example_executor_def new_step_executor_def)
  have "secret_versions (ext shared_before) = [stamp_secret 0 shared_secret]"
    by (simp add: shared_before_def secret_versions_def)
  with secret_update_loses_nothing [OF secret_client_optimistic _ run] vals len
  obtain y where "secret_versions (ext s') = [stamp_secret 0 shared_secret, y]"
    "put_key ''password'' ''new'' (Some [(''updated'', ''patched'')]) sec_data [stamp_secret 0 shared_secret] y"
    by (auto simp: prefix_def length_Suc_conv numeral_2_eq_2 Cons_eq_append_conv)
  with run show ?thesis by (auto simp: put_key_def shared_secret_def)
qed

end
