(* ===== verification/Reporting.thy ===== *)
theory Reporting
  imports Contracts
begin

text \<open>
  What \<open>Reconcile\<close> reports about the end of a TaskRun: the conditions and the completion time
  it writes into the status, and the metrics it observes. Both are an interpretation of
  \<open>reconcile_contract\<close>.
\<close>

section \<open>Explained endings and counted endings\<close>

definition condition_with :: "task_run \<Rightarrow> string \<Rightarrow> string set \<Rightarrow> bool" where
  \<comment> \<open>the status has the condition with the status True and one of the reasons\<close>
  "condition_with tr t reasons \<longleftrightarrow>
     (\<exists>c. find_condition (ts_conditions (tr_status tr)) t = Some c
        \<and> sc_status c = ConditionTrue \<and> sc_reason c \<in> reasons)"

definition explained :: "task_run \<Rightarrow> bool" where
  \<comment> \<open>an ended TaskRun says when it ended and why\<close>
  "explained tr \<longleftrightarrow>
     (phase_of tr = TaskRunPhaseSucceeded \<longrightarrow>
        ts_completion_time (tr_status tr) \<noteq> None \<and> condition_with tr ''Complete'' {''AllStepsSucceeded''})
     \<and> (phase_of tr = TaskRunPhaseFailed \<longrightarrow>
        ts_completion_time (tr_status tr) \<noteq> None \<and> condition_with tr ''Failed'' failure_reasons)"

fun update_explained :: "api_call \<Rightarrow> bool" where
  "update_explained (UpdateStatus t) = explained t"
| "update_explained _ = True"

fun total_of :: "metric \<Rightarrow> string list" where
  "total_of (TaskRunTotal ns p) = [p]"
| "total_of _ = []"

definition totals :: "metric list \<Rightarrow> string list" where
  \<comment> \<open>the phases with which the counter of TaskRuns is incremented\<close>
  "totals ms = concat (map total_of ms)"

definition endings :: "api_call list \<Rightarrow> string list" where
  \<comment> \<open>the terminal phases among the status updates\<close>
  "endings cs = map task_run_phase_string (filter terminal (phases cs))"

definition reported :: "lib \<Rightarrow> api_call list \<Rightarrow> metric list \<Rightarrow> bool" where
  "reported L cs ms \<longleftrightarrow>
     (sets_conditions L \<longrightarrow> list_all update_explained cs) \<and> totals ms = endings cs"

lemma endings_quiet: "\<not> is_status_update c \<Longrightarrow> endings [c] = [] \<and> update_explained c"
  by (cases c) (simp_all add: endings_def)

lemma totals_steps: "list_all is_step_metric ms \<Longrightarrow> totals ms = []"
  by (induction ms) (auto simp: totals_def elim: is_step_metric.elims)

interpretation reporting: trace_relation "reported L" for L
  by unfold_locales (simp_all add: reported_def totals_def endings_def)

section \<open>The places that write the status\<close>

definition reporting_pre :: "'w client \<Rightarrow> task_run \<Rightarrow> bool" where
  "reporting_pre C tr \<longleftrightarrow> echoes_phase C \<and> \<not> terminal (phase_of tr)"

lemma reports_update: "keeps (reporting_pre C) (reported L) (reporting_pre C) (update_status C)"
proof (rule reporting.keeps_update)
  fix t
  assume "reporting_pre C t"
  then show "reported L [UpdateStatus t] []"
    by (auto simp: reporting_pre_def reported_def explained_def totals_def endings_def)
qed (auto simp: reporting_pre_def dest: echoed)

lemma reports_running: "keeps (reporting_pre C) (reported L) (reporting_pre C) (set_phase C TaskRunPhaseRunning)"
  unfolding keeps_def
proof (intro allI impI)
  fix s :: "'a st"
  assume I: "reporting_pre C (task s)"
  obtain now w where now: "cl_now C (ext s) = (now, w)" by (cases "cl_now C (ext s)")
  let ?s1 = "s\<lparr>ext := w, task := (task s)\<lparr>tr_status := with_phase TaskRunPhaseRunning now (tr_status (task s))\<rparr>\<rparr>"
  have "reporting_pre C (task ?s1)" using I by (simp add: reporting_pre_def)
  with reports_update [of C L, unfolded keeps_def]
  have "wp (update_status C) (\<lambda>_ s'. reporting_pre C (task s') \<and> (\<exists>cs ms. calls s' = calls ?s1 @ cs
      \<and> metrics s' = metrics ?s1 @ ms \<and> reported L cs ms)) ?s1" by blast
  then show "wp (set_phase C TaskRunPhaseRunning) (\<lambda>_ s'. reporting_pre C (task s') \<and> (\<exists>cs ms. calls s' = calls s @ cs
      \<and> metrics s' = metrics s @ ms \<and> reported L cs ms)) s"
    by (simp add: wp_set_phase now phase_metrics_def Let_def del: wp_update_status)
qed

lemma reports_end:
  assumes p: "terminal p" and ct: "p = TaskRunPhaseSucceeded \<and> ct = ''Complete'' \<and> reason = ''AllStepsSucceeded''
      \<or> p = TaskRunPhaseFailed \<and> ct = ''Failed'' \<and> reason \<in> failure_reasons"
  shows "keeps (reporting_pre C) (reported L) (\<lambda>_. True)
     (do { set_condition C L ct ConditionTrue reason message; set_phase C p })"
  unfolding keeps_def wp_bind
proof (intro allI impI)
  fix s :: "'a st"
  assume I: "reporting_pre C (task s)"
  have ok: "reported L [UpdateStatus tr] ms" if "phase_of tr = p"
      "sets_conditions L \<longrightarrow> ended_as (task s) tr p ct reason message" "totals ms = [task_run_phase_string p]" for tr ms
  proof -
    have "ts_completion_time (tr_status tr) \<noteq> None \<and> condition_with tr ct {reason}" if "sets_conditions L"
      using \<open>sets_conditions L \<longrightarrow> _\<close> that unfolding ended_as_def condition_with_def by auto
    with ct that(1,3) p show ?thesis
      by (auto simp: reported_def explained_def condition_with_def endings_def)
  qed
  obtain now w where now: "cl_now C (ext s) = (now, w)" by (cases "cl_now C (ext s)")
  let ?s1 = "s\<lparr>ext := w, task := (task s)\<lparr>tr_status := (tr_status (task s))\<lparr>ts_conditions :=
      lib_set_status_condition L (ts_conditions (tr_status (task s)))
        \<lparr>sc_type = ct, sc_status = ConditionTrue, sc_observed_generation = om_generation (tr_meta (task s)),
         sc_last_transition_time = now, sc_reason = reason, sc_message = message\<rparr>\<rparr>\<rparr>\<rparr>"
  have "wp (set_phase C p) (\<lambda>_ s'. \<exists>tr. calls s' = calls s @ [UpdateStatus tr] \<and> phase_of tr = p
      \<and> (sets_conditions L \<longrightarrow> ended_as (task s) tr p ct reason message)) ?s1"
  proof (cases "sets_conditions L")
    case True
    from condition_then_phase [OF True p, of C ct reason message s] now
    have "wp (set_phase C p) (\<lambda>_ s'. \<exists>tr. calls s' = calls s @ [UpdateStatus tr]
        \<and> ended_as (task s) tr p ct reason message) ?s1" by simp
    then show ?thesis by (rule wp_mono) (auto simp: ended_as_def)
  next
    case False
    then show ?thesis by (auto simp: wp_set_phase Let_def split: prod.split sum.split)
  qed
  moreover have "wp (set_phase C p) (\<lambda>_ s'. \<exists>ms. metrics s' = metrics s @ ms \<and> totals ms = [task_run_phase_string p]) ?s1"
    using p by (auto simp: wp_set_phase phase_metrics_def totals_def Let_def split: prod.split sum.split option.split)
  ultimately have "wp (set_phase C p) (\<lambda>_ s'. True \<and> (\<exists>cs ms. calls s' = calls s @ cs
      \<and> metrics s' = metrics s @ ms \<and> reported L cs ms)) ?s1"
    using ok unfolding wp_run by blast
  then show "wp (set_condition C L ct ConditionTrue reason message) (\<lambda>_. wp (set_phase C p)
     (\<lambda>_ s'. True \<and> (\<exists>cs ms. calls s' = calls s @ cs \<and> metrics s' = metrics s @ ms \<and> reported L cs ms))) s"
    by (simp add: now del: simp_thms)
qed

lemma reports_marks:
  "reason \<in> failure_reasons \<Longrightarrow> keeps (reporting_pre C) (reported L) (\<lambda>_. True) (mark_failed C L reason message)"
  "keeps (reporting_pre C) (reported L) (\<lambda>_. True) (mark_succeeded C L)"
proof -
  show "reason \<in> failure_reasons \<Longrightarrow> keeps (reporting_pre C) (reported L) (\<lambda>_. True) (mark_failed C L reason message)"
    unfolding mark_failed_def by (rule reports_end) simp_all
  show "keeps (reporting_pre C) (reported L) (\<lambda>_. True) (mark_succeeded C L)"
    unfolding mark_succeeded_def
    by (rule keeps_get_task, rule keeps_conseq [OF reports_end]) simp_all
qed

interpretation reporting: reconcile_contract "reported L" C L "reporting_pre C" "\<lambda>_. True" for C L
proof
  show "reporting_pre C t \<Longrightarrow> reporting_pre C (edit_task (\<lambda>st. st\<lparr>ts_steps := ss\<rparr>) t)" for t ss
    by (simp add: reporting_pre_def)
  show "\<not> is_status_update c \<Longrightarrow> \<not> creates_runner c \<Longrightarrow> reported L [c] []" for c
    using endings_quiet [of c] by (simp add: reported_def totals_def)
  show "list_all is_step_metric ms \<Longrightarrow> reported L [] ms" for ms
    by (simp add: reported_def totals_steps endings_def)
  show "reported L [CreateJob j] []" "reported L [CreateCronJob cj] []" for j cj
    by (simp_all add: reported_def totals_def endings_def)
qed (use reports_update reports_running reports_marks in blast)+

section \<open>Properties\<close>

lemma reconcile_reports:
  assumes "echoes_phase C"
    and "run_state (reconcile C L R req) s = (r, s')"
  obtains cs ms where "calls s' = calls s @ cs" and "metrics s' = metrics s @ ms" and "reported L cs ms"
proof (rule reporting.reconcile_keeps [OF _ _ assms(2)])
  show "reported L [GetTaskRun req] []"
    by (simp add: reported_def totals_def endings_def)
qed (use assms(1) that in \<open>auto simp: reporting_pre_def\<close>)

text \<open>C10: nobody has to guess why a TaskRun ended: every status update of \<open>Reconcile\<close> with the phase
  Failed carries a completion time and the condition \<open>Failed\<close> with one of the eight reasons,
  every one with the phase Succeeded a completion time and the condition \<open>Complete\<close>.\<close>

theorem endings_explained:
  assumes "echoes_phase C" and "sets_conditions L"
    and "run_state (reconcile C L R req) s = (r, s')" and "calls s' = calls s @ cs"
    and "UpdateStatus t \<in> set cs" and "terminal (phase_of t)"
  shows "ts_completion_time (tr_status t) \<noteq> None
    \<and> (if phase_of t = TaskRunPhaseSucceeded then condition_with t ''Complete'' {''AllStepsSucceeded''}
       else condition_with t ''Failed'' failure_reasons)"
proof -
  obtain ds ms where "calls s' = calls s @ ds" "reported L ds ms"
    by (rule reconcile_reports [OF assms(1,3)])
  with assms(2,4,5) have "explained t" by (auto simp: reported_def list_all_iff)
  with assms(6) show ?thesis by (auto simp: explained_def terminal_def)
qed

theorem endings_explained_witness:
  "\<exists>t. UpdateStatus t \<in> set (calls (snd example_after)) \<and> condition_with t ''Complete'' {''AllStepsSucceeded''}"
proof -
  have "TaskRunPhaseSucceeded \<in> set (phases (calls (snd example_after)))" by (simp add: example_calls)
  then obtain t where t: "UpdateStatus t \<in> set (calls (snd example_after))" "phase_of t = TaskRunPhaseSucceeded"
    unfolding phases_member by blast
  with endings_explained [OF example_echoes example_lib_laws(1) example_run example_log t(1)]
  show ?thesis by auto
qed

text \<open>C24: the counter of TaskRuns follows the status: in one call of \<open>Reconcile\<close> it is incremented once
  for every status update with a terminal phase that is sent, under the name of that phase,
  and never otherwise.\<close>

theorem endings_counted:
  assumes "echoes_phase C"
    and "run_state (reconcile C L R req) s = (r, s')" and "calls s' = calls s @ cs"
  shows "\<exists>ms. metrics s' = metrics s @ ms
    \<and> totals ms = map task_run_phase_string (filter terminal (phases cs))"
proof -
  obtain ds ms where "calls s' = calls s @ ds" "metrics s' = metrics s @ ms" "reported L ds ms"
    by (rule reconcile_reports [OF assms(1,2)])
  with assms(3) show ?thesis by (auto simp: reported_def endings_def)
qed

theorem endings_counted_witness: "totals (metrics (snd example_after)) = [''Succeeded'']"
  using endings_counted [OF example_echoes example_run example_log]
  by (simp add: example_calls example_before_def example_state_def)

end
