(* ===== verification/Repetition.thy ===== *)
theory Repetition
  imports Steps
begin

text \<open>
  Two calls of \<open>Reconcile\<close> side by side. A TaskRun in Running may be reconciled many times; what
  its status records of the steps already executed is their names, phases, durations, outputs
  and logs. This theory relates two runs of the same code whose TaskRuns differ in the recorded
  phases, durations and logs, in the conditions and in the times, and shows that both send the
  same requests. \<open>alike\<close> relates two computations that go on, \<open>ends_alike\<close> two that may end in
  the status update; both are closed under the constructs of the state monad.
\<close>

section \<open>What the code reads of a status\<close>

definition recorded_outputs :: "step_status list \<Rightarrow> (string \<times> string gomap) list" where
  "recorded_outputs ss = map (\<lambda>q. (st_name q, st_outputs q)) ss"

definition recorded_alike :: "task_run \<Rightarrow> task_run \<Rightarrow> bool" where
  "recorded_alike a b \<longleftrightarrow>
     tr_meta a = tr_meta b \<and> tr_spec a = tr_spec b \<and> phase_of a = phase_of b
     \<and> recorded_outputs (steps_of a) = recorded_outputs (steps_of b)"

definition owner_by_meta :: "lib \<Rightarrow> bool" where
  \<comment> \<open>\<open>SetControllerReference\<close> reads the metadata of the owner and nothing of its status\<close>
  "owner_by_meta L \<longleftrightarrow>
     (\<forall>a b m. tr_meta a = tr_meta b \<longrightarrow>
        lib_set_controller_reference L a m = lib_set_controller_reference L b m)"

lemma recorded_outputs_put [simp]:
  "recorded_outputs (put_step_status ss x) = AList.update (st_name x) (st_outputs x) (recorded_outputs ss)"
  by (induction ss x rule: put_step_status.induct) (simp_all add: recorded_outputs_def)

lemma recorded_outputs_logs [simp]: "recorded_outputs (put_logs ss n logs) = recorded_outputs ss"
  by (induction ss n logs rule: put_logs.induct) (simp_all add: recorded_outputs_def)

lemma index_recorded:
  "index_statuses ss idx = fold (\<lambda>(n, os). index_outputs n (entries os)) (recorded_outputs ss) idx"
  by (induction ss idx rule: index_statuses.induct) (simp_all add: recorded_outputs_def)

lemma resolve_recorded:
  "recorded_outputs ss = recorded_outputs ts \<Longrightarrow>
     resolve_templates pr params ss = resolve_templates pr params ts"
  by (simp add: resolve_templates_def build_output_index_def index_recorded)

lemma build_recorded:
  assumes "owner_by_meta L" and "recorded_alike a b"
  shows "build L a steps = build L b steps" and "build_cron_job L a steps = build_cron_job L b steps"
proof -
  have eq: "tr_meta a = tr_meta b" "tr_spec a = tr_spec b"
    using assms(2) by (simp_all add: recorded_alike_def)
  with assms(1) have owner: "lib_set_controller_reference L a = lib_set_controller_reference L b"
    by (auto simp: owner_by_meta_def)
  have parts: "job_name a = job_name b" "job_labels a = job_labels b" "build_volumes a = build_volumes b"
    "build_init_containers a = build_init_containers b" "tr_namespace a = tr_namespace b"
    by (simp_all add: fun_eq_iff job_name_def job_labels_def build_volumes_def build_init_containers_def eq)
  show "build L a steps = build L b steps"
    unfolding build_def owner parts ..
  then show "build_cron_job L a steps = build_cron_job L b steps"
    unfolding build_cron_job_def owner parts eq by simp
qed

section \<open>Two runs\<close>

definition twin :: "'w st \<Rightarrow> 'w st \<Rightarrow> bool" where
  "twin s t \<longleftrightarrow> ext s = ext t \<and> recorded_alike (task s) (task t)"

definition alike :: "('w, 'a) prog \<Rightarrow> ('w, 'a) prog \<Rightarrow> bool" where
  "alike m n \<longleftrightarrow> (\<forall>s t. twin s t \<longrightarrow>
     wp m (\<lambda>x s'. wp n (\<lambda>y t'. x = y \<and> twin s' t'
       \<and> (\<exists>cs. calls s' = calls s @ cs \<and> calls t' = calls t @ cs)) t) s)"

definition same_end :: "'w st \<Rightarrow> 'w st \<Rightarrow> 'w st \<Rightarrow> 'w st \<Rightarrow> bool" where
  \<comment> \<open>the same requests, and then a status update of TaskRuns that are alike\<close>
  "same_end s t s' t' \<longleftrightarrow>
     (\<exists>cs a b. calls s' = calls s @ cs @ [UpdateStatus a] \<and> calls t' = calls t @ cs @ [UpdateStatus b]
        \<and> recorded_alike a b)"

definition ends_alike :: "('w, reconcile_result) prog \<Rightarrow> ('w, reconcile_result) prog \<Rightarrow> bool" where
  "ends_alike m n \<longleftrightarrow> (\<forall>s t. twin s t \<longrightarrow>
     wp m (\<lambda>x s'. wp n (\<lambda>y t'. same_end s t s' t'
       \<or> x = y \<and> (\<exists>cs. calls s' = calls s @ cs \<and> calls t' = calls t @ cs)) t) s)"

named_theorems alike_rules \<open>rules for two runs side by side\<close>

lemma alike_return [alike_rules]: "alike (return x) (return x)"
  by (simp add: alike_def)

lemma ends_alike_return [alike_rules]: "ends_alike (return x) (return x)"
  by (simp add: ends_alike_def)

lemma alikeE:
  assumes "alike m n" and "twin s t"
  obtains x s' t' cs where "run_state m s = (x, s')" and "run_state n t = (x, t')" and "twin s' t'"
    and "calls s' = calls s @ cs" and "calls t' = calls t @ cs"
proof -
  obtain x s' where m: "run_state m s = (x, s')" by (cases "run_state m s")
  obtain y t' where n: "run_state n t = (y, t')" by (cases "run_state n t")
  from assms have "wp m (\<lambda>x s'. wp n (\<lambda>y t'. x = y \<and> twin s' t'
       \<and> (\<exists>cs. calls s' = calls s @ cs \<and> calls t' = calls t @ cs)) t) s"
    unfolding alike_def by blast
  with m n that show thesis by (auto simp: wp_def)
qed

lemma alike_bind [alike_rules]:
  assumes "alike m n" and "\<And>x. alike (f x) (g x)"
  shows "alike (State_Monad.bind m f) (State_Monad.bind n g)"
  unfolding alike_def
proof (intro allI impI)
  fix s t :: "'a st"
  assume "twin s t"
  obtain x s1 t1 cs where 1: "run_state m s = (x, s1)" "run_state n t = (x, t1)" "twin s1 t1"
    "calls s1 = calls s @ cs" "calls t1 = calls t @ cs" by (rule alikeE [OF assms(1) \<open>twin s t\<close>])
  obtain y s2 t2 ds where 2: "run_state (f x) s1 = (y, s2)" "run_state (g x) t1 = (y, t2)" "twin s2 t2"
    "calls s2 = calls s1 @ ds" "calls t2 = calls t1 @ ds" by (rule alikeE [OF assms(2) 1(3)])
  from 1 2 show "wp (State_Monad.bind m f) (\<lambda>x s'. wp (State_Monad.bind n g) (\<lambda>y t'. x = y \<and> twin s' t'
      \<and> (\<exists>cs. calls s' = calls s @ cs \<and> calls t' = calls t @ cs)) t) s"
    by (simp add: wp_def)
qed

lemma ends_alike_bind [alike_rules]:
  assumes "alike m n" and "\<And>x. ends_alike (f x) (g x)"
  shows "ends_alike (State_Monad.bind m f) (State_Monad.bind n g)"
  unfolding ends_alike_def
proof (intro allI impI)
  fix s t :: "'a st"
  assume "twin s t"
  obtain x s1 t1 cs where 1: "run_state m s = (x, s1)" "run_state n t = (x, t1)" "twin s1 t1"
    "calls s1 = calls s @ cs" "calls t1 = calls t @ cs" by (rule alikeE [OF assms(1) \<open>twin s t\<close>])
  have "wp (f x) (\<lambda>x s'. wp (g x0) (\<lambda>y t'. same_end s1 t1 s' t'
      \<or> x = y \<and> (\<exists>cs. calls s' = calls s1 @ cs \<and> calls t' = calls t1 @ cs)) t1) s1" if "x0 = x" for x0
    using assms(2) [of x] 1(3) that by (simp add: ends_alike_def)
  with 1 show "wp (State_Monad.bind m f) (\<lambda>x s'. wp (State_Monad.bind n g) (\<lambda>y t'. same_end s t s' t'
      \<or> x = y \<and> (\<exists>cs. calls s' = calls s @ cs \<and> calls t' = calls t @ cs)) t) s"
    by (auto simp: wp_def same_end_def split: prod.splits)
qed

lemma alike_request [alike_rules]: "alike (request c op) (request c op)"
  by (auto simp: alike_def twin_def split: prod.split)

lemma alike_ask [alike_rules]: "alike (ask op) (ask op)"
  by (auto simp: alike_def twin_def split: prod.split)

lemma alike_observe: "alike (observe ms) (observe ns)"
  by (simp add: alike_def twin_def)

lemma alike_case [alike_rules]:
  "(b \<Longrightarrow> alike m1 n1) \<Longrightarrow> (\<not> b \<Longrightarrow> alike m2 n2) \<Longrightarrow> alike (if b then m1 else m2) (if b then n1 else n2)"
  "alike m1 n1 \<Longrightarrow> (\<And>a. alike (f a) (g a)) \<Longrightarrow>
     alike (case x of None \<Rightarrow> m1 | Some a \<Rightarrow> f a) (case x of None \<Rightarrow> n1 | Some a \<Rightarrow> g a)"
  "(\<And>a. alike (h a) (k a)) \<Longrightarrow> (\<And>a. alike (f' a) (g' a)) \<Longrightarrow>
     alike (case z of Inl a \<Rightarrow> h a | Inr a \<Rightarrow> f' a) (case z of Inl a \<Rightarrow> k a | Inr a \<Rightarrow> g' a)"
  "alike m3 n3 \<Longrightarrow> (\<And>y ys. alike (l y ys) (l' y ys)) \<Longrightarrow>
     alike (case v of [] \<Rightarrow> m3 | y # ys \<Rightarrow> l y ys) (case v of [] \<Rightarrow> n3 | y # ys \<Rightarrow> l' y ys)"
  "(\<And>e. alike (h1 e) (k1 e)) \<Longrightarrow> (\<And>e. alike (h2 e) (k2 e)) \<Longrightarrow> (\<And>b. alike (h3 b) (k3 b)) \<Longrightarrow>
     alike (case logs of StreamError e \<Rightarrow> h1 e | ReadError e \<Rightarrow> h2 e | LogBytes b \<Rightarrow> h3 b)
       (case logs of StreamError e \<Rightarrow> k1 e | ReadError e \<Rightarrow> k2 e | LogBytes b \<Rightarrow> k3 b)"
  by (simp_all split: option.split sum.split list.split pod_logs.split)

lemma ends_alike_case [alike_rules]:
  "(b \<Longrightarrow> ends_alike m1 n1) \<Longrightarrow> (\<not> b \<Longrightarrow> ends_alike m2 n2) \<Longrightarrow>
     ends_alike (if b then m1 else m2) (if b then n1 else n2)"
  "ends_alike m1 n1 \<Longrightarrow> (\<And>a. ends_alike (f a) (g a)) \<Longrightarrow>
     ends_alike (case x of None \<Rightarrow> m1 | Some a \<Rightarrow> f a) (case x of None \<Rightarrow> n1 | Some a \<Rightarrow> g a)"
  "(\<And>a. ends_alike (h a) (k a)) \<Longrightarrow> (\<And>a. ends_alike (f' a) (g' a)) \<Longrightarrow>
     ends_alike (case z of Inl a \<Rightarrow> h a | Inr a \<Rightarrow> f' a) (case z of Inl a \<Rightarrow> k a | Inr a \<Rightarrow> g' a)"
  by (simp_all split: option.split sum.split)

lemma alike_task:
  "(\<And>a b. recorded_alike a b \<Longrightarrow> alike (f a) (g b)) \<Longrightarrow>
     alike (State_Monad.bind get_task f) (State_Monad.bind get_task g)"
  by (simp add: alike_def twin_def)

lemma ends_alike_task:
  "(\<And>a b. recorded_alike a b \<Longrightarrow> ends_alike (f a) (g b)) \<Longrightarrow>
     ends_alike (State_Monad.bind get_task f) (State_Monad.bind get_task g)"
  by (simp add: ends_alike_def twin_def)

lemma alike_modify:
  "(\<And>a b. recorded_alike a b \<Longrightarrow> recorded_alike (edit_task f a) (edit_task g b)) \<Longrightarrow>
     alike (modify_status f) (modify_status g)"
  by (simp add: alike_def twin_def)

section \<open>The controller's computations\<close>

lemma alike_put [alike_rules]: "alike (set_step_status x) (set_step_status x)"
  unfolding set_step_status_def by (rule alike_modify) (simp add: recorded_alike_def)

lemma alike_marks [alike_rules]:
  "alike (mark_step_succeeded n d outs act) (mark_step_succeeded n d outs act)"
  "alike (mark_step_failed n d msg act) (mark_step_failed n d msg act)"
  unfolding mark_step_succeeded_def mark_step_failed_def
  by (intro alike_bind alike_put alike_task alike_observe)+

lemma alike_execute [alike_rules]: "alike (execute C L e action params) (execute C L e action params)"
  unfolding execute_def secret_update_def secret_read_def rollout_restart_def restart_workload_def
    configmap_update_def wait_step_def assert_step_def Let_def
  by (intro alike_rules)

lemma alike_one_step [alike_rules]: "alike (execute_one_step C L e rs) (execute_one_step C L e rs)"
  unfolding execute_one_step_def Let_def
proof (rule alike_task, goal_cases)
  case (1 a b)
  then have "resolve_templates (lib_printable L) (ss_params (rs_step rs)) (steps_of a) =
      resolve_templates (lib_printable L) (ss_params (rs_step rs)) (steps_of b)"
    by (intro resolve_recorded) (simp add: recorded_alike_def)
  then show ?case by (simp only:) (intro alike_rules)
qed

lemma ends_alike_update [alike_rules]:
  assumes "\<And>u. sends (\<lambda>_. False) (f u)" and "\<And>u. sends (\<lambda>_. False) (g u)"
  shows "ends_alike (State_Monad.bind (update_status C) f) (State_Monad.bind (update_status C) g)"
  unfolding ends_alike_def
proof (intro allI impI)
  fix s t :: "'a st"
  assume twin: "twin s t"
  let ?updated = "\<lambda>s a s'. calls s' = calls s @ [UpdateStatus a]"
  have ends: "wp (State_Monad.bind (update_status C) h) (\<lambda>_. ?updated u (task u)) u"
    if "\<And>v. sends (\<lambda>_. False) (h v)" for h and u :: "'a st"
  proof -
    have "wp (h v) (\<lambda>_ s'. calls s' = xs) s" if "calls s = xs" for v s xs
      using sends_wp [OF \<open>\<And>v. sends (\<lambda>_. False) (h v)\<close>] that by (auto simp: list_all_iff elim!: wp_mono)
    then show ?thesis by (auto split: prod.split sum.split)
  qed
  from ends [of f s, OF assms(1)] ends [of g t, OF assms(2)] twin
  show "wp (State_Monad.bind (update_status C) f) (\<lambda>x s'. wp (State_Monad.bind (update_status C) g) (\<lambda>y t'.
      same_end s t s' t' \<or> x = y \<and> (\<exists>cs. calls s' = calls s @ cs \<and> calls t' = calls t @ cs)) t) s"
    by (auto simp: wp_def same_end_def twin_def split: prod.splits)
qed

lemma ends_alike_set_phase: "ends_alike (after_mark (set_phase C p)) (after_mark (set_phase C p))"
  by (auto simp: ends_alike_def wp_set_phase Let_def same_end_def twin_def recorded_alike_def
      split: prod.splits sum.splits)

lemma alike_set_condition:
  "alike (set_condition C L t status reason m1) (set_condition C L t status reason m2)"
  by (auto simp: alike_def twin_def recorded_alike_def split: prod.split)

lemma ends_alike_marks [alike_rules]:
  "ends_alike (after_mark (mark_failed C L reason msg)) (after_mark (mark_failed C L reason msg))"
  "ends_alike (after_mark (mark_succeeded C L)) (after_mark (mark_succeeded C L))"
proof -
  have *: "ends_alike (State_Monad.bind (set_condition C L t status reason m1) (\<lambda>_. after_mark (set_phase C p)))
      (State_Monad.bind (set_condition C L t status reason m2) (\<lambda>_. after_mark (set_phase C p)))"
    for t status reason m1 m2 p
    by (intro ends_alike_bind alike_set_condition ends_alike_set_phase)
  show "ends_alike (after_mark (mark_failed C L reason msg)) (after_mark (mark_failed C L reason msg))"
    using * by (simp add: after_mark_def mark_failed_def)
  show "ends_alike (after_mark (mark_succeeded C L)) (after_mark (mark_succeeded C L))"
    using * by (simp add: after_mark_def mark_succeeded_def ends_alike_task)
qed

lemma ends_alike_loop [alike_rules]: "ends_alike (partitioned_loop C L e steps) (partitioned_loop C L e steps)"
  by (induction steps) (simp_all, (intro alike_rules | assumption)+)

lemma ends_alike_native [alike_rules]:
  "ends_alike (execute_api_native_steps C L steps) (execute_api_native_steps C L steps)"
  "ends_alike (execute_api_native_steps_from_partitioned C L p) (execute_api_native_steps_from_partitioned C L p)"
proof -
  have *: "ends_alike (State_Monad.bind get_task (\<lambda>tr. partitioned_loop C L (new_step_executor (tr_namespace tr)) steps))
      (State_Monad.bind get_task (\<lambda>tr. partitioned_loop C L (new_step_executor (tr_namespace tr)) steps))" for steps
    by (rule ends_alike_task) (simp add: recorded_alike_def ends_alike_loop)
  show "ends_alike (execute_api_native_steps C L steps) (execute_api_native_steps C L steps)"
    unfolding execute_api_native_steps_def native_loop_partitioned by (rule *)
  show "ends_alike (execute_api_native_steps_from_partitioned C L p) (execute_api_native_steps_from_partitioned C L p)"
    unfolding execute_api_native_steps_from_partitioned_def by (intro alike_rules *)
qed

lemma alike_logs_loop [alike_rules]: "alike (collect_logs_loop C ns pod i steps) (collect_logs_loop C ns pod i steps)"
  by (induction steps arbitrary: i)
    (auto simp: recorded_alike_def Let_def intro!: alike_rules alike_modify)

lemma alike_runner_logs [alike_rules]: "alike (collect_runner_logs C R steps) (collect_runner_logs C R steps)"
  by (auto simp: collect_runner_logs_def recorded_alike_def task_run_labels_def intro!: alike_rules alike_task)

lemma alike_runner_outputs [alike_rules]: "alike (collect_runner_outputs C R) (collect_runner_outputs C R)"
  by (auto simp: collect_runner_outputs_def recorded_alike_def task_run_labels_def intro!: alike_rules alike_task)

lemma alike_runner_loops [alike_rules]:
  "alike (mark_running_loop steps) (mark_running_loop steps)"
  "alike (mark_runner_succeeded_loop d outs steps) (mark_runner_succeeded_loop d outs steps)"
  "alike (mark_runner_failed_loop d steps) (mark_runner_failed_loop d steps)"
  by (induction steps) (auto simp: Let_def intro!: alike_rules)

lemma alike_params:
  assumes "owner_by_meta L"
  shows "alike (ensure_params_config_map C L steps) (ensure_params_config_map C L steps)"
  unfolding ensure_params_config_map_def
proof (rule alike_task, goal_cases)
  case (1 a b)
  then have "lib_set_controller_reference L a = lib_set_controller_reference L b" "tr_meta a = tr_meta b"
    using assms by (auto simp: owner_by_meta_def recorded_alike_def)
  then show ?case by (auto simp: Let_def intro!: alike_rules)
qed

lemma ends_alike_submit:
  assumes "owner_by_meta L"
  shows "ends_alike (submit_job C L steps) (submit_job C L steps)"
  unfolding submit_job_def
proof (rule ends_alike_task, goal_cases)
  case (1 a b)
  then have "build L a steps = build L b steps" by (rule build_recorded [OF assms])
  then show ?case by (auto intro!: alike_rules sends_case_option sends_return)
qed

lemma ends_alike_job:
  assumes "owner_by_meta L"
  shows "ends_alike (reconcile_job C L R p) (reconcile_job C L R p)"
  unfolding reconcile_job_def create_runner_job_def
proof (rule ends_alike_task, goal_cases)
  case (1 a b)
  then have "runner_key a = runner_key b" by (simp add: runner_key_def recorded_alike_def)
  then show ?case
    by (auto intro!: alike_rules alike_params [OF assms] ends_alike_submit [OF assms])
qed

lemma ends_alike_cron_job:
  assumes "owner_by_meta L"
  shows "ends_alike (reconcile_cron_job C L p) (reconcile_cron_job C L p)"
  unfolding reconcile_cron_job_def
proof (rule ends_alike_task, goal_cases)
  case (1 a b)
  then have "build_cron_job L a (ps_runner p) = build_cron_job L b (ps_runner p)"
    by (rule build_recorded [OF assms])
  moreover have "runner_key a = runner_key b" using 1 by (simp add: runner_key_def recorded_alike_def)
  ultimately show ?case by (auto intro!: alike_rules)
qed

lemma ends_alike_dispatch:
  assumes "owner_by_meta L"
  shows "ends_alike (dispatch_steps C L R resolved) (dispatch_steps C L R resolved)"
  unfolding dispatch_steps_def
  by (rule ends_alike_task)
     (auto simp: Let_def recorded_alike_def
       intro!: alike_rules ends_alike_job [OF assms] ends_alike_cron_job [OF assms])

lemma alike_resolve_all [alike_rules]: "alike (resolve_all C L r steps) (resolve_all C L r steps)"
proof -
  have "alike (resolve C L r a) (resolve C L r a)" for r a
    unfolding resolve_def by (intro alike_rules)
  then have "alike (resolve_loop C L r steps resolved unresolved) (resolve_loop C L r steps resolved unresolved)"
    for resolved unresolved
    by (induction steps arbitrary: r resolved unresolved)
       (auto intro!: alike_rules split: prod.split sum.split)
  then show ?thesis
    unfolding resolve_all_def by (auto intro!: alike_rules split: prod.split)
qed

section \<open>Reconcile\<close>

abbreviation validated_running ::
  "'w client \<Rightarrow> lib \<Rightarrow> reconciler \<Rightarrow> string + resolved_step list \<Rightarrow> ('w, reconcile_result) prog" where
  \<comment> \<open>what follows the resolution of the steps of a TaskRun in Running\<close>
  "validated_running C L R x \<equiv>
     (case x of
        Inl err \<Rightarrow> after_mark (mark_failed C L ''ResolutionFailed'' err)
      | Inr resolved \<Rightarrow>
          (case validate_step_params L resolved of
             Some err \<Rightarrow> after_mark (mark_failed C L ''ValidationFailed'' err)
           | None \<Rightarrow>
               (case validate_step_ordering L resolved of
                  Some err \<Rightarrow> after_mark (mark_failed C L ''InvalidStepOrdering'' err)
                | None \<Rightarrow> dispatch_steps C L R resolved)))"

lemma run_after_read_running:
  assumes "phase_of tr = TaskRunPhaseRunning" and "task s = tr"
    and "run_state (resolve_all C L (new_step_resolver (tr_namespace tr)) (trs_steps (tr_spec tr))) s = (x, s1)"
  shows "run_state (after_read C L R tr) s = run_state (validated_running C L R x) s1"
proof -
  have "task s1 = tr" using wpD [OF frame_resolve_all assms(3)] assms(2) by simp
  then have "run_state (State_Monad.bind get_task (\<lambda>taskRun.
      if phase_of taskRun = TaskRunPhaseUnset \<or> phase_of taskRun = TaskRunPhasePending then m
      else dispatch_steps C L R resolved)) s1 = run_state (dispatch_steps C L R resolved) s1" for m resolved
    using assms(1) by (simp add: get_task_def)
  with assms show ?thesis
    by (simp add: after_read_def reconcile_validated_def split: sum.split option.split)
qed

text \<open>C11: nothing the status records of a step but its outputs decides what is done next: take two
  TaskRuns in Running that differ only in the recorded phases, durations and logs of their
  steps, their conditions and their times, and two calls of \<open>Reconcile\<close> that read them and
  find the same world. Both send the same requests in the same order, and either both
  end with a status update, of TaskRuns that still differ in no more than that, or neither does and
  they return the same. That a step is recorded as Succeeded does not keep it from being
  executed again.\<close>

theorem recorded_phases_ignored:
  assumes "owner_by_meta L"
    and "cl_get_task_run C req (ext s) = (Inr a, w)" and "cl_get_task_run C req (ext t) = (Inr b, w)"
    and "phase_of a = TaskRunPhaseRunning" and "recorded_alike a b"
    and "run_state (reconcile C L R req) s = (x, s')" and "run_state (reconcile C L R req) t = (y, t')"
  shows "\<exists>cs. calls s' = calls s @ cs \<and> calls t' = calls t @ cs \<and> x = y
     \<or> (\<exists>u v. calls s' = calls s @ cs @ [UpdateStatus u] \<and> calls t' = calls t @ cs @ [UpdateStatus v]
          \<and> recorded_alike u v)"
proof -
  let ?s = "loaded s req a w" and ?t = "loaded t req b w"
  let ?resolve = "resolve_all C L (new_step_resolver (tr_namespace a)) (trs_steps (tr_spec a))"
  have b: "phase_of b = TaskRunPhaseRunning" "tr_namespace b = tr_namespace a" "tr_spec b = tr_spec a"
    using assms(4,5) by (simp_all add: recorded_alike_def)
  have "twin ?s ?t" using assms(5) by (simp add: twin_def)
  then obtain z s1 t1 cs where 1: "run_state ?resolve ?s = (z, s1)" "run_state ?resolve ?t = (z, t1)" "twin s1 t1"
    "calls s1 = calls ?s @ cs" "calls t1 = calls ?t @ cs" by (rule alikeE [OF alike_resolve_all])
  have "run_state (validated_running C L R z) s1 = (x, s')"
    using run_after_read_running [OF assms(4) _ 1(1)] assms(6) reconcile_loaded [OF assms(2)] by simp
  moreover have "run_state (validated_running C L R z) t1 = (y, t')"
    using run_after_read_running [OF b(1), of ?t] 1(2) b(2,3) assms(7) reconcile_loaded [OF assms(3)] by simp
  moreover have "ends_alike (validated_running C L R z) (validated_running C L R z)"
    by (intro alike_rules ends_alike_dispatch [OF assms(1)])
  ultimately have "same_end s1 t1 s' t' \<or> x = y \<and> (\<exists>ds. calls s' = calls s1 @ ds \<and> calls t' = calls t1 @ ds)"
    using 1(3) by (auto simp: ends_alike_def wp_run)
  with 1(4,5) show ?thesis by (auto simp: same_end_def)
qed

text \<open>The TaskRun of two steps once more, with both steps recorded as Running or both as Succeeded, and
  a client that reads it once.\<close>

definition read_once_client :: "cluster client" where
  "read_once_client = example_client\<lparr>cl_get_task_run :=
     \<lambda>k w. (fst (found (k_task_runs w k) w), w\<lparr>k_task_runs := Map.empty\<rparr>)\<rparr>"

definition recorded_run :: "step_phase \<Rightarrow> task_run" where
  "recorded_run p =
     (let row = (\<lambda>n. \<lparr>st_name = n, st_phase = p, st_duration = [], st_outputs = None, st_logs = []\<rparr>);
          tr = example_task_run [] example_spec
      in tr\<lparr>tr_status := (tr_status tr)\<lparr>ts_phase := TaskRunPhaseRunning, ts_steps := [row ''a'', row ''b'']\<rparr>\<rparr>)"

definition recorded_before :: "step_phase \<Rightarrow> cluster st" where
  "recorded_before p = example_state
     (example_cluster\<lparr>k_task_runs := [NamespacedName ''apps'' ''demo'' \<mapsto> recorded_run p]\<rparr>) (recorded_run p)"

definition recorded_after :: "step_phase \<Rightarrow> reconcile_result \<times> cluster st" where
  "recorded_after p = run_state (reconcile read_once_client example_lib \<lparr>rec_clientset_set = False\<rparr>
     (NamespacedName ''apps'' ''demo'')) (recorded_before p)"

lemma recorded_running_call:
  "GetSecret (NamespacedName ''apps'' ''db'') \<in> set (calls (snd (recorded_after StepPhaseRunning)))"
proof -
  have "wp (reconcile read_once_client example_lib \<lparr>rec_clientset_set = False\<rparr> (NamespacedName ''apps'' ''demo''))
     (\<lambda>r s'. GetSecret (NamespacedName ''apps'' ''db'') \<in> set (calls s')) (recorded_before StepPhaseRunning)"
    by (simp add: reconcile_def resolve_all_def resolve_def new_step_resolver_def reconcile_validated_def
        validate_step_params_def validate_one_step_def validate_step_ordering_def is_runner_def
        dispatch_steps_def execute_api_native_steps_def execute_one_step_def resolve_templates_def
        execute_actions wait_step_def secret_update_def new_step_executor_def resolve_namespace_def
        example_plain_value mark_succeeded_def wp_set_phase with_phase_def Let_def example_spec_def
        example_cluster_def recorded_before_def recorded_run_def read_once_client_def example_defs mread_def)
  then show ?thesis by (simp add: recorded_after_def wp_def split_beta)
qed

theorem recorded_phases_ignored_witness:
  "GetSecret (NamespacedName ''apps'' ''db'') \<in> set (calls (snd (recorded_after StepPhaseSucceeded)))"
proof -
  let ?req = "NamespacedName ''apps'' ''demo''" and ?w = "example_cluster\<lparr>k_task_runs := Map.empty\<rparr>"
  have "owner_by_meta example_lib" by (auto simp: owner_by_meta_def)
  moreover have "cl_get_task_run read_once_client ?req (ext (recorded_before p)) = (Inr (recorded_run p), ?w)" for p
    by (simp add: read_once_client_def recorded_before_def example_defs)
  moreover have "phase_of (recorded_run p) = TaskRunPhaseRunning" for p by (simp add: recorded_run_def Let_def)
  moreover have "recorded_alike (recorded_run StepPhaseRunning) (recorded_run StepPhaseSucceeded)"
    by (simp add: recorded_alike_def recorded_run_def recorded_outputs_def Let_def)
  moreover have "calls (recorded_before p) = []" for p by (simp add: recorded_before_def example_defs)
  moreover note recorded_running_call
  ultimately show ?thesis
    using recorded_phases_ignored [of example_lib read_once_client ?req "recorded_before StepPhaseRunning"
        "recorded_run StepPhaseRunning" ?w "recorded_before StepPhaseSucceeded" "recorded_run StepPhaseSucceeded"
        "\<lparr>rec_clientset_set = False\<rparr>" _ _ _ _, OF _ _ _ _ _ surjective_pairing surjective_pairing]
    by (fastforce simp: recorded_after_def)
qed

end
