(* ===== verification/JsonFacts.thy ===== *)
theory JsonFacts
  imports GoJson
begin

text \<open>
  Facts on the JSON of \<open>GoJson\<close>: what the encoder writes for a map of strings, the decoder reads
  back, and the fuel of the parser is never what stops it.
\<close>

section \<open>UTF-8\<close>

function valid_utf8 :: "string \<Rightarrow> bool" where
  "valid_utf8 [] = True"
| "valid_utf8 (c # cs) =
     (case decode_rune (c # cs) of
        None \<Rightarrow> False
      | Some (r, w) \<Rightarrow> valid_utf8 (drop w (c # cs)))"
  by pat_completeness auto
termination
  by (relation "measure length") (auto dest: decode_rune_width)

lemma list_shape:
  obtains "s = []" | a where "s = [a]" | a b where "s = [a, b]" | a b c where "s = [a, b, c]"
  | a b c d r where "s = a # b # c # d # r"
  by (metis list.exhaust)

lemma decode_rune_prefix:
  assumes "decode_rune s = Some (r, w)"
  shows "decode_rune (take w s @ t) = Some (r, w)"
  using assms by (cases s rule: list_shape) (auto simp: decode_rune_def split: if_splits)

lemma decode_rune_ascii: "(of_char c :: nat) < 128 \<Longrightarrow> decode_rune (c # cs) = Some (of_char c, 1)"
  by (simp add: decode_rune_def)

lemma valid_utf8_ascii: "(of_char c :: nat) < 128 \<Longrightarrow> valid_utf8 (c # cs) = valid_utf8 cs"
  by (simp add: decode_rune_ascii)

lemma base64_digits:
  fixes z z' :: nat
  assumes "q * 64 + z = q' * 64 + z'" and "z < 64" and "z' < 64"
  shows "q = q' \<and> z = z'"
proof -
  have "(q * 64 + z) mod 64 = z" "(q' * 64 + z') mod 64 = z'"
    using assms(2,3) by simp_all
  with assms(1) show ?thesis by simp
qed

lemma separator_bytes:
  fixes x y z :: nat
  assumes "x * 4096 + y * 64 + z = 8232 + k" and "k < 2" and "y < 64" and "z < 64"
  shows "x = 2 \<and> y = 0 \<and> z = 40 + k"
proof -
  have "(x * 64 + y) * 64 + z = (2 * 64 + 0) * 64 + (40 + k)"
    using assms(1) by simp
  then have q: "x * 64 + y = 2 * 64 + 0" and z: "z = 40 + k"
    using base64_digits [of "x * 64 + y" z "2 * 64 + 0" "40 + k"] assms by auto
  from base64_digits [OF q assms(3)] z show ?thesis by simp
qed

lemma two_bytes_below:
  fixes a b k :: nat
  shows "194 \<le> a \<Longrightarrow> a \<le> 223 \<Longrightarrow> b \<le> 191 \<Longrightarrow> (a - 192) * 64 + b - 128 \<noteq> 8232 + k"
  by arith

lemma separator_shape:
  assumes "decode_rune s = Some (8232 + k, w)" and "k < 2"
  shows "\<exists>a b c r. s = a # b # c # r \<and> w = 3
    \<and> 8232 + k = (of_char a - 224) * 4096 + (of_char b - 128) * 64 + (of_char c - 128)
    \<and> 224 \<le> (of_char a :: nat) \<and> continuation (of_char b) \<and> continuation (of_char c)"
  using assms
  by (cases s rule: list_shape)
    (simp_all add: decode_rune_def continuation_def two_bytes_below split: if_splits)

lemma decode_rune_separator:
  assumes "decode_rune s = Some (8232 + k, w)" and "k < 2"
  shows "take w s = encode_rune (8232 + k)"
proof -
  obtain a b c r where s: "s = a # b # c # r" "w = 3"
      "8232 + k = (of_char a - 224) * 4096 + (of_char b - 128) * 64 + (of_char c - 128)"
      "224 \<le> (of_char a :: nat)" "continuation (of_char b)" "continuation (of_char c)"
    using separator_shape [OF assms] by blast
  obtain x where x: "of_char a = 224 + (x :: nat)" using s(4) by (rule less_eqE)
  obtain y where y: "of_char b = 128 + (y :: nat)" "y < 64"
    using s(5) unfolding continuation_def by (auto elim!: less_eqE)
  obtain z where z: "of_char c = 128 + (z :: nat)" "z < 64"
    using s(6) unfolding continuation_def by (auto elim!: less_eqE)
  have "x * 4096 + y * 64 + z = 8232 + k"
    using s(3) x y z by simp
  then have "x = 2 \<and> y = 0 \<and> z = 40 + k"
    by (rule separator_bytes [OF _ assms(2) y(2) z(2)])
  with x y z have "of_char a = (226 :: nat)" "of_char b = (128 :: nat)" "of_char c = 168 + k"
    by simp_all
  then have "a = char_of (226 :: nat)" "b = char_of (128 :: nat)" "c = char_of (168 + k)"
    by (metis char_of_char)+
  moreover have "k = 0 \<or> k = 1" using assms(2) by auto
  ultimately show ?thesis using s(1,2) by (auto simp: encode_rune_def)
qed

section \<open>Escapes\<close>

lemma hex_val_digit [simp]: "d < 16 \<Longrightarrow> hex_val (hex_digit d) = Some d"
  by (auto simp: hex_val_def hex_digit_def Let_def)

lemma hex_4:
  "hex 4 n = [hex_digit (n div 16 div 16 div 16 mod 16), hex_digit (n div 16 div 16 mod 16),
              hex_digit (n div 16 mod 16), hex_digit (n mod 16)]"
proof -
  have four: "(4 :: nat) = Suc (Suc (Suc (Suc 0)))" by simp
  show ?thesis by (simp only: four hex.simps append.simps)
qed

lemma hex4_hex:
  assumes "n < 65536"
  shows "hex4 (hex 4 n) = Some n"
proof -
  have top: "n div 16 div 16 div 16 < 16"
    using assms by (simp add: div_mult2_eq [symmetric] less_mult_imp_div_less)
  have "n div 16 div 16 div 16 * 16 + n div 16 div 16 mod 16 = n div 16 div 16"
    and "n div 16 div 16 * 16 + n div 16 mod 16 = n div 16" and "n div 16 * 16 + n mod 16 = n"
    by (rule div_mult_mod_eq)+
  with top show ?thesis
    by (simp only: hex_4 hex4_def list.case hex_val_digit mod_less mod_less_divisor zero_less_numeral
        prod.case option.case)
qed

lemma length_hex [simp]: "length (hex w n) = w"
  by (induction w arbitrary: n) auto

lemma unicode_escape_hex:
  "n < 55296 \<Longrightarrow> unicode_escape (hex 4 n @ t) = Some (encode_rune n, 4)"
  by (simp add: unicode_escape_def hex4_hex)

section \<open>Strings\<close>

declare parse_string_body.simps(2) [simp del]
declare json_string_body.simps(2) [simp del]
declare valid_utf8.simps(2) [simp del]

lemma parse_short_escape:
  "c \<noteq> CHR ''u'' \<Longrightarrow> parse_string_body (backslash # c # t) =
     (case simple_escape c of
        None \<Rightarrow> None
      | Some e \<Rightarrow> map_option (\<lambda>(u, r). (e @ u, r)) (parse_string_body t))"
  by (simp add: backslash_def parse_string_body.simps(2))

lemma parse_hex_escape:
  "n < 55296 \<Longrightarrow> parse_string_body (backslash # CHR ''u'' # hex 4 n @ t) =
     map_option (\<lambda>(u, r). (encode_rune n @ u, r)) (parse_string_body t)"
  by (simp add: unicode_escape_hex backslash_def parse_string_body.simps(2))

lemma parse_plain:
  "32 \<le> b \<Longrightarrow> b < 128 \<Longrightarrow> b \<noteq> 34 \<Longrightarrow> b \<noteq> 92 \<Longrightarrow>
     parse_string_body (char_of (b :: nat) # t) = map_option (\<lambda>(u, r). (char_of b # u, r)) (parse_string_body t)"
  by (simp add: parse_string_body.simps(2))

lemma parse_multibyte:
  assumes "decode_rune (c # cs) = Some (r, w)" and "128 \<le> (of_char c :: nat)"
  shows "parse_string_body (take w (c # cs) @ t) =
     map_option (\<lambda>(u, q). (take w (c # cs) @ u, q)) (parse_string_body t)"
proof -
  obtain x where x: "take w (c # cs) = c # x"
    using decode_rune_width [OF assms(1)] by (cases w) auto
  have "decode_rune (c # x @ t) = Some (r, w)"
    using decode_rune_prefix [OF assms(1), of t] x by simp
  moreover have "w = Suc (length x)"
    using decode_rune_width [OF assms(1)] arg_cong [OF x, of length] by simp
  ultimately show ?thesis
    using assms(2) x by (simp add: parse_string_body.simps(2))
qed

lemma json_escape_parse:
  assumes "b < 128"
  shows "parse_string_body (json_escape b @ t) = map_option (\<lambda>(u, r). (char_of b # u, r)) (parse_string_body t)"
proof -
  have "parse_string_body (backslash # CHR ''u'' # hex 4 b @ t)
      = map_option (\<lambda>(u, r). (char_of b # u, r)) (parse_string_body t)"
    using assms by (simp add: parse_hex_escape encode_rune_def)
  moreover have "char_of (34 :: nat) \<noteq> CHR ''u''" "char_of (92 :: nat) \<noteq> CHR ''u''"
    by code_simp+
  ultimately show ?thesis
    using assms
    by (auto simp: json_escape_def parse_short_escape parse_plain simple_escape_def)
qed

text \<open>Decoding the body of an encoded string gives the string back and stops at its quote.\<close>

lemma json_string_body_parse:
  "valid_utf8 s \<Longrightarrow> parse_string_body (json_string_body s @ dquote # t) = Some (s, t)"
proof (induction s rule: json_string_body.induct)
  case 1
  then show ?case by (simp add: dquote_def parse_string_body.simps(2))
next
  case (2 c cs)
  show ?case
  proof (cases "(of_char c :: nat) < 128")
    case True
    with 2 show ?thesis by (simp add: json_string_body.simps(2) json_escape_parse valid_utf8_ascii)
  next
    case False
    with "2.prems" obtain r w where d: "decode_rune (c # cs) = Some (r, w)" and v: "valid_utf8 (drop w (c # cs))"
      by (auto simp: valid_utf8.simps(2) split: option.splits)
    have IH: "parse_string_body (json_string_body (drop w (c # cs)) @ dquote # t) = Some (drop w (c # cs), t)"
      using "2.IH"(3) [OF False d refl v] .
    let ?rest = "json_string_body (drop w (c # cs)) @ dquote # t"
    show ?thesis
    proof (cases "r = 8232 \<or> r = 8233")
      case True
      then obtain k where k: "r = 8232 + k" "k < 2" by force
      have "encode_rune r = take w (c # cs)"
        using decode_rune_separator [of "c # cs" k w] d k by simp
      moreover have "parse_string_body (backslash # CHR ''u'' # hex 4 r @ ?rest) =
          map_option (\<lambda>(u, q). (encode_rune r @ u, q)) (parse_string_body ?rest)"
        using k by (simp add: parse_hex_escape)
      ultimately show ?thesis
        using False d True IH by (simp add: json_string_body.simps(2))
    next
      case plain: False
      have "128 \<le> (of_char c :: nat)" using False by simp
      from parse_multibyte [OF d this, of ?rest] show ?thesis
        using False d plain IH by (simp add: json_string_body.simps(2))
    qed
  qed
qed

lemma json_string_parse: "valid_utf8 s \<Longrightarrow> parse_string_body (tl (json_string s) @ t) = Some (s, t)"
  by (simp add: json_string_def json_string_body_parse)

section \<open>Fuel\<close>

text \<open>What a parser returns it returns for every amount of fuel above the number of characters
  it took, and it returns a suffix of its input.\<close>

lemma dropWhile_length: "length (dropWhile P s) \<le> length s"
  by (induction s) auto

lemma parse_string_body_shorter: "parse_string_body s = Some (u, r) \<Longrightarrow> length r < length s"
proof (induction s arbitrary: u r rule: parse_string_body.induct)
  case (2 c cs)
  then show ?case
    by (fastforce simp: parse_string_body.simps(2) Let_def split: if_splits list.splits option.splits
        dest: decode_rune_width)
qed simp

lemma json_fraction_shorter: "json_fraction s = Some r \<Longrightarrow> length r \<le> length s"
  using dropWhile_length [of is_digit "tl s"]
  by (cases s) (auto simp: json_fraction_def split: if_splits)

lemma json_exponent_shorter: "json_exponent s = Some r \<Longrightarrow> length r \<le> length s"
  using dropWhile_length [of is_digit "tl s"] dropWhile_length [of is_digit "tl (tl s)"]
  by (cases s; cases "tl s") (auto simp: json_exponent_def Let_def split: if_splits)

lemma json_number_shorter:
  assumes "json_number s = Some (t, r)"
  shows "length r < length s"
proof -
  define u where "u = (case s of [] \<Rightarrow> [] | c # cs \<Rightarrow> if c = CHR ''-'' then cs else s)"
  have u: "length u \<le> length s" by (simp add: u_def split: list.split)
  from assms obtain r1 r2 where r1: "(case u of [] \<Rightarrow> None
           | c # cs \<Rightarrow> if c = CHR ''0'' then Some cs
                     else if is_digit c then Some (dropWhile is_digit cs) else None) = Some r1"
      and r2: "json_fraction r1 = Some r2" "json_exponent r2 = Some r"
    by (auto simp: json_number_def Let_def u_def [symmetric] split: option.splits)
  from r1 have "length r1 < length u"
    by (auto simp: less_Suc_eq_le dropWhile_length split: list.splits if_splits)
  with u json_fraction_shorter [OF r2(1)] json_exponent_shorter [OF r2(2)] show ?thesis by simp
qed

definition fuel_enough :: "(nat \<Rightarrow> ('a \<times> string) option) \<Rightarrow> string \<Rightarrow> 'a \<Rightarrow> string \<Rightarrow> bool" where
  "fuel_enough p s x r \<longleftrightarrow>
     length r < length s \<and> (\<forall>k > length s - length r. p k = Some (x, r))"

lemma fuel_enoughI:
  assumes "length r < length s" and "\<And>k. length s - length r \<le> k \<Longrightarrow> p (Suc k) = Some (x, r)"
  shows "fuel_enough p s x r"
proof -
  have "p k = Some (x, r)" if "length s - length r < k" for k
    using that assms(2) [of "k - 1"] by (cases k) auto
  with assms(1) show ?thesis by (simp add: fuel_enough_def)
qed

lemma skip_space_length: "length (skip_space s) \<le> length s"
  by (rule dropWhile_length)

definition parse_scalar :: "string \<Rightarrow> (json \<times> string) option" where
  \<comment> \<open>a value that is no object and no array\<close>
  "parse_scalar s =
     (if hd s = dquote then map_option (\<lambda>(t, r). (JStr t, r)) (parse_string_body (tl s))
      else case strip_lit ''null'' s of Some r \<Rightarrow> Some (JNull, r) | None \<Rightarrow>
      (case strip_lit ''true'' s of Some r \<Rightarrow> Some (JBool True, r) | None \<Rightarrow>
      (case strip_lit ''false'' s of Some r \<Rightarrow> Some (JBool False, r) | None \<Rightarrow>
         map_option (\<lambda>(t, r). (JNum t, r)) (json_number s))))"

lemma parse_value_scalar:
  "c \<noteq> CHR ''{'' \<Longrightarrow> c \<noteq> CHR ''['' \<Longrightarrow> parse_value (Suc k) d (c # cs) = parse_scalar (c # cs)"
  by (simp add: parse_scalar_def)

lemma parse_value_object:
  "parse_value (Suc k) d (CHR ''{'' # cs) =
     (case d of
        0 \<Rightarrow> None
      | Suc d' \<Rightarrow>
          (case strip_lit ''}'' (skip_space cs) of
             Some r \<Rightarrow> Some (JObj [], r)
           | None \<Rightarrow> map_option (\<lambda>(ms, r). (JObj ms, r)) (parse_members k d' (skip_space cs))))"
  by simp

lemma parse_value_array:
  "parse_value (Suc k) d (CHR ''['' # cs) =
     (case d of
        0 \<Rightarrow> None
      | Suc d' \<Rightarrow>
          (case strip_lit '']'' (skip_space cs) of
             Some r \<Rightarrow> Some (JArr [], r)
           | None \<Rightarrow> map_option (\<lambda>(vs, r). (JArr vs, r)) (parse_elements k d' (skip_space cs))))"
  by simp

lemma parse_scalar_shorter:
  assumes "parse_scalar s = Some (v, r)" and "s \<noteq> []"
  shows "length r < length s"
proof -
  have "length r < length s" if "strip_lit l s = Some r" "l \<noteq> []" for l
    using that by (simp add: strip_lit_Some)
  moreover have "length q < length s" if "parse_string_body (tl s) = Some (t, q)" for t q
    using parse_string_body_shorter [OF that] assms(2) by (cases s) simp_all
  moreover have "length q < length s" if "json_number s = Some (t, q)" for t q
    using json_number_shorter [OF that] .
  ultimately show ?thesis
    using assms(1) unfolding parse_scalar_def
    by (fastforce split: if_splits option.splits simp del: strip_lit_Some)
qed

declare parse_value.simps(2) [simp del]
declare parse_members.simps(2) [simp del]
declare parse_elements.simps(2) [simp del]

lemma fuel_of_results:
  "parse_value K d s = Some (v, r) \<Longrightarrow> fuel_enough (\<lambda>k. parse_value k d s) s v r"
  "parse_members K d s = Some (ms, r) \<Longrightarrow> fuel_enough (\<lambda>k. parse_members k d s) s ms r"
  "parse_elements K d s = Some (vs, r) \<Longrightarrow> fuel_enough (\<lambda>k. parse_elements k d s) s vs r"
proof (induction K d s and K d s and K d s arbitrary: v r and ms r and vs r
    rule: parse_value_parse_members_parse_elements.induct)
  case (2 k d s)
  then obtain c cs where s: "s = c # cs" by (cases s) (simp_all add: parse_value.simps(2))
  consider (obj) "c = CHR ''{''" | (arr) "c = CHR ''[''" | (other) "c \<noteq> CHR ''{''" "c \<noteq> CHR ''[''" by blast
  then show ?case
  proof cases
    case other
    then have scalar: "parse_scalar s = Some (v, r)"
      using "2.prems" s parse_value_scalar by simp
    from parse_scalar_shorter [OF scalar] s show ?thesis
      using scalar other by (intro fuel_enoughI) (simp_all add: parse_value_scalar)
  next
    case obj
    with "2.prems" s obtain e where d: "d = Suc e" by (cases d) (simp_all add: parse_value_object)
    show ?thesis
    proof (cases "strip_lit ''}'' (skip_space cs)")
      case (Some q)
      with "2.prems" s obj d skip_space_length [of cs] show ?thesis
        by (intro fuel_enoughI) (auto simp: parse_value_object)
    next
      case None
      with "2.prems" s obj d obtain ms where ms: "parse_members k e (skip_space cs) = Some (ms, r)" "v = JObj ms"
        by (auto simp: parse_value_object simp del: strip_lit_Some)
      from "2.IH"(1) [OF s obj d None ms(1)] have IH: "length r < length (skip_space cs)"
          "\<And>k. length (skip_space cs) - length r < k \<Longrightarrow> parse_members k e (skip_space cs) = Some (ms, r)"
        by (simp_all add: fuel_enough_def)
      show ?thesis
        using IH s obj d None ms(2) skip_space_length [of cs]
        by (intro fuel_enoughI) (auto simp: parse_value_object simp del: strip_lit_Some)
    qed
  next
    case arr
    with "2.prems" s obtain e where d: "d = Suc e" by (cases d) (simp_all add: parse_value_array)
    have c: "c \<noteq> CHR ''{''" using arr by simp
    show ?thesis
    proof (cases "strip_lit '']'' (skip_space cs)")
      case (Some q)
      with "2.prems" s arr d skip_space_length [of cs] show ?thesis
        by (intro fuel_enoughI) (auto simp: parse_value_array)
    next
      case None
      with "2.prems" s arr d obtain vs where vs: "parse_elements k e (skip_space cs) = Some (vs, r)" "v = JArr vs"
        by (auto simp: parse_value_array simp del: strip_lit_Some)
      from "2.IH"(2) [OF s c arr d None vs(1)] have IH: "length r < length (skip_space cs)"
          "\<And>k. length (skip_space cs) - length r < k \<Longrightarrow> parse_elements k e (skip_space cs) = Some (vs, r)"
        by (simp_all add: fuel_enough_def)
      show ?thesis
        using IH s arr d None vs(2) skip_space_length [of cs]
        by (intro fuel_enoughI) (auto simp: parse_value_array simp del: strip_lit_Some)
    qed
  qed
next
  case (4 k d s)
  from "4.prems" obtain s1 key s2 s3 x s4 where parts: "strip_lit [dquote] s = Some s1"
      "parse_string_body s1 = Some (key, s2)" "strip_lit '':'' (skip_space s2) = Some s3"
      "parse_value k d (skip_space s3) = Some (x, s4)"
    by (auto simp: parse_members.simps(2) simp del: strip_lit_Some split: option.splits)
  have lens: "length s = Suc (length s1)" "length s2 < length s1" "Suc (length s3) \<le> length s2"
      "length (skip_space s3) \<le> length s3"
    using parts(1,3) parse_string_body_shorter [OF parts(2)] skip_space_length [of s2] skip_space_length [of s3]
    by auto
  from "4.IH"(1) [OF parts(1,2) refl parts(3)] parts(4)
  have x: "length s4 < length (skip_space s3)"
      "\<And>k. length (skip_space s3) - length s4 < k \<Longrightarrow> parse_value k d (skip_space s3) = Some (x, s4)"
    by (auto simp: fuel_enough_def)
  show ?case
  proof (cases "strip_lit '','' (skip_space s4)")
    case (Some s5)
    with "4.prems" parts obtain ns where ns: "parse_members k d (skip_space s5) = Some (ns, r)" "ms = (key, x) # ns"
      by (auto simp: parse_members.simps(2) simp del: strip_lit_Some)
    from "4.IH"(2) [OF parts(1,2) refl parts(3,4) refl Some ns(1)]
    have IH: "length r < length (skip_space s5)"
        "\<And>k. length (skip_space s5) - length r < k \<Longrightarrow> parse_members k d (skip_space s5) = Some (ns, r)"
      by (simp_all add: fuel_enough_def)
    have s5: "Suc (length s5) \<le> length s4" "length (skip_space s5) \<le> length s5"
      using Some skip_space_length [of s4] skip_space_length [of s5] by auto
    show ?thesis
    proof (rule fuel_enoughI)
      show "length r < length s" using IH(1) s5 x(1) lens by linarith
      show "parse_members (Suc k') d s = Some (ms, r)" if "length s - length r \<le> k'" for k'
      proof -
        have "length (skip_space s3) - length s4 < k'" "length (skip_space s5) - length r < k'"
          using that IH(1) s5 x(1) lens by linarith+
        with parts Some x(2) IH(2) ns(2) show ?thesis
          by (simp add: parse_members.simps(2) del: strip_lit_Some)
      qed
    qed
  next
    case None
    with "4.prems" parts have e: "strip_lit ''}'' (skip_space s4) = Some r" "ms = [(key, x)]"
      by (auto simp: parse_members.simps(2) simp del: strip_lit_Some split: option.splits)
    then have "Suc (length r) \<le> length s4" using skip_space_length [of s4] by simp
    show ?thesis
    proof (rule fuel_enoughI)
      show "length r < length s" using \<open>Suc (length r) \<le> length s4\<close> x(1) lens by linarith
      show "parse_members (Suc k') d s = Some (ms, r)" if "length s - length r \<le> k'" for k'
      proof -
        have "length (skip_space s3) - length s4 < k'"
          using that \<open>Suc (length r) \<le> length s4\<close> x(1) lens by linarith
        with parts None x(2) e show ?thesis
          by (simp add: parse_members.simps(2) del: strip_lit_Some)
      qed
    qed
  qed
next
  case (6 k d s)
  from "6.prems" obtain x s1 where v: "parse_value k d s = Some (x, s1)"
    by (auto simp: parse_elements.simps(2) split: option.splits)
  from "6.IH"(1) [OF v]
  have x: "length s1 < length s" "\<And>k. length s - length s1 < k \<Longrightarrow> parse_value k d s = Some (x, s1)"
    by (auto simp: fuel_enough_def)
  show ?case
  proof (cases "strip_lit '','' (skip_space s1)")
    case (Some s2)
    with "6.prems" v obtain ws where ws: "parse_elements k d (skip_space s2) = Some (ws, r)" "vs = x # ws"
      by (auto simp: parse_elements.simps(2) simp del: strip_lit_Some)
    from "6.IH"(2) [OF v refl Some ws(1)]
    have IH: "length r < length (skip_space s2)"
        "\<And>k. length (skip_space s2) - length r < k \<Longrightarrow> parse_elements k d (skip_space s2) = Some (ws, r)"
      by (simp_all add: fuel_enough_def)
    have s2: "Suc (length s2) \<le> length s1" "length (skip_space s2) \<le> length s2"
      using Some skip_space_length [of s1] skip_space_length [of s2] by auto
    show ?thesis
    proof (rule fuel_enoughI)
      show "length r < length s" using IH(1) s2 x(1) by linarith
      show "parse_elements (Suc k') d s = Some (vs, r)" if "length s - length r \<le> k'" for k'
      proof -
        have "length s - length s1 < k'" "length (skip_space s2) - length r < k'"
          using that IH(1) s2 x(1) by linarith+
        with Some x(2) IH(2) ws(2) show ?thesis
          by (simp add: parse_elements.simps(2) del: strip_lit_Some)
      qed
    qed
  next
    case None
    with "6.prems" v have e: "strip_lit '']'' (skip_space s1) = Some r" "vs = [x]"
      by (auto simp: parse_elements.simps(2) simp del: strip_lit_Some split: option.splits)
    then have r: "Suc (length r) \<le> length s1" using skip_space_length [of s1] by simp
    show ?thesis
    proof (rule fuel_enoughI)
      show "length r < length s" using r x(1) by linarith
      show "parse_elements (Suc k') d s = Some (vs, r)" if "length s - length r \<le> k'" for k'
      proof -
        have "length s - length s1 < k'"
          using that r x(1) by linarith
        with None x(2) e show ?thesis
          by (simp add: parse_elements.simps(2) del: strip_lit_Some)
      qed
    qed
  qed
qed simp_all

text \<open>More fuel than the length of the input never changes the answer.\<close>

lemma parse_value_fuel:
  assumes "length s < k" and "length s < k'"
  shows "parse_value k d s = parse_value k' d s"
proof -
  have some: "parse_value j d s = Some (v, r) \<Longrightarrow> length s < i \<Longrightarrow> parse_value i d s = Some (v, r)" for i j v r
    using fuel_of_results(1) [of j d s v r] by (simp add: fuel_enough_def)
  show ?thesis
    using some [OF _ assms(1)] some [OF _ assms(2)]
    by (cases "parse_value k d s"; cases "parse_value k' d s") auto
qed

lemma parse_json_fuel:
  assumes "length s < k"
  shows "parse_json s =
     (case parse_value k max_nesting (skip_space s) of
        Some (v, r) \<Rightarrow> if skip_space r = [] then Some v else None
      | None \<Rightarrow> None)"
  using parse_value_fuel [of "skip_space s" k "Suc (length s)" max_nesting] skip_space_length [of s] assms
  by (simp add: parse_json_def)

section \<open>A map of strings and back\<close>

lemma not_space [simp]:
  "\<not> is_json_space CHR ''{''" "\<not> is_json_space CHR ''}''" "\<not> is_json_space CHR '',''"
  "\<not> is_json_space CHR '':''" "\<not> is_json_space dquote"
  by code_simp+

lemma json_string_front: "json_string s @ t = dquote # json_string_body s @ dquote # t"
  by (simp add: json_string_def)

lemma parse_string_value:
  "valid_utf8 s \<Longrightarrow> parse_value (Suc k) d (json_string s @ t) = Some (JStr s, t)"
proof -
  assume s: "valid_utf8 s"
  have "dquote \<noteq> CHR ''{''" "dquote \<noteq> CHR ''[''" by code_simp+
  then show ?thesis
    by (simp add: json_string_front parse_value_scalar parse_scalar_def json_string_body_parse [OF s])
qed

definition json_members :: "(string \<times> string) list \<Rightarrow> string" where
  "json_members es = join '','' (map json_member es)"

lemma json_members_simps [simp]:
  "json_members [e] = json_member e"
  "json_members (e # f # es) = json_member e @ CHR '','' # json_members (f # es)"
  by (simp_all add: json_members_def)

lemma json_member_front:
  "json_member (k, v) @ t = dquote # json_string_body k @ dquote # CHR '':'' # json_string v @ t"
  by (simp add: json_member_def json_string_front)

lemma skip_space_members [simp]: "es \<noteq> [] \<Longrightarrow> skip_space (json_members es @ t) = json_members es @ t"
  by (cases es rule: remdups_adj.cases)
    (auto simp: json_member_front)

lemma parse_members_back:
  "es \<noteq> [] \<Longrightarrow> list_all (\<lambda>(k, v). valid_utf8 k \<and> valid_utf8 v) es \<Longrightarrow>
     parse_members (Suc (length es)) d (json_members es @ ''}'' @ t)
       = Some (map (\<lambda>(k, v). (k, JStr v)) es, t)"
proof (induction es)
  case (Cons e es)
  obtain k v where e: "e = (k, v)" by (cases e)
  have val: "parse_value (Suc (length es)) d (json_string v @ u) = Some (JStr v, u)" for u
    using Cons.prems e by (intro parse_string_value) simp
  have key: "parse_string_body (json_string_body k @ dquote # u) = Some (k, u)" for u
    using Cons.prems e by (intro json_string_body_parse) simp
  show ?case
  proof (cases es)
    case Nil
    then show ?thesis
      using val [of "''}'' @ t"] key e
      by (simp add: json_member_front parse_members.simps(2) json_string_front [of v])
  next
    case (Cons f fs)
    have tail: "parse_members (Suc (length es)) d (json_members es @ CHR ''}'' # t)
        = Some (map (\<lambda>(k, v). (k, JStr v)) es, t)"
      using Cons Cons.IH Cons.prems by simp
    have front: "json_members (e # es) @ ''}'' @ t =
        dquote # json_string_body k @ dquote # CHR '':'' # json_string v
          @ CHR '','' # json_members es @ CHR ''}'' # t"
      using Cons e by (simp add: json_member_front)
    have "skip_space (json_string v @ u) = json_string v @ u" for u
      by (simp add: json_string_front)
    then show ?thesis
      unfolding front using val key tail Cons e by (simp add: parse_members.simps(2))
  qed
qed simp

lemma max_nesting_Suc: "\<exists>n. max_nesting = Suc n"
  by (simp add: max_nesting_def not0_implies_Suc)

lemma parse_json_object:
  assumes "list_all (\<lambda>(k, v). valid_utf8 k \<and> valid_utf8 v) es"
  shows "parse_json (''{'' @ json_members es @ ''}'') = Some (JObj (map (\<lambda>(k, v). (k, JStr v)) es))"
proof (cases "es = []")
  case True
  obtain n where d: "max_nesting = Suc n" using max_nesting_Suc by blast
  have "parse_value (Suc k) (Suc n) ''{}'' = Some (JObj [], [])" for k
    by (simp add: parse_value_object)
  with True d show ?thesis
    by (simp add: parse_json_def json_members_def)
next
  case False
  obtain n where d: "max_nesting = Suc n" using max_nesting_Suc by blast
  let ?s = "''{'' @ json_members es @ ''}''"
  have "parse_members (Suc (length es)) n (json_members es @ ''}'') = Some (map (\<lambda>(k, v). (k, JStr v)) es, [])"
    using parse_members_back [OF False assms, of n "[]"] by simp
  from fuel_of_results(2) [OF this]
  have "parse_members (length ?s) n (json_members es @ ''}'') = Some (map (\<lambda>(k, v). (k, JStr v)) es, [])"
    by (simp add: fuel_enough_def)
  moreover have "strip_lit ''}'' (json_members es @ ''}'') = None"
  proof -
    obtain k v fs where "es = (k, v) # fs" using False by (metis list.exhaust surj_pair)
    then have "hd (json_members es @ ''}'') = dquote"
      by (cases fs) (simp_all add: json_member_front json_member_front [of _ _ "[]", simplified])
    moreover have "dquote \<noteq> CHR ''}''" by code_simp
    ultimately show ?thesis by (cases "strip_lit ''}'' (json_members es @ ''}'')") auto
  qed
  ultimately show ?thesis
    using False by (simp add: parse_json_def parse_value_object d del: strip_lit_Some)
qed

lemma last_wins_distinct: "distinct (map fst es) \<Longrightarrow> last_wins es = es"
  using insert_entries [of "[]" es] by (simp add: last_wins.simps)

definition utf8_map :: "string gomap \<Rightarrow> bool" where
  "utf8_map m = list_all (\<lambda>(k, v). valid_utf8 k \<and> valid_utf8 v) (entries m)"

lemma json_map_back:
  assumes "wf_gomap m" and "utf8_map m"
  shows "Option.bind (parse_json (json_marshal_map m)) json_inner_map = Some (map_option (sort_key fst) m)"
proof (cases m)
  case None
  have "parse_json ''null'' = Some JNull"
    by code_simp
  with None show ?thesis by (simp add: json_marshal_map_def)
next
  case (Some es)
  let ?es = "sort_key fst es"
  have es: "list_all (\<lambda>(k, v). valid_utf8 k \<and> valid_utf8 v) ?es"
    using assms(2) Some by (simp add: utf8_map_def list_all_iff)
  have "distinct (map fst ?es)"
    using assms(1) Some by (simp add: wf_gomap_def distinct_map)
  moreover have "map (\<lambda>(k, v). (k, the (string_or_null v))) (map (\<lambda>(k, v). (k, JStr v)) ?es) = ?es"
    by (simp add: map_idI split_beta comp_def)
  ultimately show ?thesis
    using parse_json_object [OF es] Some
    by (simp add: json_marshal_map_def json_members_def list_all_iff split_beta last_wins_distinct)
qed

lemma map_of_sort_key:
  "distinct (map fst es) \<Longrightarrow> map_of (sort_key fst es) = map_of es"
  by (rule map_of_perm) (simp_all add: distinct_map)

end
