(* ===== verification/RunnerData.thy ===== *)
theory RunnerData
  imports JobFlow JsonFacts
begin

text \<open>
  The data that crosses the border to the pods of runner steps, and back: the parameter files
  the controller writes, decoded as a runner decodes them, and the outputs line it reads from
  the collector's log, up to the templates of the API-native steps that use the outputs.
\<close>

section \<open>Decoded outputs\<close>

lemma last_wins_keys: "distinct (map fst (last_wins es))"
proof -
  have "distinct (map fst m) \<Longrightarrow> distinct (map fst (fold (\<lambda>(k, v) m. AList.update k v m) es m))" for m
    by (induction es arbitrary: m) (auto simp: distinct_update)
  then show ?thesis by (simp add: last_wins.simps)
qed

lemma update_values: "snd ` set (AList.update k v m) \<subseteq> insert v (snd ` set m)"
  by (induction m) auto

lemma last_wins_values: "(k, v) \<in> set (last_wins es) \<Longrightarrow> v \<in> snd ` set es"
proof -
  have "snd ` set (fold (\<lambda>(k, v) m. AList.update k v m) es m) \<subseteq> snd ` set es \<union> snd ` set m" for m
  proof (induction es arbitrary: m)
    case (Cons e es)
    obtain a b where "e = (a, b)" by (cases e)
    with Cons.IH [of "AList.update a b m"] update_values [of a b m] show ?case
      unfolding fold_simps by (simp del: update.simps) blast
  qed simp
  from this [of "[]"] show "(k, v) \<in> set (last_wins es) \<Longrightarrow> v \<in> snd ` set es"
    by (simp only: last_wins.simps) (metis image_eqI snd_conv subsetD Un_empty_right image_empty list.set(1))
qed

lemma inner_map_wf: "json_inner_map j = Some m \<Longrightarrow> wf_gomap m"
  by (cases j) (auto simp: wf_gomap_def last_wins_keys split: if_splits)

lemma nested_map_wf:
  assumes "json_nested_map j = Some outs" and "mget outs n = Some m"
  shows "wf_gomap m"
proof -
  obtain ms where ms: "j = JObj ms" "\<forall>(k, v)\<in>set ms. json_inner_map v \<noteq> None"
    "outs = Some (last_wins (map (\<lambda>(k, v). (k, the (json_inner_map v))) ms))"
    using assms by (cases j) (auto simp: list_all_iff split: if_splits)
  then have "(n, m) \<in> set (last_wins (map (\<lambda>(k, v). (k, the (json_inner_map v))) ms))"
    using assms(2) by (auto dest: map_of_SomeD)
  from last_wins_values [OF this] ms(2) obtain v where "json_inner_map v = Some m" by fastforce
  then show ?thesis by (rule inner_map_wf)
qed

lemma find_outputs_line_first:
  assumes "list_all (\<lambda>l. \<not> has_prefix l outputs_log_prefix) ls"
    and "json_unmarshal_nested text = Some outs"
  shows "find_outputs_line (ls @ (outputs_log_prefix @ text) # ls') = outs"
  using assms by (induction ls) (auto simp: has_prefix_def trim_prefix_def)

lemma outputs_line_wf:
  "mget (find_outputs_line ls) n = Some m \<Longrightarrow> wf_gomap m"
  by (induction ls) (auto simp: json_unmarshal_nested_def Option.bind_eq_Some_conv
      split: if_splits option.splits intro: nested_map_wf)

lemma put_step_status_set: "set (put_step_status ss x) \<subseteq> insert x (set ss)"
  by (induction ss x rule: put_step_status.induct) auto

lemma after_runner_all:
  assumes "\<And>x. x \<in> set ss \<Longrightarrow> P x" and "\<And>r. r \<in> set steps \<Longrightarrow> P (runner_row d outs r)"
    and "x \<in> set (after_runner d outs steps ss)"
  shows "P x"
proof -
  have "set (after_runner d outs steps ss) \<subseteq> runner_row d outs ` set steps \<union> set ss"
    unfolding after_runner_def
    by (induction steps arbitrary: ss) (simp_all, use put_step_status_set in blast)
  with assms show ?thesis by blast
qed

lemma after_runner_distinct:
  "distinct (map st_name ss) \<Longrightarrow> distinct (map st_name (after_runner d outs steps ss))"
  unfolding after_runner_def
  by (induction steps arbitrary: ss) (simp_all add: put_step_status_distinct)

section \<open>Properties\<close>

text \<open>C14: what a runner reads is what the TaskRun says: with distinct step names, decoding the file of
  a runner step as a \<open>map[string]string\<close> gives the parameters of that step, key by key, for
  parameters in UTF-8 (which is all a JSON API serves).\<close>

theorem params_file_decodes:
  assumes "distinct (map rs_name steps)" and "r \<in> set steps"
    and "wf_gomap (ss_params (rs_step r))" and "utf8_map (ss_params (rs_step r))"
  shows "\<exists>text m. params_data steps (rs_name r @ ''.json'') = Some text
     \<and> Option.bind (parse_json text) json_inner_map = Some m
     \<and> (\<forall>k. mget m k = mget (ss_params (rs_step r)) k)"
proof (intro exI conjI)
  show "params_data steps (rs_name r @ ''.json'') = Some (json_marshal_map (ss_params (rs_step r)))"
    by (rule params_data_distinct [OF assms(1,2)])
  show "Option.bind (parse_json (json_marshal_map (ss_params (rs_step r)))) json_inner_map
      = Some (map_option (sort_key fst) (ss_params (rs_step r)))"
    by (rule json_map_back [OF assms(3,4)])
  show "\<forall>k. mget (map_option (sort_key fst) (ss_params (rs_step r))) k = mget (ss_params (rs_step r)) k"
    using assms(3) by (cases "ss_params (rs_step r)") (simp_all add: wf_gomap_def map_of_sort_key)
qed

definition quoting_runner :: resolved_step where
  \<comment> \<open>a runner step with a parameter that needs escaping\<close>
  "quoting_runner = (example_runner ''a'')\<lparr>rs_step := example_step ''a'' ''run''
     [(''url'', [CHR ''<'', CHR 0x22, CHR 0x0A]), (''b'', ''c'')]\<rparr>"

theorem params_file_decodes_witness:
  "\<exists>text m. params_data [quoting_runner] ''a.json'' = Some text
     \<and> Option.bind (parse_json text) json_inner_map = Some m
     \<and> mget m ''url'' = Some [CHR ''<'', CHR 0x22, CHR 0x0A]"
proof -
  have "utf8_map (ss_params (rs_step quoting_runner))"
    by (simp add: utf8_map_def quoting_runner_def example_step_def valid_utf8_ascii)
  from params_file_decodes [of "[quoting_runner]", OF _ _ _ this] show ?thesis
    by (simp add: quoting_runner_def example_step_def wf_gomap_def) (metis option.map_disc_iff)
qed

text \<open>C13: the way of an output through the Job: the first line of the collector's log with the prefix
  is decoded, the runner steps are recorded with what it says, and a reference to an output of
  a runner step in a parameter of a later API-native step then resolves to the value in the
  log. Step names are distinct and without dots, as the names in a reference are.\<close>

theorem runner_output_reaches_template:
  assumes line: "list_all (\<lambda>l. \<not> has_prefix l outputs_log_prefix) before"
      "json_unmarshal_nested text = Some outs" "mget outs (rs_name r) = Some m" "mget m out = Some v"
    and steps: "distinct (map rs_name steps)" "r \<in> set steps" "\<forall>q\<in>set steps. CHR ''.'' \<notin> set (rs_name q)"
    and table: "distinct (map st_name (steps_of (task s)))" "dot_free (steps_of (task s))" "wf_outputs (steps_of (task s))"
    and run: "run_state (mark_runner_succeeded_loop d
        (find_outputs_line (before @ (outputs_log_prefix @ text) # after)) steps) s = (u, s')"
    and ref: "step_name_ok (rs_name r)" "output_name_ok out"
  shows "resolve_value (build_output_index (steps_of (task s'))) (reference [] (rs_name r) out []) = Inr v"
proof -
  let ?outs = "find_outputs_line (before @ (outputs_log_prefix @ text) # after)"
  let ?ss = "after_runner d ?outs steps (steps_of (task s))" and ?row = "runner_row d ?outs r"
  have "wp (mark_runner_succeeded_loop d ?outs steps) (\<lambda>_ s'. steps_of (task s') = ?ss) s"
    by (simp add: wp_mark_runner_succeeded_loop after_runner_def)
  from wpD [OF this run] have ss: "steps_of (task s') = ?ss" .
  have outs: "?outs = outs" by (rule find_outputs_line_first [OF line(1,2)])
  have row: "?row \<in> set ?ss" "st_name ?row = rs_name r"
    using step_row_name [OF after_runner_row [OF steps(1,2)]] by blast+
  have out_value: "mget (st_outputs ?row) out = Some v"
    using line(3,4) by (simp add: runner_row_def outs)
  have "dot_free ?ss"
    unfolding dot_free_def by (rule ballI, erule after_runner_all [rotated -1])
      (use table(2) steps(3) in \<open>auto simp: dot_free_def runner_row_def\<close>)
  moreover have "wf_outputs ?ss"
    unfolding wf_outputs_def by (rule ballI, erule after_runner_all [rotated -1])
      (use table(3) outputs_line_wf in \<open>auto simp: wf_outputs_def runner_row_def wf_gomap_def split: option.split\<close>)
  ultimately have "mget (build_output_index ?ss) (rs_name r @ CHR ''.'' # out) = Some v"
    using steps(2,3) last_output_distinct [OF after_runner_distinct [OF table(1)] row(1)] row(2) out_value
    by (simp add: build_output_index_lookup)
  moreover have "segments (reference [] (rs_name r) out []) = [Ref (reference [] (rs_name r) out []) (rs_name r) out]"
    using segments_reference [of "[]" "rs_name r" out "[]" "[]"] ref by simp
  ultimately show ?thesis unfolding ss resolve_value_eq by simp
qed

definition example_outputs :: string where
  "example_outputs = ''{'' @ json_string ''a'' @ '':{'' @ json_member (''body'', ''ok'') @ ''}}''"

lemma example_outputs_decoded:
  "json_unmarshal_nested example_outputs = Some (Some [(''a'', Some [(''body'', ''ok'')])])"
  by code_simp

theorem runner_output_reaches_template_witness:
  "\<exists>s'. run_state (mark_runner_succeeded_loop 0
        (find_outputs_line ([''starting''] @ (outputs_log_prefix @ example_outputs) # [])) [example_runner ''a''])
        (example_state empty_cluster (example_task_run [] [])) = ((), s')
     \<and> resolve_value (build_output_index (steps_of (task s'))) (reference [] ''a'' ''body'' []) = Inr ''ok''"
proof -
  let ?s = "example_state empty_cluster (example_task_run [] [])"
  let ?m = "mark_runner_succeeded_loop 0
        (find_outputs_line ([''starting''] @ (outputs_log_prefix @ example_outputs) # [])) [example_runner ''a'']"
  obtain s' where run: "run_state ?m ?s = ((), s')" by (cases "run_state ?m ?s") simp
  have name: "rs_name (example_runner ''a'') = ''a''" by (simp add: example_runner_def example_step_def)
  have outputs: "mget (Some [(''a'', Some [(''body'', ''ok'')])]) (rs_name (example_runner ''a'')) = Some (Some [(''body'', ''ok'')])"
    "mget (Some [(''body'', ''ok'')]) ''body'' = Some ''ok''"
    by (simp_all add: name)
  have "resolve_value (build_output_index (steps_of (task s'))) (reference [] (rs_name (example_runner ''a'')) ''body'' []) = Inr ''ok''"
    by (rule runner_output_reaches_template [OF _ example_outputs_decoded outputs _ _ _ _ _ _ run])
       (simp_all add: name has_prefix_def outputs_log_prefix_def example_state_def example_task_run_def
         dot_free_def wf_outputs_def step_name_ok_def output_name_ok_def is_name_char_def
         is_output_char_def is_lower_alnum_def)
  with run name show ?thesis by auto
qed

end
