(* ===== verification/GoHeap.thy ===== *)
theory GoHeap
  imports ApiTypes "HOL-Library.Monad_Syntax"
begin

text \<open>
  Go's memory as the generated deep copies see it. The heap is the list of the cells allocated
  so far, an address is an index into it, and \<open>new\<close> or \<open>make\<close> appends a cell; a reference (a
  pointer or a map) is an optional address, \<open>None\<close> being nil. A struct in memory is a record
  whose pointer, slice and map fields are references (\<open>_mem\<close>); \<open>'x\<close> is the memory of the
  structs of apimachinery (\<open>ObjectMeta\<close>, \<open>ListMeta\<close>, \<open>Condition\<close>, \<open>RawExtension\<close>, \<open>Time\<close>),
  whose copying is code of that package.

  A \<open>view\<close> reads the value a struct denotes together with the references it went through, in
  field order. The locale \<open>deep_copier\<close> is the contract of a deep copy against a view.
\<close>

section \<open>Structs in memory\<close>

type_synonym ref = "nat option"

record go_slice =
  sl_array :: nat
  sl_from :: nat
  sl_len :: nat

record type_meta =
  tm_kind :: string
  tm_api_version :: string

record auth_spec_mem =
  asm_type :: auth_type
  asm_token_endpoint :: string
  asm_credentials_from :: ref

record step_spec_mem =
  ssm_name :: string
  ssm_action :: string
  ssm_params :: ref
  ssm_outputs :: "go_slice option"

record task_run_spec_mem =
  trsm_schedule :: string
  trsm_concurrency_policy :: concurrency_policy
  trsm_auth :: ref
  trsm_steps :: "go_slice option"
  trsm_on_failure :: ref

record step_status_mem =
  stm_name :: string
  stm_phase :: step_phase
  stm_duration :: string
  stm_outputs :: ref
  stm_logs :: string

record task_run_status_mem =
  tsm_phase :: task_run_phase
  tsm_start_time :: ref
  tsm_completion_time :: ref
  tsm_steps :: "go_slice option"
  tsm_conditions :: "go_slice option"

record 'x task_run_mem =
  trm_type_meta :: type_meta
  trm_meta :: 'x
  trm_spec :: task_run_spec_mem
  trm_status :: task_run_status_mem

record 'x list_mem =
  lm_type_meta :: type_meta
  lm_meta :: 'x
  lm_items :: "go_slice option"

record step_definition_spec_mem =
  sdsm_schema :: ref
  sdsm_runner :: ref
  sdsm_outputs :: "go_slice option"
  sdsm_auth_aware :: bool

record conditions_mem =
  \<comment> \<open>\<open>StepDefinitionStatus\<close> and \<open>ClusterStepDefinitionStatus\<close>\<close>
  cm_conditions :: "go_slice option"

record 'x definition_mem =
  \<comment> \<open>\<open>StepDefinition\<close> and \<open>ClusterStepDefinition\<close>\<close>
  dm_type_meta :: type_meta
  dm_meta :: 'x
  dm_spec :: step_definition_spec_mem
  dm_status :: conditions_mem

datatype 'x struct =
    StringVal string
  | ExternalVal 'x
  | AuthSpecVal auth_spec_mem
  | CredentialsSourceVal credentials_source
  | SecretKeySelectorVal secret_key_selector
  | FailurePolicyVal failure_policy
  | StepSpecVal step_spec_mem
  | TaskRunSpecVal task_run_spec_mem
  | StepStatusVal step_status_mem
  | TaskRunStatusVal task_run_status_mem
  | TaskRunVal "'x task_run_mem"
  | TaskRunListVal "'x list_mem"
  | RunnerSpecVal runner_spec
  | OutputSpecVal output_spec
  | StepDefinitionSpecVal step_definition_spec_mem
  | StepDefinitionStatusVal conditions_mem
  | StepDefinitionVal "'x definition_mem"
  | StepDefinitionListVal "'x list_mem"
  | ClusterStepDefinitionStatusVal conditions_mem
  | ClusterStepDefinitionVal "'x definition_mem"
  | ClusterStepDefinitionListVal "'x list_mem"

datatype 'x cell =
    Zeroed \<comment> \<open>allocated, nothing assigned to it yet\<close>
  | Struct "'x struct"
  | Array "'x struct list"
  | MapCell "(string \<times> string) list"

type_synonym 'x heap = "'x cell list"

text \<open>How a Go type sits among the structs: its constructor and the inverse.\<close>

record ('x, 'm) go_type =
  inj :: "'m \<Rightarrow> 'x struct"
  prj :: "'x struct \<Rightarrow> 'm option"

definition wf_type :: "('x, 'm) go_type \<Rightarrow> bool" where
  "wf_type T \<longleftrightarrow> (\<forall>m. prj T (inj T m) = Some m)"

section \<open>Reading\<close>

definition load :: "('x, 'm) go_type \<Rightarrow> nat \<Rightarrow> 'x heap \<Rightarrow> 'm option" where
  "load T a h = (if a < length h then case h ! a of Struct s \<Rightarrow> prj T s | _ \<Rightarrow> None else None)"

definition load_slice :: "('x, 'm) go_type \<Rightarrow> go_slice \<Rightarrow> 'x heap \<Rightarrow> 'm list option" where
  "load_slice T s h =
     (if sl_array s < length h then
        (case h ! sl_array s of
           Array xs \<Rightarrow>
             if sl_from s + sl_len s \<le> length xs
             then those (map (prj T) (take (sl_len s) (drop (sl_from s) xs))) else None
         | _ \<Rightarrow> None)
      else None)"

definition load_map :: "nat \<Rightarrow> 'x heap \<Rightarrow> (string \<times> string) list option" where
  "load_map a h = (if a < length h then case h ! a of MapCell es \<Rightarrow> Some es | _ \<Rightarrow> None else None)"

type_synonym ('x, 'm, 'v) viewer = "'m \<Rightarrow> 'x heap \<Rightarrow> ('v \<times> ref list) option"

definition view_plain :: "('x, 'm, 'm) viewer" where
  "view_plain m h = Some (m, [])"

definition view_ptr :: "('x, 'm) go_type \<Rightarrow> ('x, 'm, 'v) viewer \<Rightarrow> ('x, ref, 'v option) viewer" where
  "view_ptr T f p h =
     (case p of
        None \<Rightarrow> Some (None, [None])
      | Some a \<Rightarrow> do { m \<leftarrow> load T a h; (v, rs) \<leftarrow> f m h; Some (Some v, p # rs) })"

fun view_list :: "('x, 'm, 'v) viewer \<Rightarrow> ('x, 'm list, 'v list) viewer" where
  "view_list f [] h = Some ([], [])"
| "view_list f (m # ms) h =
     do { (v, rs) \<leftarrow> f m h; (vs, qs) \<leftarrow> view_list f ms h; Some (v # vs, rs @ qs) }"

definition view_slice ::
  "('x, 'm) go_type \<Rightarrow> ('x, 'm, 'v) viewer \<Rightarrow> ('x, go_slice option, 'v list) viewer" where
  "view_slice T f p h =
     (case p of
        None \<Rightarrow> Some ([], [None])
      | Some s \<Rightarrow>
          do { ms \<leftarrow> load_slice T s h; (vs, rs) \<leftarrow> view_list f ms h; Some (vs, Some (sl_array s) # rs) })"

definition view_map :: "('x, ref, string gomap) viewer" where
  \<comment> \<open>a map never holds a key twice\<close>
  "view_map p h =
     (case p of
        None \<Rightarrow> Some (None, [None])
      | Some a \<Rightarrow>
          do { es \<leftarrow> load_map a h;
               if distinct (map fst es) then Some (Some es, [p]) else None })"

definition view_pair ::
  "('x, 'm, 'v) viewer \<Rightarrow> ('x, 'n, 'u) viewer \<Rightarrow> ('x, 'm \<times> 'n, 'v \<times> 'u) viewer" where
  "view_pair f g p h =
     do { (v, rs) \<leftarrow> f (fst p) h; (u, qs) \<leftarrow> g (snd p) h; Some ((v, u), rs @ qs) }"

lemma view_pair_Some [simp]:
  "view_pair f g p h = Some (x, as) \<longleftrightarrow>
     (\<exists>v rs u qs. f (fst p) h = Some (v, rs) \<and> g (snd p) h = Some (u, qs) \<and> x = (v, u) \<and> as = rs @ qs)"
  by (auto simp: view_pair_def bind_eq_Some_conv)

lemma view_list_Cons_Some:
  "view_list f (m # ms) h = Some (x, as) \<longleftrightarrow>
     (\<exists>v rs vs qs. f m h = Some (v, rs) \<and> view_list f ms h = Some (vs, qs) \<and> x = v # vs \<and> as = rs @ qs)"
  by (auto simp: bind_eq_Some_conv)

declare view_list.simps(2) [simp del]
declare view_list_Cons_Some [simp]

section \<open>Copying\<close>

type_synonym ('x, 'm) copier = "'m \<Rightarrow> 'x heap \<Rightarrow> ('m \<times> 'x heap) option"

definition copy_plain :: "('x, 'm) copier" where
  \<comment> \<open>\<open>*out = *in\<close>\<close>
  "copy_plain m h = Some (m, h)"

definition copy_new :: "('x, 'm) go_type \<Rightarrow> ('x, 'm) copier \<Rightarrow> ('x, ref) copier" where
  \<comment> \<open>\<open>if in != nil\<close>, \<open>*out = new(T)\<close> and the copy into it\<close>
  "copy_new T f p h =
     (case p of
        None \<Rightarrow> Some (None, h)
      | Some a \<Rightarrow>
          do { m \<leftarrow> load T a h;
               (m', h') \<leftarrow> f m (h @ [Zeroed]);
               Some (Some (length h), h'[length h := Struct (inj T m')]) })"

fun copy_loop :: "('x, 'm) copier \<Rightarrow> ('x, 'm list) copier" where
  \<comment> \<open>\<open>for i := range *in\<close>\<close>
  "copy_loop f [] h = Some ([], h)"
| "copy_loop f (m # ms) h =
     do { (m', h1) \<leftarrow> f m h; (ms', h2) \<leftarrow> copy_loop f ms h1; Some (m' # ms', h2) }"

definition copy_make :: "('x, 'm) go_type \<Rightarrow> ('x, 'm) copier \<Rightarrow> ('x, go_slice option) copier" where
  \<comment> \<open>\<open>if in != nil\<close>, \<open>*out = make([]T, len(*in))\<close> and the loop over its elements\<close>
  "copy_make T f p h =
     (case p of
        None \<Rightarrow> Some (None, h)
      | Some s \<Rightarrow>
          do { ms \<leftarrow> load_slice T s h;
               (ms', h') \<leftarrow> copy_loop f ms (h @ [Zeroed]);
               Some (Some \<lparr>sl_array = length h, sl_from = 0, sl_len = length ms\<rparr>,
                     h'[length h := Array (map (inj T) ms')]) })"

definition copy_map :: "('x, ref) copier" where
  \<comment> \<open>\<open>if in != nil\<close>, \<open>*out = make(map[string]string)\<close> and one assignment per entry\<close>
  "copy_map p h =
     (case p of
        None \<Rightarrow> Some (None, h)
      | Some a \<Rightarrow>
          do { es \<leftarrow> load_map a h;
               Some (Some (length h), h @ [MapCell (fold (\<lambda>(k, v) m. AList.update k v m) es [])]) })"

definition copy_pair :: "('x, 'm) copier \<Rightarrow> ('x, 'n) copier \<Rightarrow> ('x, 'm \<times> 'n) copier" where
  "copy_pair f g p h =
     do { (m, h1) \<leftarrow> f (fst p) h; (n, h2) \<leftarrow> g (snd p) h1; Some ((m, n), h2) }"

section \<open>The contract of a deep copy\<close>

definition addrs :: "ref list \<Rightarrow> nat list" where
  "addrs rs = List.map_filter id rs"

definition unchanged :: "ref list \<Rightarrow> 'x heap \<Rightarrow> 'x heap \<Rightarrow> bool" where
  \<comment> \<open>the cells behind the references are allocated and the same in both heaps\<close>
  "unchanged rs h h' \<longleftrightarrow> list_all (\<lambda>a. a < length h \<and> a < length h' \<and> h' ! a = h ! a) (addrs rs)"

definition fresh_copy :: "nat \<Rightarrow> nat \<Rightarrow> ref list \<Rightarrow> ref list \<Rightarrow> bool" where
  \<comment> \<open>the second list is nil where the first one is, and its addresses are distinct ones
     allocated between the two limits\<close>
  "fresh_copy n k as bs \<longleftrightarrow>
     map Option.is_none as = map Option.is_none bs
     \<and> list_all (\<lambda>b. n \<le> b \<and> b < k) (addrs bs) \<and> distinct (addrs bs)"

lemma addrs_simps [simp]:
  "addrs [] = []"
  "addrs (None # rs) = addrs rs"
  "addrs (Some a # rs) = a # addrs rs"
  "addrs (rs @ qs) = addrs rs @ addrs qs"
  by (simp_all add: addrs_def List.map_filter_def)

lemma unchanged_simps [simp]:
  "unchanged [] h h'"
  "unchanged (None # rs) h h' = unchanged rs h h'"
  "unchanged (Some a # rs) h h' \<longleftrightarrow> a < length h \<and> a < length h' \<and> h' ! a = h ! a \<and> unchanged rs h h'"
  "unchanged (rs @ qs) h h' \<longleftrightarrow> unchanged rs h h' \<and> unchanged qs h h'"
  by (auto simp: unchanged_def)

lemma unchanged_append: "list_all (\<lambda>a. a < length h) (addrs rs) \<Longrightarrow> unchanged rs h (h @ ext)"
  by (auto simp: unchanged_def list_all_iff nth_append)

lemma unchanged_update:
  "list_all (\<lambda>a. a < length h) (addrs rs) \<Longrightarrow> b \<notin> set (addrs rs) \<Longrightarrow> unchanged rs h (h[b := c])"
  by (simp add: unchanged_def list_all_iff) (metis nth_list_update_neq)

lemma fresh_copy_simps [simp]:
  "fresh_copy n k [] []"
  "fresh_copy n k (None # as) (b # bs) \<longleftrightarrow> b = None \<and> fresh_copy n k as bs"
  by (cases b; auto simp: fresh_copy_def)+

lemma fresh_copy_append:
  assumes "fresh_copy n k as bs" and "fresh_copy k l cs ds" and "n \<le> k" and "k \<le> l"
  shows "fresh_copy n l (as @ cs) (bs @ ds)"
  using assms by (fastforce simp: fresh_copy_def list_all_iff)

lemma fresh_copy_Cons:
  assumes "fresh_copy (Suc n) k as bs" and "n < k"
  shows "fresh_copy n k (Some a # as) (Some n # bs)"
  using assms by (auto simp: fresh_copy_def list_all_iff)

definition store_all :: "(nat \<times> 'x cell) list \<Rightarrow> 'x heap \<Rightarrow> 'x heap" where
  "store_all ws h = fold (\<lambda>(a, c) h. h[a := c]) ws h"

locale deep_copier =
  fixes copy :: "('x, 'm) copier"
    and view :: "('x, 'm, 'v) viewer"
  assumes copies: "view m h = Some (v, as) \<Longrightarrow>
      \<exists>m' ext bs. copy m h = Some (m', h @ ext) \<and> view m' (h @ ext) = Some (v, bs)
        \<and> fresh_copy (length h) (length (h @ ext)) as bs"
    and allocated: "view m h = Some (v, as) \<Longrightarrow> list_all (\<lambda>a. a < length h) (addrs as)"
    and frame: "view m h = Some (v, as) \<Longrightarrow> unchanged as h h' \<Longrightarrow> view m h' = Some (v, as)"
begin

lemma view_append: "view m h = Some (v, as) \<Longrightarrow> view m (h @ ext) = Some (v, as)"
  by (blast intro: frame unchanged_append allocated)

lemma view_update:
  "view m h = Some (v, as) \<Longrightarrow> b \<notin> set (addrs as) \<Longrightarrow> view m (h[b := c]) = Some (v, as)"
  by (blast intro: frame unchanged_update allocated)

lemma view_store_all:
  "view m h = Some (v, as) \<Longrightarrow> list_all (\<lambda>w. fst w \<notin> set (addrs as)) ws \<Longrightarrow>
     view m (store_all ws h) = Some (v, as)"
proof (induction ws arbitrary: h)
  case (Cons w ws)
  then show ?case using view_update by (cases w) (simp add: store_all_def)
qed (simp add: store_all_def)

text \<open>Writes through one of the two never show in the other.\<close>

lemma independent:
  assumes "view m h = Some (v, as)" and "copy m h = Some (m', h')"
  obtains bs where "view m' h' = Some (v, bs)"
    and "\<And>ws. list_all (\<lambda>w. fst w \<in> set (addrs bs)) ws \<Longrightarrow> view m (store_all ws h') = Some (v, as)"
    and "\<And>ws. list_all (\<lambda>w. fst w \<in> set (addrs as)) ws \<Longrightarrow> view m' (store_all ws h') = Some (v, bs)"
proof -
  obtain ext bs where c: "h' = h @ ext" "view m' h' = Some (v, bs)"
      "fresh_copy (length h) (length h') as bs"
    using copies [OF assms(1)] assms(2) by auto
  have disjoint: "set (addrs as) \<inter> set (addrs bs) = {}"
    using allocated [OF assms(1)] c(3) by (fastforce simp: fresh_copy_def list_all_iff)
  have old: "view m h' = Some (v, as)"
    using view_append [OF assms(1)] c(1) by simp
  show thesis
  proof (rule that [OF c(2)])
    fix ws
    show "view m (store_all ws h') = Some (v, as)" if "list_all (\<lambda>w. fst w \<in> set (addrs bs)) ws"
      using that disjoint by (intro view_store_all old) (auto simp: list_all_iff)
    show "view m' (store_all ws h') = Some (v, bs)" if "list_all (\<lambda>w. fst w \<in> set (addrs as)) ws"
      using that disjoint by (intro view_store_all c(2)) (auto simp: list_all_iff)
  qed
qed

end

section \<open>Copiers from copiers\<close>

lemma plain_copier: "deep_copier copy_plain view_plain"
  by unfold_locales (auto simp: copy_plain_def view_plain_def)

lemma pair_copier:
  assumes "deep_copier c v" and "deep_copier d w"
  shows "deep_copier (copy_pair c d) (view_pair v w)"
proof
  fix p h x as
  assume "view_pair v w p h = Some (x, as)"
  then obtain x1 x2 as1 as2 where v: "v (fst p) h = Some (x1, as1)" "w (snd p) h = Some (x2, as2)"
      and x: "x = (x1, x2)" "as = as1 @ as2"
    by auto
  obtain m ext bs where c: "c (fst p) h = Some (m, h @ ext)" "v m (h @ ext) = Some (x1, bs)"
      "fresh_copy (length h) (length (h @ ext)) as1 bs"
    using deep_copier.copies [OF assms(1) v(1)] by blast
  obtain n ext' ds where d: "d (snd p) (h @ ext) = Some (n, (h @ ext) @ ext')"
      "w n ((h @ ext) @ ext') = Some (x2, ds)"
      "fresh_copy (length (h @ ext)) (length ((h @ ext) @ ext')) as2 ds"
    using deep_copier.copies [OF assms(2) deep_copier.view_append [OF assms(2) v(2)]] by blast
  have "copy_pair c d p h = Some ((m, n), h @ ext @ ext')"
    using c(1) d(1) by (simp add: copy_pair_def)
  moreover have "view_pair v w (m, n) (h @ ext @ ext') = Some (x, bs @ ds)"
    using deep_copier.view_append [OF assms(1) c(2), of ext'] d(2) x by simp
  moreover have "fresh_copy (length h) (length (h @ ext @ ext')) as (bs @ ds)"
    using fresh_copy_append [OF c(3) d(3)] x by simp
  ultimately show "\<exists>m' ext bs. copy_pair c d p h = Some (m', h @ ext) \<and> view_pair v w m' (h @ ext) = Some (x, bs)
        \<and> fresh_copy (length h) (length (h @ ext)) as bs"
    by blast
next
  fix p h x as
  assume "view_pair v w p h = Some (x, as)"
  then show "list_all (\<lambda>a. a < length h) (addrs as)"
    using deep_copier.allocated [OF assms(1)] deep_copier.allocated [OF assms(2)] by auto
next
  fix p h x as h'
  assume p: "view_pair v w p h = Some (x, as)" and u: "unchanged as h h'"
  then obtain x1 x2 as1 as2 where v: "v (fst p) h = Some (x1, as1)" "w (snd p) h = Some (x2, as2)"
      and x: "x = (x1, x2)" "as = as1 @ as2"
    by auto
  with u have "unchanged as1 h h'" "unchanged as2 h h'"
    by simp_all
  with v x show "view_pair v w p h' = Some (x, as)"
    using deep_copier.frame [OF assms(1) v(1)] deep_copier.frame [OF assms(2) v(2)] by simp
qed

lemma view_list_frame:
  assumes "deep_copier c v"
  shows "view_list v ms h = Some (x, as) \<Longrightarrow> unchanged as h h' \<Longrightarrow> view_list v ms h' = Some (x, as)"
proof (induction ms arbitrary: x as)
  case (Cons m ms)
  then show ?case by (auto dest: deep_copier.frame [OF assms])
qed simp

lemma view_list_allocated:
  assumes "deep_copier c v"
  shows "view_list v ms h = Some (x, as) \<Longrightarrow> list_all (\<lambda>a. a < length h) (addrs as)"
proof (induction ms arbitrary: x as)
  case (Cons m ms)
  then show ?case by (auto dest: deep_copier.allocated [OF assms])
qed simp

lemma list_copies:
  assumes "deep_copier c v"
  shows "view_list v ms h = Some (x, as) \<Longrightarrow>
      \<exists>m' ext bs. copy_loop c ms h = Some (m', h @ ext) \<and> view_list v m' (h @ ext) = Some (x, bs)
        \<and> fresh_copy (length h) (length (h @ ext)) as bs"
proof (induction ms arbitrary: h x as)
  case Nil
  then show ?case by auto
next
  case (Cons m ms)
  then obtain x1 xs as1 as2 where v: "v m h = Some (x1, as1)" "view_list v ms h = Some (xs, as2)"
      and x: "x = x1 # xs" "as = as1 @ as2"
    by auto
  obtain m' ext bs where c: "c m h = Some (m', h @ ext)" "v m' (h @ ext) = Some (x1, bs)"
      "fresh_copy (length h) (length (h @ ext)) as1 bs"
    using deep_copier.copies [OF assms v(1)] by blast
  have "view_list v ms (h @ ext) = Some (xs, as2)"
    using v(2) by (blast intro: view_list_frame [OF assms] unchanged_append view_list_allocated [OF assms])
  from Cons.IH [OF this] obtain ms' ext' ds where d:
      "copy_loop c ms (h @ ext) = Some (ms', h @ ext @ ext')"
      "view_list v ms' (h @ ext @ ext') = Some (xs, ds)"
      "fresh_copy (length (h @ ext)) (length (h @ ext @ ext')) as2 ds"
    by auto
  have "copy_loop c (m # ms) h = Some (m' # ms', h @ ext @ ext')"
    using c(1) d(1) by simp
  moreover have "view_list v (m' # ms') (h @ ext @ ext') = Some (x, bs @ ds)"
    using deep_copier.view_append [OF assms c(2), of ext'] d(2) x by simp
  moreover have "fresh_copy (length h) (length (h @ ext @ ext')) as (bs @ ds)"
    using fresh_copy_append [OF c(3) d(3)] x by simp
  ultimately show ?case by blast
qed

lemma list_copier: "deep_copier c v \<Longrightarrow> deep_copier (copy_loop c) (view_list v)"
  by (rule deep_copier.intro) (blast intro: list_copies view_list_allocated view_list_frame)+

text \<open>A struct is copied by copying its reference fields; the others come with
  \<open>*out = *in\<close>.\<close>

definition copy_struct :: "('m \<Rightarrow> 'k) \<Rightarrow> ('m \<Rightarrow> 'k \<Rightarrow> 'm) \<Rightarrow> ('x, 'k) copier \<Rightarrow> ('x, 'm) copier" where
  "copy_struct get put c m h = map_option (apfst (put m)) (c (get m) h)"

definition view_struct :: "('m \<Rightarrow> 'k) \<Rightarrow> ('m \<Rightarrow> 'u \<Rightarrow> 'v) \<Rightarrow> ('x, 'k, 'u) viewer \<Rightarrow> ('x, 'm, 'v) viewer" where
  "view_struct get mk v m h = map_option (apfst (mk m)) (v (get m) h)"

lemma struct_copier:
  assumes "deep_copier c v" and "\<And>m k. get (put m k) = k" and "\<And>m k. mk (put m k) = mk m"
  shows "deep_copier (copy_struct get put c) (view_struct get mk v)"
proof
  fix m h x as
  assume "view_struct get mk v m h = Some (x, as)"
  then obtain u where v: "v (get m) h = Some (u, as)" and x: "x = mk m u"
    by (auto simp: view_struct_def)
  show "list_all (\<lambda>a. a < length h) (addrs as)"
    by (rule deep_copier.allocated [OF assms(1) v])
  show "unchanged as h h' \<Longrightarrow> view_struct get mk v m h' = Some (x, as)" for h'
    using deep_copier.frame [OF assms(1) v] x by (simp add: view_struct_def)
  show "\<exists>m' ext bs. copy_struct get put c m h = Some (m', h @ ext)
      \<and> view_struct get mk v m' (h @ ext) = Some (x, bs) \<and> fresh_copy (length h) (length (h @ ext)) as bs"
    using deep_copier.copies [OF assms(1) v] assms(2,3) x
    by (auto simp: copy_struct_def view_struct_def)
qed

lemma update_after: "(h @ c # ext)[length h := d] = h @ d # ext"
  by simp

lemma load_unchanged: "a < length h \<Longrightarrow> a < length h' \<Longrightarrow> h' ! a = h ! a \<Longrightarrow> load T a h' = load T a h"
  by (simp add: load_def)

lemma load_allocated: "load T a h = Some m \<Longrightarrow> a < length h"
  by (simp add: load_def split: if_splits)

lemma view_ptr_Some:
  "view_ptr T v p h = Some (x, as) \<longleftrightarrow>
     (case p of None \<Rightarrow> x = None \<and> as = [None]
      | Some a \<Rightarrow> \<exists>m u rs. load T a h = Some m \<and> v m h = Some (u, rs) \<and> x = Some u \<and> as = Some a # rs)"
  by (auto simp: view_ptr_def bind_eq_Some_conv split: option.split)

lemma new_copier:
  assumes "deep_copier c v" and "wf_type T"
  shows "deep_copier (copy_new T c) (view_ptr T v)"
proof
  fix p h x as
  assume view: "view_ptr T v p h = Some (x, as)"
  show "list_all (\<lambda>a. a < length h) (addrs as)"
    using view by (cases p) (auto simp: view_ptr_Some intro: load_allocated deep_copier.allocated [OF assms(1)])
  show "view_ptr T v p h' = Some (x, as)" if "unchanged as h h'" for h'
    using view that
    by (cases p) (auto simp: view_ptr_Some load_unchanged [of _ h h'] dest: deep_copier.frame [OF assms(1), where h = h and h' = h'])
  show "\<exists>m' ext bs. copy_new T c p h = Some (m', h @ ext) \<and> view_ptr T v m' (h @ ext) = Some (x, bs)
      \<and> fresh_copy (length h) (length (h @ ext)) as bs"
  proof (cases p)
    case None
    with view show ?thesis by (auto simp: view_ptr_Some copy_new_def)
  next
    case (Some a)
    with view obtain m u rs where m: "load T a h = Some m" "v m h = Some (u, rs)"
        and x: "x = Some u" "as = Some a # rs"
      by (auto simp: view_ptr_Some)
    obtain m' ext bs where c: "c m (h @ [Zeroed]) = Some (m', (h @ [Zeroed]) @ ext)"
        "v m' ((h @ [Zeroed]) @ ext) = Some (u, bs)"
        "fresh_copy (length (h @ [Zeroed])) (length ((h @ [Zeroed]) @ ext)) rs bs"
      using deep_copier.copies [OF assms(1) deep_copier.view_append [OF assms(1) m(2)]] by blast
    let ?h = "h @ Struct (inj T m') # ext"
    have "copy_new T c p h = Some (Some (length h), ?h)"
      using Some m(1) c(1) by (simp add: copy_new_def)
    moreover have "v m' ?h = Some (u, bs)"
    proof -
      have "length h \<notin> set (addrs bs)"
        using c(3) by (auto simp: fresh_copy_def list_all_iff)
      from deep_copier.view_update [OF assms(1) c(2) this] show ?thesis by simp
    qed
    then have "view_ptr T v (Some (length h)) ?h = Some (x, Some (length h) # bs)"
      using x assms(2) by (simp add: view_ptr_Some load_def wf_type_def)
    moreover have "fresh_copy (length h) (length ?h) as (Some (length h) # bs)"
      using c(3) x by (auto intro!: fresh_copy_Cons)
    ultimately show ?thesis by blast
  qed
qed

lemma those_map_inj: "wf_type T \<Longrightarrow> those (map (prj T) (map (inj T) ms)) = Some ms"
  by (induction ms) (simp_all add: wf_type_def)

lemma copy_loop_length: "copy_loop c ms h = Some (ms', h') \<Longrightarrow> length ms' = length ms"
  by (induction ms arbitrary: h ms' h') (auto simp: bind_eq_Some_conv)

lemma load_slice_allocated: "load_slice T s h = Some ms \<Longrightarrow> sl_array s < length h"
  by (simp add: load_slice_def split: if_splits)

lemma load_slice_unchanged:
  "sl_array s < length h \<Longrightarrow> sl_array s < length h' \<Longrightarrow> h' ! sl_array s = h ! sl_array s \<Longrightarrow>
     load_slice T s h' = load_slice T s h"
  by (simp add: load_slice_def)

lemma view_slice_Some:
  "view_slice T v p h = Some (x, as) \<longleftrightarrow>
     (case p of None \<Rightarrow> x = [] \<and> as = [None]
      | Some s \<Rightarrow> \<exists>ms rs. load_slice T s h = Some ms \<and> view_list v ms h = Some (x, rs) \<and> as = Some (sl_array s) # rs)"
  by (auto simp: view_slice_def bind_eq_Some_conv split: option.split)

lemma make_copier:
  assumes "deep_copier c v" and "wf_type T"
  shows "deep_copier (copy_make T c) (view_slice T v)"
proof
  note lc = list_copier [OF assms(1)]
  fix p h x as
  assume view: "view_slice T v p h = Some (x, as)"
  show "list_all (\<lambda>a. a < length h) (addrs as)"
    using view by (cases p) (auto simp: view_slice_Some intro: load_slice_allocated deep_copier.allocated [OF lc])
  show "view_slice T v p h' = Some (x, as)" if "unchanged as h h'" for h'
    using view that
    by (cases p) (auto simp: view_slice_Some load_slice_unchanged [of _ h h'] dest: deep_copier.frame [OF lc, where h = h and h' = h'])
  show "\<exists>m' ext bs. copy_make T c p h = Some (m', h @ ext) \<and> view_slice T v m' (h @ ext) = Some (x, bs)
      \<and> fresh_copy (length h) (length (h @ ext)) as bs"
  proof (cases p)
    case None
    with view show ?thesis by (auto simp: view_slice_Some copy_make_def)
  next
    case (Some s)
    with view obtain ms rs where m: "load_slice T s h = Some ms" "view_list v ms h = Some (x, rs)"
        and as: "as = Some (sl_array s) # rs"
      by (auto simp: view_slice_Some)
    obtain ms' ext bs where c: "copy_loop c ms (h @ [Zeroed]) = Some (ms', (h @ [Zeroed]) @ ext)"
        "view_list v ms' ((h @ [Zeroed]) @ ext) = Some (x, bs)"
        "fresh_copy (length (h @ [Zeroed])) (length ((h @ [Zeroed]) @ ext)) rs bs"
      using deep_copier.copies [OF lc deep_copier.view_append [OF lc m(2)]] by blast
    let ?h = "h @ Array (map (inj T) ms') # ext"
    let ?s = "\<lparr>sl_array = length h, sl_from = 0, sl_len = length ms\<rparr>"
    have "copy_make T c p h = Some (Some ?s, ?h)"
      using Some m(1) c(1) by (simp add: copy_make_def)
    moreover have "view_list v ms' ?h = Some (x, bs)"
    proof -
      have "length h \<notin> set (addrs bs)"
        using c(3) by (auto simp: fresh_copy_def list_all_iff)
      from deep_copier.view_update [OF lc c(2) this] show ?thesis by simp
    qed
    then have "view_slice T v (Some ?s) ?h = Some (x, Some (length h) # bs)"
      using assms(2) copy_loop_length [OF c(1)]
      by (simp add: view_slice_Some load_slice_def those_map_inj del: map_map)
    moreover have "fresh_copy (length h) (length ?h) as (Some (length h) # bs)"
      using c(3) as by (auto intro!: fresh_copy_Cons)
    ultimately show ?thesis by blast
  qed
qed

lemma map_copier: "deep_copier copy_map view_map"
proof
  fix p and h :: "'a heap" and x as
  assume view: "view_map p h = Some (x, as)"
  show "list_all (\<lambda>a. a < length h) (addrs as)"
    using view by (cases p) (auto simp: view_map_def load_map_def bind_eq_Some_conv split: if_splits)
  show "view_map p h' = Some (x, as)" if "unchanged as h h'" for h'
    using view that by (cases p) (auto simp: view_map_def load_map_def bind_eq_Some_conv split: if_splits)
  show "\<exists>m' ext bs. copy_map p h = Some (m', h @ ext) \<and> view_map m' (h @ ext) = Some (x, bs)
      \<and> fresh_copy (length h) (length (h @ ext)) as bs"
  proof (cases p)
    case None
    with view show ?thesis by (auto simp: view_map_def copy_map_def)
  next
    case (Some a)
    with view obtain es where es: "load_map a h = Some es" "distinct (map fst es)"
        and x: "x = Some es" "as = [Some a]"
      by (auto simp: view_map_def bind_eq_Some_conv split: if_splits)
    have "copy_map p h = Some (Some (length h), h @ [MapCell es])"
      using Some es insert_entries [of "[]" es] by (simp add: copy_map_def)
    moreover have "view_map (Some (length h)) (h @ [MapCell es]) = Some (x, [Some (length h)])"
      using x es by (simp add: view_map_def load_map_def)
    moreover have "fresh_copy (length h) (length (h @ [MapCell es])) as [Some (length h)]"
      using x by (simp add: fresh_copy_Cons)
    ultimately show ?thesis by blast
  qed
qed

end
