(* ===== verification/DeepCopy.thy ===== *)
theory DeepCopy
  imports GoHeap
begin

text \<open>
  \<open>api/v1alpha1/zz_generated.deepcopy.go\<close>: \<open>DeepCopyInto\<close>, \<open>DeepCopy\<close> and \<open>DeepCopyObject\<close>
  of every API type on the heap of \<open>GoHeap\<close>. \<open>T_copy_into\<close> gives the struct the method
  writes to \<open>*out\<close>; a method starts with \<open>*out = *in\<close>, so a field it does not copy is the
  field of its input. The copies of apimachinery's structs are a parameter (\<open>apimachinery\<close>),
  and that they are deep copies is the hypothesis \<open>copies_deeply\<close>. \<open>T_view\<close> reads the value
  of the records of \<open>ApiTypes\<close>, and every method fulfils the contract \<open>deep_copier\<close> for it.
\<close>

section \<open>The Go types\<close>

definition string_type :: "('x, string) go_type" where
  "string_type = \<lparr>inj = StringVal, prj = (\<lambda>s. case s of StringVal m \<Rightarrow> Some m | _ \<Rightarrow> None)\<rparr>"

definition external_type :: "('x, 'x) go_type" where
  "external_type = \<lparr>inj = ExternalVal, prj = (\<lambda>s. case s of ExternalVal m \<Rightarrow> Some m | _ \<Rightarrow> None)\<rparr>"

definition auth_spec_type :: "('x, auth_spec_mem) go_type" where
  "auth_spec_type = \<lparr>inj = AuthSpecVal, prj = (\<lambda>s. case s of AuthSpecVal m \<Rightarrow> Some m | _ \<Rightarrow> None)\<rparr>"

definition credentials_source_type :: "('x, credentials_source) go_type" where
  "credentials_source_type = \<lparr>inj = CredentialsSourceVal, prj = (\<lambda>s. case s of CredentialsSourceVal m \<Rightarrow> Some m | _ \<Rightarrow> None)\<rparr>"

definition secret_key_selector_type :: "('x, secret_key_selector) go_type" where
  "secret_key_selector_type = \<lparr>inj = SecretKeySelectorVal, prj = (\<lambda>s. case s of SecretKeySelectorVal m \<Rightarrow> Some m | _ \<Rightarrow> None)\<rparr>"

definition failure_policy_type :: "('x, failure_policy) go_type" where
  "failure_policy_type = \<lparr>inj = FailurePolicyVal, prj = (\<lambda>s. case s of FailurePolicyVal m \<Rightarrow> Some m | _ \<Rightarrow> None)\<rparr>"

definition step_spec_type :: "('x, step_spec_mem) go_type" where
  "step_spec_type = \<lparr>inj = StepSpecVal, prj = (\<lambda>s. case s of StepSpecVal m \<Rightarrow> Some m | _ \<Rightarrow> None)\<rparr>"

definition task_run_spec_type :: "('x, task_run_spec_mem) go_type" where
  "task_run_spec_type = \<lparr>inj = TaskRunSpecVal, prj = (\<lambda>s. case s of TaskRunSpecVal m \<Rightarrow> Some m | _ \<Rightarrow> None)\<rparr>"

definition step_status_type :: "('x, step_status_mem) go_type" where
  "step_status_type = \<lparr>inj = StepStatusVal, prj = (\<lambda>s. case s of StepStatusVal m \<Rightarrow> Some m | _ \<Rightarrow> None)\<rparr>"

definition task_run_status_type :: "('x, task_run_status_mem) go_type" where
  "task_run_status_type = \<lparr>inj = TaskRunStatusVal, prj = (\<lambda>s. case s of TaskRunStatusVal m \<Rightarrow> Some m | _ \<Rightarrow> None)\<rparr>"

definition task_run_type :: "('x, 'x task_run_mem) go_type" where
  "task_run_type = \<lparr>inj = TaskRunVal, prj = (\<lambda>s. case s of TaskRunVal m \<Rightarrow> Some m | _ \<Rightarrow> None)\<rparr>"

definition task_run_list_type :: "('x, 'x list_mem) go_type" where
  "task_run_list_type = \<lparr>inj = TaskRunListVal, prj = (\<lambda>s. case s of TaskRunListVal m \<Rightarrow> Some m | _ \<Rightarrow> None)\<rparr>"

definition runner_spec_type :: "('x, runner_spec) go_type" where
  "runner_spec_type = \<lparr>inj = RunnerSpecVal, prj = (\<lambda>s. case s of RunnerSpecVal m \<Rightarrow> Some m | _ \<Rightarrow> None)\<rparr>"

definition output_spec_type :: "('x, output_spec) go_type" where
  "output_spec_type = \<lparr>inj = OutputSpecVal, prj = (\<lambda>s. case s of OutputSpecVal m \<Rightarrow> Some m | _ \<Rightarrow> None)\<rparr>"

definition step_definition_spec_type :: "('x, step_definition_spec_mem) go_type" where
  "step_definition_spec_type = \<lparr>inj = StepDefinitionSpecVal, prj = (\<lambda>s. case s of StepDefinitionSpecVal m \<Rightarrow> Some m | _ \<Rightarrow> None)\<rparr>"

definition step_definition_status_type :: "('x, conditions_mem) go_type" where
  "step_definition_status_type = \<lparr>inj = StepDefinitionStatusVal, prj = (\<lambda>s. case s of StepDefinitionStatusVal m \<Rightarrow> Some m | _ \<Rightarrow> None)\<rparr>"

definition step_definition_type :: "('x, 'x definition_mem) go_type" where
  "step_definition_type = \<lparr>inj = StepDefinitionVal, prj = (\<lambda>s. case s of StepDefinitionVal m \<Rightarrow> Some m | _ \<Rightarrow> None)\<rparr>"

definition step_definition_list_type :: "('x, 'x list_mem) go_type" where
  "step_definition_list_type = \<lparr>inj = StepDefinitionListVal, prj = (\<lambda>s. case s of StepDefinitionListVal m \<Rightarrow> Some m | _ \<Rightarrow> None)\<rparr>"

definition cluster_step_definition_status_type :: "('x, conditions_mem) go_type" where
  "cluster_step_definition_status_type = \<lparr>inj = ClusterStepDefinitionStatusVal, prj = (\<lambda>s. case s of ClusterStepDefinitionStatusVal m \<Rightarrow> Some m | _ \<Rightarrow> None)\<rparr>"

definition cluster_step_definition_type :: "('x, 'x definition_mem) go_type" where
  "cluster_step_definition_type = \<lparr>inj = ClusterStepDefinitionVal, prj = (\<lambda>s. case s of ClusterStepDefinitionVal m \<Rightarrow> Some m | _ \<Rightarrow> None)\<rparr>"

definition cluster_step_definition_list_type :: "('x, 'x list_mem) go_type" where
  "cluster_step_definition_list_type = \<lparr>inj = ClusterStepDefinitionListVal, prj = (\<lambda>s. case s of ClusterStepDefinitionListVal m \<Rightarrow> Some m | _ \<Rightarrow> None)\<rparr>"

lemma wf_types [simp]:
  "wf_type string_type"
  "wf_type external_type"
  "wf_type auth_spec_type"
  "wf_type credentials_source_type"
  "wf_type secret_key_selector_type"
  "wf_type failure_policy_type"
  "wf_type step_spec_type"
  "wf_type task_run_spec_type"
  "wf_type step_status_type"
  "wf_type task_run_status_type"
  "wf_type task_run_type"
  "wf_type task_run_list_type"
  "wf_type runner_spec_type"
  "wf_type output_spec_type"
  "wf_type step_definition_spec_type"
  "wf_type step_definition_status_type"
  "wf_type step_definition_type"
  "wf_type step_definition_list_type"
  "wf_type cluster_step_definition_status_type"
  "wf_type cluster_step_definition_type"
  "wf_type cluster_step_definition_list_type"
  by (simp_all add: wf_type_def string_type_def external_type_def auth_spec_type_def credentials_source_type_def secret_key_selector_type_def failure_policy_type_def step_spec_type_def task_run_spec_type_def step_status_type_def task_run_status_type_def task_run_type_def task_run_list_type_def runner_spec_type_def output_spec_type_def step_definition_spec_type_def step_definition_status_type_def step_definition_type_def step_definition_list_type_def cluster_step_definition_status_type_def cluster_step_definition_type_def cluster_step_definition_list_type_def)

section \<open>The structs of apimachinery\<close>

record 'x apimachinery =
  copy_object_meta :: "('x, 'x) copier"
  view_object_meta :: "('x, 'x, object_meta) viewer"
  copy_list_meta :: "('x, 'x) copier"
  view_list_meta :: "('x, 'x, (string \<times> string) list) viewer"
  copy_condition :: "('x, 'x) copier"
  view_condition :: "('x, 'x, status_condition) viewer"
  copy_raw_extension :: "('x, 'x) copier"
  view_raw_extension :: "('x, 'x, raw_extension) viewer"
  copy_time :: "('x, ref) copier"
  view_time :: "('x, 'x, time) viewer"

abbreviation view_time_ptr :: "'x apimachinery \<Rightarrow> ('x, ref, time option) viewer" where
  "view_time_ptr X \<equiv> view_ptr external_type (view_time X)"

definition copies_deeply :: "'x apimachinery \<Rightarrow> bool" where
  \<comment> \<open>the methods of apimachinery are deep copies as documented\<close>
  "copies_deeply X \<longleftrightarrow>
     deep_copier (copy_object_meta X) (view_object_meta X)
     \<and> deep_copier (copy_list_meta X) (view_list_meta X)
     \<and> deep_copier (copy_condition X) (view_condition X)
     \<and> deep_copier (copy_raw_extension X) (view_raw_extension X)
     \<and> deep_copier (copy_time X) (view_time_ptr X)"

definition copy_non_nil :: "('x, ref) copier \<Rightarrow> ('x, ref) copier" where
  \<comment> \<open>\<open>if in != nil { *out = (*in).DeepCopy() }\<close>\<close>
  "copy_non_nil f p h = (if p = None then Some (None, h) else f p h)"

section \<open>DeepCopyInto\<close>

definition secret_key_selector_copy_into :: "('x, secret_key_selector) copier" where
  "secret_key_selector_copy_into i h = Some (i, h)"

definition credentials_source_copy_into :: "('x, credentials_source) copier" where
  "credentials_source_copy_into i h = Some (i\<lparr>cs_secret_ref := cs_secret_ref i\<rparr>, h)"

definition auth_spec_copy_into :: "('x, auth_spec_mem) copier" where
  "auth_spec_copy_into i h0 =
     do { (c, h1) \<leftarrow> copy_new credentials_source_type copy_plain (asm_credentials_from i) h0;
          Some (i\<lparr>asm_credentials_from := c\<rparr>, h1) }"

definition failure_policy_copy_into :: "('x, failure_policy) copier" where
  "failure_policy_copy_into i h = Some (i, h)"

definition step_spec_copy_into :: "('x, step_spec_mem) copier" where
  "step_spec_copy_into i h0 =
     do { (ps, h1) \<leftarrow> copy_map (ssm_params i) h0;
          (os, h2) \<leftarrow> copy_make string_type copy_plain (ssm_outputs i) h1;
          Some (i\<lparr>ssm_params := ps, ssm_outputs := os\<rparr>, h2) }"

definition task_run_spec_copy_into :: "('x, task_run_spec_mem) copier" where
  "task_run_spec_copy_into i h0 =
     do { (a, h1) \<leftarrow> copy_new auth_spec_type auth_spec_copy_into (trsm_auth i) h0;
          (ss, h2) \<leftarrow> copy_make step_spec_type step_spec_copy_into (trsm_steps i) h1;
          (f, h3) \<leftarrow> copy_new failure_policy_type copy_plain (trsm_on_failure i) h2;
          Some (i\<lparr>trsm_auth := a, trsm_steps := ss, trsm_on_failure := f\<rparr>, h3) }"

definition step_status_copy_into :: "('x, step_status_mem) copier" where
  "step_status_copy_into i h0 =
     do { (os, h1) \<leftarrow> copy_map (stm_outputs i) h0;
          Some (i\<lparr>stm_outputs := os\<rparr>, h1) }"

definition task_run_status_copy_into :: "'x apimachinery \<Rightarrow> ('x, task_run_status_mem) copier" where
  "task_run_status_copy_into X i h0 =
     do { (st, h1) \<leftarrow> copy_non_nil (copy_time X) (tsm_start_time i) h0;
          (ct, h2) \<leftarrow> copy_non_nil (copy_time X) (tsm_completion_time i) h1;
          (ss, h3) \<leftarrow> copy_make step_status_type step_status_copy_into (tsm_steps i) h2;
          (cs, h4) \<leftarrow> copy_make external_type (copy_condition X) (tsm_conditions i) h3;
          Some (i\<lparr>tsm_start_time := st, tsm_completion_time := ct, tsm_steps := ss, tsm_conditions := cs\<rparr>, h4) }"

definition task_run_copy_into :: "'x apimachinery \<Rightarrow> ('x, 'x task_run_mem) copier" where
  "task_run_copy_into X i h0 =
     do { (m, h1) \<leftarrow> copy_object_meta X (trm_meta i) h0;
          (sp, h2) \<leftarrow> task_run_spec_copy_into (trm_spec i) h1;
          (st, h3) \<leftarrow> task_run_status_copy_into X (trm_status i) h2;
          Some (i\<lparr>trm_type_meta := trm_type_meta i, trm_meta := m, trm_spec := sp, trm_status := st\<rparr>, h3) }"

definition task_run_list_copy_into :: "'x apimachinery \<Rightarrow> ('x, 'x list_mem) copier" where
  "task_run_list_copy_into X i h0 =
     do { (m, h1) \<leftarrow> copy_list_meta X (lm_meta i) h0;
          (items, h2) \<leftarrow> copy_make task_run_type (task_run_copy_into X) (lm_items i) h1;
          Some (i\<lparr>lm_type_meta := lm_type_meta i, lm_meta := m, lm_items := items\<rparr>, h2) }"

definition runner_spec_copy_into :: "('x, runner_spec) copier" where
  "runner_spec_copy_into i h = Some (i, h)"

definition output_spec_copy_into :: "('x, output_spec) copier" where
  "output_spec_copy_into i h = Some (i, h)"

definition step_definition_spec_copy_into :: "'x apimachinery \<Rightarrow> ('x, step_definition_spec_mem) copier" where
  "step_definition_spec_copy_into X i h0 =
     do { (s, h1) \<leftarrow> copy_new external_type (copy_raw_extension X) (sdsm_schema i) h0;
          (r, h2) \<leftarrow> copy_new runner_spec_type copy_plain (sdsm_runner i) h1;
          (os, h3) \<leftarrow> copy_make output_spec_type copy_plain (sdsm_outputs i) h2;
          Some (i\<lparr>sdsm_schema := s, sdsm_runner := r, sdsm_outputs := os\<rparr>, h3) }"

definition step_definition_status_copy_into :: "'x apimachinery \<Rightarrow> ('x, conditions_mem) copier" where
  "step_definition_status_copy_into X i h0 =
     do { (cs, h1) \<leftarrow> copy_make external_type (copy_condition X) (cm_conditions i) h0;
          Some (i\<lparr>cm_conditions := cs\<rparr>, h1) }"

definition step_definition_copy_into :: "'x apimachinery \<Rightarrow> ('x, 'x definition_mem) copier" where
  "step_definition_copy_into X i h0 =
     do { (m, h1) \<leftarrow> copy_object_meta X (dm_meta i) h0;
          (sp, h2) \<leftarrow> step_definition_spec_copy_into X (dm_spec i) h1;
          (st, h3) \<leftarrow> step_definition_status_copy_into X (dm_status i) h2;
          Some (i\<lparr>dm_type_meta := dm_type_meta i, dm_meta := m, dm_spec := sp, dm_status := st\<rparr>, h3) }"

definition step_definition_list_copy_into :: "'x apimachinery \<Rightarrow> ('x, 'x list_mem) copier" where
  "step_definition_list_copy_into X i h0 =
     do { (m, h1) \<leftarrow> copy_list_meta X (lm_meta i) h0;
          (items, h2) \<leftarrow> copy_make step_definition_type (step_definition_copy_into X) (lm_items i) h1;
          Some (i\<lparr>lm_type_meta := lm_type_meta i, lm_meta := m, lm_items := items\<rparr>, h2) }"

definition cluster_step_definition_status_copy_into :: "'x apimachinery \<Rightarrow> ('x, conditions_mem) copier" where
  "cluster_step_definition_status_copy_into X i h0 =
     do { (cs, h1) \<leftarrow> copy_make external_type (copy_condition X) (cm_conditions i) h0;
          Some (i\<lparr>cm_conditions := cs\<rparr>, h1) }"

definition cluster_step_definition_copy_into :: "'x apimachinery \<Rightarrow> ('x, 'x definition_mem) copier" where
  "cluster_step_definition_copy_into X i h0 =
     do { (m, h1) \<leftarrow> copy_object_meta X (dm_meta i) h0;
          (sp, h2) \<leftarrow> step_definition_spec_copy_into X (dm_spec i) h1;
          (st, h3) \<leftarrow> cluster_step_definition_status_copy_into X (dm_status i) h2;
          Some (i\<lparr>dm_type_meta := dm_type_meta i, dm_meta := m, dm_spec := sp, dm_status := st\<rparr>, h3) }"

definition cluster_step_definition_list_copy_into :: "'x apimachinery \<Rightarrow> ('x, 'x list_mem) copier" where
  "cluster_step_definition_list_copy_into X i h0 =
     do { (m, h1) \<leftarrow> copy_list_meta X (lm_meta i) h0;
          (items, h2) \<leftarrow> copy_make cluster_step_definition_type (cluster_step_definition_copy_into X) (lm_items i) h1;
          Some (i\<lparr>lm_type_meta := lm_type_meta i, lm_meta := m, lm_items := items\<rparr>, h2) }"

section \<open>DeepCopy\<close>

text \<open>\<open>if in == nil { return nil }\<close>, \<open>out := new(T)\<close>, \<open>in.DeepCopyInto(out)\<close>.\<close>

definition auth_spec_deep_copy :: "('x, ref) copier" where
  "auth_spec_deep_copy = copy_new auth_spec_type auth_spec_copy_into"

definition credentials_source_deep_copy :: "('x, ref) copier" where
  "credentials_source_deep_copy = copy_new credentials_source_type credentials_source_copy_into"

definition secret_key_selector_deep_copy :: "('x, ref) copier" where
  "secret_key_selector_deep_copy = copy_new secret_key_selector_type secret_key_selector_copy_into"

definition failure_policy_deep_copy :: "('x, ref) copier" where
  "failure_policy_deep_copy = copy_new failure_policy_type failure_policy_copy_into"

definition step_spec_deep_copy :: "('x, ref) copier" where
  "step_spec_deep_copy = copy_new step_spec_type step_spec_copy_into"

definition task_run_spec_deep_copy :: "('x, ref) copier" where
  "task_run_spec_deep_copy = copy_new task_run_spec_type task_run_spec_copy_into"

definition step_status_deep_copy :: "('x, ref) copier" where
  "step_status_deep_copy = copy_new step_status_type step_status_copy_into"

definition task_run_status_deep_copy :: "'x apimachinery \<Rightarrow> ('x, ref) copier" where
  "task_run_status_deep_copy X = copy_new task_run_status_type (task_run_status_copy_into X)"

definition task_run_deep_copy :: "'x apimachinery \<Rightarrow> ('x, ref) copier" where
  "task_run_deep_copy X = copy_new task_run_type (task_run_copy_into X)"

definition task_run_list_deep_copy :: "'x apimachinery \<Rightarrow> ('x, ref) copier" where
  "task_run_list_deep_copy X = copy_new task_run_list_type (task_run_list_copy_into X)"

definition runner_spec_deep_copy :: "('x, ref) copier" where
  "runner_spec_deep_copy = copy_new runner_spec_type runner_spec_copy_into"

definition output_spec_deep_copy :: "('x, ref) copier" where
  "output_spec_deep_copy = copy_new output_spec_type output_spec_copy_into"

definition step_definition_spec_deep_copy :: "'x apimachinery \<Rightarrow> ('x, ref) copier" where
  "step_definition_spec_deep_copy X = copy_new step_definition_spec_type (step_definition_spec_copy_into X)"

definition step_definition_status_deep_copy :: "'x apimachinery \<Rightarrow> ('x, ref) copier" where
  "step_definition_status_deep_copy X = copy_new step_definition_status_type (step_definition_status_copy_into X)"

definition step_definition_deep_copy :: "'x apimachinery \<Rightarrow> ('x, ref) copier" where
  "step_definition_deep_copy X = copy_new step_definition_type (step_definition_copy_into X)"

definition step_definition_list_deep_copy :: "'x apimachinery \<Rightarrow> ('x, ref) copier" where
  "step_definition_list_deep_copy X = copy_new step_definition_list_type (step_definition_list_copy_into X)"

definition cluster_step_definition_status_deep_copy :: "'x apimachinery \<Rightarrow> ('x, ref) copier" where
  "cluster_step_definition_status_deep_copy X = copy_new cluster_step_definition_status_type (cluster_step_definition_status_copy_into X)"

definition cluster_step_definition_deep_copy :: "'x apimachinery \<Rightarrow> ('x, ref) copier" where
  "cluster_step_definition_deep_copy X = copy_new cluster_step_definition_type (cluster_step_definition_copy_into X)"

definition cluster_step_definition_list_deep_copy :: "'x apimachinery \<Rightarrow> ('x, ref) copier" where
  "cluster_step_definition_list_deep_copy X = copy_new cluster_step_definition_list_type (cluster_step_definition_list_copy_into X)"

section \<open>DeepCopyObject\<close>

text \<open>A value of the interface \<open>runtime.Object\<close> is a pointer with its type; the nil
  interface is \<open>None\<close>.\<close>

datatype runtime_object =
    TaskRunObject nat
  | TaskRunListObject nat
  | StepDefinitionObject nat
  | StepDefinitionListObject nat
  | ClusterStepDefinitionObject nat
  | ClusterStepDefinitionListObject nat

definition task_run_deep_copy_object ::
  "'x apimachinery \<Rightarrow> ref \<Rightarrow> 'x heap \<Rightarrow> (runtime_object option \<times> 'x heap) option" where
  "task_run_deep_copy_object X p h =
     do { (c, h1) \<leftarrow> task_run_deep_copy X p h;
          (case c of None \<Rightarrow> Some (None, h1) | Some a \<Rightarrow> Some (Some (TaskRunObject a), h1)) }"

definition task_run_list_deep_copy_object ::
  "'x apimachinery \<Rightarrow> ref \<Rightarrow> 'x heap \<Rightarrow> (runtime_object option \<times> 'x heap) option" where
  "task_run_list_deep_copy_object X p h =
     do { (c, h1) \<leftarrow> task_run_list_deep_copy X p h;
          (case c of None \<Rightarrow> Some (None, h1) | Some a \<Rightarrow> Some (Some (TaskRunListObject a), h1)) }"

definition step_definition_deep_copy_object ::
  "'x apimachinery \<Rightarrow> ref \<Rightarrow> 'x heap \<Rightarrow> (runtime_object option \<times> 'x heap) option" where
  "step_definition_deep_copy_object X p h =
     do { (c, h1) \<leftarrow> step_definition_deep_copy X p h;
          (case c of None \<Rightarrow> Some (None, h1) | Some a \<Rightarrow> Some (Some (StepDefinitionObject a), h1)) }"

definition step_definition_list_deep_copy_object ::
  "'x apimachinery \<Rightarrow> ref \<Rightarrow> 'x heap \<Rightarrow> (runtime_object option \<times> 'x heap) option" where
  "step_definition_list_deep_copy_object X p h =
     do { (c, h1) \<leftarrow> step_definition_list_deep_copy X p h;
          (case c of None \<Rightarrow> Some (None, h1) | Some a \<Rightarrow> Some (Some (StepDefinitionListObject a), h1)) }"

definition cluster_step_definition_deep_copy_object ::
  "'x apimachinery \<Rightarrow> ref \<Rightarrow> 'x heap \<Rightarrow> (runtime_object option \<times> 'x heap) option" where
  "cluster_step_definition_deep_copy_object X p h =
     do { (c, h1) \<leftarrow> cluster_step_definition_deep_copy X p h;
          (case c of None \<Rightarrow> Some (None, h1) | Some a \<Rightarrow> Some (Some (ClusterStepDefinitionObject a), h1)) }"

definition cluster_step_definition_list_deep_copy_object ::
  "'x apimachinery \<Rightarrow> ref \<Rightarrow> 'x heap \<Rightarrow> (runtime_object option \<times> 'x heap) option" where
  "cluster_step_definition_list_deep_copy_object X p h =
     do { (c, h1) \<leftarrow> cluster_step_definition_list_deep_copy X p h;
          (case c of None \<Rightarrow> Some (None, h1) | Some a \<Rightarrow> Some (Some (ClusterStepDefinitionListObject a), h1)) }"

section \<open>What the structs denote\<close>

definition view_auth_spec :: "('x, auth_spec_mem, auth_spec) viewer" where
  "view_auth_spec = view_struct asm_credentials_from
     (\<lambda>m c. \<lparr>as_type = asm_type m, as_token_endpoint = asm_token_endpoint m, as_credentials_from = c\<rparr>)
     (view_ptr credentials_source_type view_plain)"

definition view_step_spec :: "('x, step_spec_mem, step_spec) viewer" where
  "view_step_spec = view_struct (\<lambda>m. (ssm_params m, ssm_outputs m))
     (\<lambda>m (ps, os). \<lparr>ss_name = ssm_name m, ss_action = ssm_action m, ss_params = ps, ss_outputs = os\<rparr>)
     (view_pair view_map (view_slice string_type view_plain))"

definition view_task_run_spec :: "('x, task_run_spec_mem, task_run_spec) viewer" where
  "view_task_run_spec = view_struct (\<lambda>m. (trsm_auth m, trsm_steps m, trsm_on_failure m))
     (\<lambda>m (a, ss, f). \<lparr>trs_schedule = trsm_schedule m, trs_concurrency_policy = trsm_concurrency_policy m,
        trs_auth = a, trs_steps = ss, trs_on_failure = f\<rparr>)
     (view_pair (view_ptr auth_spec_type view_auth_spec)
       (view_pair (view_slice step_spec_type view_step_spec) (view_ptr failure_policy_type view_plain)))"

definition view_step_status :: "('x, step_status_mem, step_status) viewer" where
  "view_step_status = view_struct stm_outputs
     (\<lambda>m os. \<lparr>st_name = stm_name m, st_phase = stm_phase m, st_duration = stm_duration m,
        st_outputs = os, st_logs = stm_logs m\<rparr>)
     view_map"

definition view_task_run_status :: "'x apimachinery \<Rightarrow> ('x, task_run_status_mem, task_run_status) viewer" where
  "view_task_run_status X = view_struct
     (\<lambda>m. (tsm_start_time m, tsm_completion_time m, tsm_steps m, tsm_conditions m))
     (\<lambda>m (st, ct, ss, cs). \<lparr>ts_phase = tsm_phase m, ts_start_time = st, ts_completion_time = ct,
        ts_steps = ss, ts_conditions = cs\<rparr>)
     (view_pair (view_time_ptr X) (view_pair (view_time_ptr X)
       (view_pair (view_slice step_status_type view_step_status)
         (view_slice external_type (view_condition X)))))"

definition view_task_run :: "'x apimachinery \<Rightarrow> ('x, 'x task_run_mem, type_meta \<times> task_run) viewer" where
  "view_task_run X = view_struct (\<lambda>m. (trm_meta m, trm_spec m, trm_status m))
     (\<lambda>m (me, sp, st). (trm_type_meta m, \<lparr>tr_meta = me, tr_spec = sp, tr_status = st\<rparr>))
     (view_pair (view_object_meta X) (view_pair view_task_run_spec (view_task_run_status X)))"

definition view_items ::
  "'x apimachinery \<Rightarrow> ('x, 'm) go_type \<Rightarrow> ('x, 'm, 'v) viewer
     \<Rightarrow> ('x, 'x list_mem, type_meta \<times> (string \<times> string) list \<times> 'v list) viewer" where
  "view_items X T v = view_struct (\<lambda>m. (lm_meta m, lm_items m)) (\<lambda>m (me, vs). (lm_type_meta m, me, vs))
     (view_pair (view_list_meta X) (view_slice T v))"

definition view_step_definition_spec :: "'x apimachinery \<Rightarrow> ('x, step_definition_spec_mem, step_definition_spec) viewer" where
  "view_step_definition_spec X = view_struct (\<lambda>m. (sdsm_schema m, sdsm_runner m, sdsm_outputs m))
     (\<lambda>m (s, r, os). \<lparr>sds_schema = s, sds_runner = r, sds_outputs = os, sds_auth_aware = sdsm_auth_aware m\<rparr>)
     (view_pair (view_ptr external_type (view_raw_extension X))
       (view_pair (view_ptr runner_spec_type view_plain) (view_slice output_spec_type view_plain)))"

definition view_conditions :: "'x apimachinery \<Rightarrow> ('x, conditions_mem, status_condition list) viewer" where
  "view_conditions X = view_struct cm_conditions (\<lambda>m cs. cs) (view_slice external_type (view_condition X))"

definition view_definition ::
  "'x apimachinery \<Rightarrow> (object_meta \<Rightarrow> step_definition_spec \<Rightarrow> status_condition list \<Rightarrow> 'd)
     \<Rightarrow> ('x, 'x definition_mem, type_meta \<times> 'd) viewer" where
  "view_definition X mk = view_struct (\<lambda>m. (dm_meta m, dm_spec m, dm_status m))
     (\<lambda>m (me, sp, cs). (dm_type_meta m, mk me sp cs))
     (view_pair (view_object_meta X) (view_pair (view_step_definition_spec X) (view_conditions X)))"

abbreviation view_step_definition :: "'x apimachinery \<Rightarrow> ('x, 'x definition_mem, type_meta \<times> step_definition) viewer" where
  "view_step_definition X \<equiv>
     view_definition X (\<lambda>me sp cs. \<lparr>sd_meta = me, sd_spec = sp, sd_conditions = cs\<rparr>)"

abbreviation view_cluster_step_definition ::
  "'x apimachinery \<Rightarrow> ('x, 'x definition_mem, type_meta \<times> cluster_step_definition) viewer" where
  "view_cluster_step_definition X \<equiv>
     view_definition X (\<lambda>me sp cs. \<lparr>csd_meta = me, csd_spec = sp, csd_conditions = cs\<rparr>)"

section \<open>Every method is a deep copy\<close>

lemmas copier_rules = wf_types plain_copier pair_copier new_copier make_copier map_copier

lemma copy_into_plain:
  "secret_key_selector_copy_into = copy_plain"
  "credentials_source_copy_into = copy_plain"
  "failure_policy_copy_into = copy_plain"
  "runner_spec_copy_into = copy_plain"
  "output_spec_copy_into = copy_plain"
  by (simp_all add: fun_eq_iff copy_plain_def secret_key_selector_copy_into_def
      credentials_source_copy_into_def failure_policy_copy_into_def runner_spec_copy_into_def
      output_spec_copy_into_def)

lemma map_apfst_bind: "map_option (apfst f) r = Option.bind r (\<lambda>(x, h). Some (f x, h))"
  by (cases r) auto

lemmas copy_into_simps = map_apfst_bind copy_pair_def case_prod_unfold bind_assoc

lemma guarded_copier:
  assumes "deep_copier f (view_ptr T v)"
  shows "deep_copier (copy_non_nil f) (view_ptr T v)"
proof
  fix p h x as
  assume view: "view_ptr T v p h = Some (x, as)"
  show "list_all (\<lambda>a. a < length h) (addrs as)"
    by (rule deep_copier.allocated [OF assms view])
  show "unchanged as h h' \<Longrightarrow> view_ptr T v p h' = Some (x, as)" for h'
    by (rule deep_copier.frame [OF assms view])
  show "\<exists>m' ext bs. copy_non_nil f p h = Some (m', h @ ext) \<and> view_ptr T v m' (h @ ext) = Some (x, bs)
      \<and> fresh_copy (length h) (length (h @ ext)) as bs"
  proof (cases p)
    case None
    with view show ?thesis by (auto simp: view_ptr_Some copy_non_nil_def)
  next
    case (Some a)
    then show ?thesis using deep_copier.copies [OF assms view] by (simp add: copy_non_nil_def)
  qed
qed

lemma struct_copierI:
  assumes "v = view_struct get mk w" and "deep_copier c w"
    and "\<And>m k. get (put m k) = k" and "\<And>m k. mk (put m k) = mk m"
    and "\<And>m h. f m h = map_option (apfst (put m)) (c (get m) h)"
  shows "deep_copier f v"
proof -
  have "f = copy_struct get put c"
    by (simp add: fun_eq_iff copy_struct_def assms(5))
  with struct_copier [OF assms(2-4)] assms(1) show ?thesis by simp
qed

interpretation secret_key_selector: deep_copier secret_key_selector_copy_into view_plain
  unfolding copy_into_plain by (rule plain_copier)

interpretation credentials_source: deep_copier credentials_source_copy_into view_plain
  unfolding copy_into_plain by (rule plain_copier)

interpretation failure_policy: deep_copier failure_policy_copy_into view_plain
  unfolding copy_into_plain by (rule plain_copier)

interpretation runner_spec: deep_copier runner_spec_copy_into view_plain
  unfolding copy_into_plain by (rule plain_copier)

interpretation output_spec: deep_copier output_spec_copy_into view_plain
  unfolding copy_into_plain by (rule plain_copier)

interpretation auth_spec: deep_copier auth_spec_copy_into view_auth_spec
proof (rule struct_copierI [OF view_auth_spec_def, where put = "\<lambda>m c. m\<lparr>asm_credentials_from := c\<rparr>"])
  show "deep_copier (copy_new credentials_source_type copy_plain) (view_ptr credentials_source_type view_plain)"
    by (intro copier_rules)
qed (simp_all add: auth_spec_copy_into_def copy_into_simps)

interpretation step_spec: deep_copier step_spec_copy_into view_step_spec
proof (rule struct_copierI [OF view_step_spec_def, where put = "\<lambda>m (ps, os). m\<lparr>ssm_params := ps, ssm_outputs := os\<rparr>"])
  show "deep_copier (copy_pair copy_map (copy_make string_type copy_plain)) (view_pair view_map (view_slice string_type view_plain))"
    by (intro copier_rules)
qed (simp_all add: step_spec_copy_into_def copy_into_simps)

interpretation task_run_spec: deep_copier task_run_spec_copy_into view_task_run_spec
proof (rule struct_copierI [OF view_task_run_spec_def, where put = "\<lambda>m (a, ss, f). m\<lparr>trsm_auth := a, trsm_steps := ss, trsm_on_failure := f\<rparr>"])
  show "deep_copier (copy_pair (copy_new auth_spec_type auth_spec_copy_into)
     (copy_pair (copy_make step_spec_type step_spec_copy_into) (copy_new failure_policy_type copy_plain))) (view_pair (view_ptr auth_spec_type view_auth_spec)
     (view_pair (view_slice step_spec_type view_step_spec) (view_ptr failure_policy_type view_plain)))"
    by (intro copier_rules auth_spec.deep_copier_axioms step_spec.deep_copier_axioms)
qed (simp_all add: task_run_spec_copy_into_def copy_into_simps)

interpretation step_status: deep_copier step_status_copy_into view_step_status
proof (rule struct_copierI [OF view_step_status_def, where put = "\<lambda>m os. m\<lparr>stm_outputs := os\<rparr>"])
  show "deep_copier (copy_map) (view_map)"
    by (intro copier_rules)
qed (simp_all add: step_status_copy_into_def copy_into_simps)

lemma task_run_status_copier:
  assumes "copies_deeply X"
  shows "deep_copier (task_run_status_copy_into X) (view_task_run_status X)"
proof (rule struct_copierI [OF view_task_run_status_def, where put = "\<lambda>m (st, ct, ss, cs). m\<lparr>tsm_start_time := st, tsm_completion_time := ct, tsm_steps := ss, tsm_conditions := cs\<rparr>"])
  show "deep_copier (copy_pair (copy_non_nil (copy_time X)) (copy_pair (copy_non_nil (copy_time X))
     (copy_pair (copy_make step_status_type step_status_copy_into) (copy_make external_type (copy_condition X))))) (view_pair (view_time_ptr X) (view_pair (view_time_ptr X)
     (view_pair (view_slice step_status_type view_step_status) (view_slice external_type (view_condition X)))))"
    using assms by (intro copier_rules guarded_copier step_status.deep_copier_axioms) (auto simp: copies_deeply_def)
qed (simp_all add: task_run_status_copy_into_def copy_into_simps)

lemma task_run_copier:
  assumes "copies_deeply X"
  shows "deep_copier (task_run_copy_into X) (view_task_run X)"
proof (rule struct_copierI [OF view_task_run_def, where put = "\<lambda>m (me, sp, st). m\<lparr>trm_meta := me, trm_spec := sp, trm_status := st\<rparr>"])
  show "deep_copier (copy_pair (copy_object_meta X) (copy_pair task_run_spec_copy_into (task_run_status_copy_into X))) (view_pair (view_object_meta X) (view_pair view_task_run_spec (view_task_run_status X)))"
    using assms by (intro copier_rules task_run_spec.deep_copier_axioms task_run_status_copier) (auto simp: copies_deeply_def)
qed (simp_all add: task_run_copy_into_def copy_into_simps)

lemma task_run_list_copier:
  assumes "copies_deeply X"
  shows "deep_copier (task_run_list_copy_into X) (view_items X task_run_type (view_task_run X))"
proof (rule struct_copierI [OF view_items_def, where put = "\<lambda>m (me, vs). m\<lparr>lm_meta := me, lm_items := vs\<rparr>"])
  show "deep_copier (copy_pair (copy_list_meta X) (copy_make task_run_type (task_run_copy_into X))) (view_pair (view_list_meta X) (view_slice task_run_type (view_task_run X)))"
    using assms by (intro copier_rules task_run_copier) (auto simp: copies_deeply_def)
qed (simp_all add: task_run_list_copy_into_def copy_into_simps)

lemma step_definition_spec_copier:
  assumes "copies_deeply X"
  shows "deep_copier (step_definition_spec_copy_into X) (view_step_definition_spec X)"
proof (rule struct_copierI [OF view_step_definition_spec_def, where put = "\<lambda>m (s, r, os). m\<lparr>sdsm_schema := s, sdsm_runner := r, sdsm_outputs := os\<rparr>"])
  show "deep_copier (copy_pair (copy_new external_type (copy_raw_extension X))
     (copy_pair (copy_new runner_spec_type copy_plain) (copy_make output_spec_type copy_plain))) (view_pair (view_ptr external_type (view_raw_extension X))
     (view_pair (view_ptr runner_spec_type view_plain) (view_slice output_spec_type view_plain)))"
    using assms by (intro copier_rules) (auto simp: copies_deeply_def)
qed (simp_all add: step_definition_spec_copy_into_def copy_into_simps)

lemma step_definition_status_copier:
  assumes "copies_deeply X"
  shows "deep_copier (step_definition_status_copy_into X) (view_conditions X)"
proof (rule struct_copierI [OF view_conditions_def, where put = "\<lambda>m cs. m\<lparr>cm_conditions := cs\<rparr>"])
  show "deep_copier (copy_make external_type (copy_condition X)) (view_slice external_type (view_condition X))"
    using assms by (intro copier_rules) (auto simp: copies_deeply_def)
qed (simp_all add: step_definition_status_copy_into_def copy_into_simps)

lemma step_definition_copier:
  assumes "copies_deeply X"
  shows "deep_copier (step_definition_copy_into X) (view_definition X mk)"
proof (rule struct_copierI [OF view_definition_def, where put = "\<lambda>m (me, sp, st). m\<lparr>dm_meta := me, dm_spec := sp, dm_status := st\<rparr>"])
  show "deep_copier (copy_pair (copy_object_meta X) (copy_pair (step_definition_spec_copy_into X) (step_definition_status_copy_into X))) (view_pair (view_object_meta X) (view_pair (view_step_definition_spec X) (view_conditions X)))"
    using assms by (intro copier_rules step_definition_spec_copier step_definition_status_copier) (auto simp: copies_deeply_def)
qed (simp_all add: step_definition_copy_into_def copy_into_simps)

lemma step_definition_list_copier:
  assumes "copies_deeply X"
  shows "deep_copier (step_definition_list_copy_into X) (view_items X step_definition_type (view_step_definition X))"
proof (rule struct_copierI [OF view_items_def, where put = "\<lambda>m (me, vs). m\<lparr>lm_meta := me, lm_items := vs\<rparr>"])
  show "deep_copier (copy_pair (copy_list_meta X) (copy_make step_definition_type (step_definition_copy_into X))) (view_pair (view_list_meta X) (view_slice step_definition_type (view_step_definition X)))"
    using assms by (intro copier_rules step_definition_copier) (auto simp: copies_deeply_def)
qed (simp_all add: step_definition_list_copy_into_def copy_into_simps)

lemma cluster_step_definition_status_copier:
  assumes "copies_deeply X"
  shows "deep_copier (cluster_step_definition_status_copy_into X) (view_conditions X)"
proof (rule struct_copierI [OF view_conditions_def, where put = "\<lambda>m cs. m\<lparr>cm_conditions := cs\<rparr>"])
  show "deep_copier (copy_make external_type (copy_condition X)) (view_slice external_type (view_condition X))"
    using assms by (intro copier_rules) (auto simp: copies_deeply_def)
qed (simp_all add: cluster_step_definition_status_copy_into_def copy_into_simps)

lemma cluster_step_definition_copier:
  assumes "copies_deeply X"
  shows "deep_copier (cluster_step_definition_copy_into X) (view_definition X mk)"
proof (rule struct_copierI [OF view_definition_def, where put = "\<lambda>m (me, sp, st). m\<lparr>dm_meta := me, dm_spec := sp, dm_status := st\<rparr>"])
  show "deep_copier (copy_pair (copy_object_meta X) (copy_pair (step_definition_spec_copy_into X) (cluster_step_definition_status_copy_into X))) (view_pair (view_object_meta X) (view_pair (view_step_definition_spec X) (view_conditions X)))"
    using assms by (intro copier_rules step_definition_spec_copier cluster_step_definition_status_copier) (auto simp: copies_deeply_def)
qed (simp_all add: cluster_step_definition_copy_into_def copy_into_simps)

lemma cluster_step_definition_list_copier:
  assumes "copies_deeply X"
  shows "deep_copier (cluster_step_definition_list_copy_into X) (view_items X cluster_step_definition_type (view_cluster_step_definition X))"
proof (rule struct_copierI [OF view_items_def, where put = "\<lambda>m (me, vs). m\<lparr>lm_meta := me, lm_items := vs\<rparr>"])
  show "deep_copier (copy_pair (copy_list_meta X) (copy_make cluster_step_definition_type (cluster_step_definition_copy_into X))) (view_pair (view_list_meta X) (view_slice cluster_step_definition_type (view_cluster_step_definition X)))"
    using assms by (intro copier_rules cluster_step_definition_copier) (auto simp: copies_deeply_def)
qed (simp_all add: cluster_step_definition_list_copy_into_def copy_into_simps)

section \<open>An instance of apimachinery\<close>

datatype example_mem =
    MetaMem object_meta ref
  | ListMetaMem "(string \<times> string) list"
  | ConditionMem status_condition
  | RawMem raw_extension
  | TimeMem time

definition view_value :: "('x \<Rightarrow> 'v option) \<Rightarrow> ('x, 'x, 'v) viewer" where
  "view_value f x h = map_option (\<lambda>v. (v, [])) (f x)"

definition example_copy_meta :: "(example_mem, example_mem) copier" where
  "example_copy_meta x h =
     (case x of
        MetaMem m r \<Rightarrow> do { (r', h') \<leftarrow> copy_map r h; Some (MetaMem m r', h') }
      | _ \<Rightarrow> None)"

definition example_view_meta :: "(example_mem, example_mem, object_meta) viewer" where
  "example_view_meta x h =
     (case x of
        MetaMem m r \<Rightarrow> do { (ls, rs) \<leftarrow> view_map r h; Some (m\<lparr>om_labels := ls\<rparr>, rs) }
      | _ \<Rightarrow> None)"

definition example_apimachinery :: "example_mem apimachinery" where
  "example_apimachinery =
     \<lparr>copy_object_meta = example_copy_meta, view_object_meta = example_view_meta,
      copy_list_meta = copy_plain, view_list_meta = view_value (\<lambda>x. case x of ListMetaMem l \<Rightarrow> Some l | _ \<Rightarrow> None),
      copy_condition = copy_plain, view_condition = view_value (\<lambda>x. case x of ConditionMem c \<Rightarrow> Some c | _ \<Rightarrow> None),
      copy_raw_extension = copy_plain, view_raw_extension = view_value (\<lambda>x. case x of RawMem r \<Rightarrow> Some r | _ \<Rightarrow> None),
      copy_time = copy_new external_type copy_plain,
      view_time = view_value (\<lambda>x. case x of TimeMem t \<Rightarrow> Some t | _ \<Rightarrow> None)\<rparr>"

lemma value_copier: "deep_copier copy_plain (view_value f)"
  by unfold_locales (auto simp: copy_plain_def view_value_def)

interpretation example_meta: deep_copier example_copy_meta example_view_meta
proof
  fix x h v as
  assume "example_view_meta x h = Some (v, as)"
  then obtain m r ls where x: "x = MetaMem m r" and r: "view_map r h = Some (ls, as)"
      and v: "v = m\<lparr>om_labels := ls\<rparr>"
    by (auto simp: example_view_meta_def bind_eq_Some_conv split: example_mem.splits)
  show "list_all (\<lambda>a. a < length h) (addrs as)"
    by (rule deep_copier.allocated [OF map_copier r])
  show "unchanged as h h' \<Longrightarrow> example_view_meta x h' = Some (v, as)" for h'
    using deep_copier.frame [OF map_copier r] x v by (simp add: example_view_meta_def)
  show "\<exists>m' ext bs. example_copy_meta x h = Some (m', h @ ext) \<and> example_view_meta m' (h @ ext) = Some (v, bs)
      \<and> fresh_copy (length h) (length (h @ ext)) as bs"
    using deep_copier.copies [OF map_copier r] x v
    by (force simp: example_copy_meta_def example_view_meta_def)
qed

lemma example_copies_deeply: "copies_deeply example_apimachinery"
  by (simp add: copies_deeply_def example_apimachinery_def example_meta.deep_copier_axioms
      value_copier new_copier)

text \<open>A TaskRun with a step, its parameters and a start time.\<close>

definition example_memory :: "example_mem heap" where
  "example_memory =
     [MapCell [(''name'', ''db''), (''key'', ''password'')],
      Array [StepSpecVal \<lparr>ssm_name = ''s'', ssm_action = ''secret-read'', ssm_params = Some 0, ssm_outputs = None\<rparr>],
      MapCell [(''app'', ''demo'')],
      Struct (ExternalVal (TimeMem 7)),
      Struct (TaskRunVal
        \<lparr>trm_type_meta = \<lparr>tm_kind = ''TaskRun'', tm_api_version = ''taskrun.io/v1alpha1''\<rparr>,
         trm_meta = MetaMem \<lparr>om_name = ''t'', om_namespace = ''ns'', om_generation = 1, om_labels = None,
                             om_owner_references = [], om_extra = []\<rparr> (Some 2),
         trm_spec = \<lparr>trsm_schedule = [], trsm_concurrency_policy = ConcurrencyPolicyAllow, trsm_auth = None,
                     trsm_steps = Some \<lparr>sl_array = 1, sl_from = 0, sl_len = 1\<rparr>, trsm_on_failure = None\<rparr>,
         trm_status = \<lparr>tsm_phase = TaskRunPhaseRunning, tsm_start_time = Some 3, tsm_completion_time = None,
                       tsm_steps = None, tsm_conditions = None\<rparr>\<rparr>)]"

text \<open>\<open>DeepCopyObject\<close> of a nil pointer is the nil interface, of any other pointer an object of
  the same kind that holds the pointer \<open>DeepCopy\<close> returns.\<close>

lemma object_of_copy:
  "Option.bind r (\<lambda>(c, h1). case c of None \<Rightarrow> Some (None, h1) | Some a \<Rightarrow> Some (Some (K a), h1)) =
     map_option (apfst (map_option K)) r"
  by (auto split: option.split bind_splits)

lemma deep_copy_object_methods:
  "task_run_deep_copy_object X p h =
     map_option (apfst (map_option TaskRunObject)) (task_run_deep_copy X p h)
   \<and> task_run_list_deep_copy_object X p h =
     map_option (apfst (map_option TaskRunListObject)) (task_run_list_deep_copy X p h)
   \<and> step_definition_deep_copy_object X p h =
     map_option (apfst (map_option StepDefinitionObject)) (step_definition_deep_copy X p h)
   \<and> step_definition_list_deep_copy_object X p h =
     map_option (apfst (map_option StepDefinitionListObject)) (step_definition_list_deep_copy X p h)
   \<and> cluster_step_definition_deep_copy_object X p h =
     map_option (apfst (map_option ClusterStepDefinitionObject)) (cluster_step_definition_deep_copy X p h)
   \<and> cluster_step_definition_list_deep_copy_object X p h =
     map_option (apfst (map_option ClusterStepDefinitionListObject)) (cluster_step_definition_list_deep_copy X p h)"
  by (simp_all add: object_of_copy task_run_deep_copy_object_def task_run_list_deep_copy_object_def
      step_definition_deep_copy_object_def step_definition_list_deep_copy_object_def
      cluster_step_definition_deep_copy_object_def cluster_step_definition_list_deep_copy_object_def)

section \<open>Properties\<close>

text \<open>C16: The DeepCopy methods of the six kinds are deep copies: from a pointer to a value they
  make a pointer to an equal value, with nil where the original has nil and everything else in
  newly allocated, unshared memory, and leave the memory they found as it was.\<close>

theorem deep_copy_methods:
  assumes "copies_deeply X"
  shows "deep_copier (task_run_deep_copy X) (view_ptr task_run_type (view_task_run X))
    \<and> deep_copier (task_run_list_deep_copy X)
        (view_ptr task_run_list_type (view_items X task_run_type (view_task_run X)))
    \<and> deep_copier (step_definition_deep_copy X) (view_ptr step_definition_type (view_step_definition X))
    \<and> deep_copier (step_definition_list_deep_copy X)
        (view_ptr step_definition_list_type (view_items X step_definition_type (view_step_definition X)))
    \<and> deep_copier (cluster_step_definition_deep_copy X)
        (view_ptr cluster_step_definition_type (view_cluster_step_definition X))
    \<and> deep_copier (cluster_step_definition_list_deep_copy X)
        (view_ptr cluster_step_definition_list_type
          (view_items X cluster_step_definition_type (view_cluster_step_definition X)))"
  using assms
  by (simp add: new_copier task_run_copier task_run_list_copier step_definition_copier
      step_definition_list_copier cluster_step_definition_copier cluster_step_definition_list_copier
      task_run_deep_copy_def task_run_list_deep_copy_def step_definition_deep_copy_def
      step_definition_list_deep_copy_def cluster_step_definition_deep_copy_def
      cluster_step_definition_list_deep_copy_def)

theorem deep_copy_methods_witness:
  "deep_copier (task_run_deep_copy example_apimachinery)
     (view_ptr task_run_type (view_task_run example_apimachinery))"
  using deep_copy_methods [OF example_copies_deeply] by blast

lemma task_run_deep_copier:
  "copies_deeply X \<Longrightarrow> deep_copier (task_run_deep_copy X) (view_ptr task_run_type (view_task_run X))"
  by (simp add: new_copier task_run_copier task_run_deep_copy_def)

text \<open>C15: A TaskRun and its DeepCopy share nothing that can change: after any writes to the memory
  of the one, the other denotes the value it had.\<close>

theorem deep_copy_independent:
  assumes "copies_deeply X"
    and "view_ptr task_run_type (view_task_run X) p h = Some (v, as)"
    and "task_run_deep_copy X p h = Some (q, h')"
  shows "\<exists>bs. view_ptr task_run_type (view_task_run X) q h' = Some (v, bs)
    \<and> (\<forall>ws. list_all (\<lambda>w. fst w \<in> set (addrs bs)) ws \<longrightarrow>
         view_ptr task_run_type (view_task_run X) p (store_all ws h') = Some (v, as))
    \<and> (\<forall>ws. list_all (\<lambda>w. fst w \<in> set (addrs as)) ws \<longrightarrow>
         view_ptr task_run_type (view_task_run X) q (store_all ws h') = Some (v, bs))"
  by (rule deep_copier.independent [OF task_run_deep_copier [OF assms(1)] assms(2,3)]) blast

theorem deep_copy_independent_witness:
  "\<exists>v as q h' bs. task_run_deep_copy example_apimachinery (Some 4) example_memory = Some (q, h')
    \<and> view_ptr task_run_type (view_task_run example_apimachinery) q
        (store_all [(0, MapCell []), (4, Zeroed)] h') = Some (v, bs)
    \<and> set [0, 4] \<subseteq> set (addrs as) \<and> v \<noteq> None"
proof -
  let ?view = "view_ptr task_run_type (view_task_run example_apimachinery)"
  obtain v as where v: "?view (Some 4) example_memory = Some (v, as)" "v \<noteq> None" "set [0, 4] \<subseteq> set (addrs as)"
  proof -
    have "case ?view (Some 4) example_memory of None \<Rightarrow> False
        | Some (v, as) \<Rightarrow> v \<noteq> None \<and> list_all (\<lambda>a. a \<in> set (addrs as)) [0, 4]"
      by code_simp
    with that show thesis by (auto split: option.splits)
  qed
  have "task_run_deep_copy example_apimachinery (Some 4) example_memory \<noteq> None"
    by code_simp
  then obtain q h' where c: "task_run_deep_copy example_apimachinery (Some 4) example_memory = Some (q, h')"
    by auto
  have "list_all (\<lambda>w. fst w \<in> set (addrs as)) [(0, MapCell []), (4, Zeroed)]"
    using v(3) by simp
  with deep_copy_independent [OF example_copies_deeply v(1) c] v c show ?thesis
    by blast
qed

end
