(* ===== verification/Startup.thy ===== *)
theory Startup
  imports ApiTypes "HOL-Library.State_Monad"
begin

text \<open>
  The entry point of the manager (\<open>cmd/main.go\<close>), the registration of the API types
  (\<open>groupversion_info.go\<close> and the \<open>init\<close> functions of the types), \<open>SetupWithManager\<close> of the
  reconciler and the admission webhook. \<open>flag.Parse\<close> is modelled as the standard library
  documents it; the flags zap and controller-runtime declare are a parameter. What the program
  asks of controller-runtime and client-go is a \<open>setup_action\<close>, whose outcome is an answer of
  the outside world; log messages are left out.
\<close>

section \<open>Command line flags\<close>

record flags =
  fl_metrics_addr :: string
  fl_probe_addr :: string
  fl_leader_election :: bool
  fl_secure_metrics :: bool
  fl_webhook_cert_path :: string
  fl_webhook_cert_name :: string
  fl_webhook_cert_key :: string
  fl_metrics_cert_path :: string
  fl_metrics_cert_name :: string
  fl_metrics_cert_key :: string
  fl_enable_http2 :: bool

definition default_flags :: flags where
  "default_flags =
     \<lparr>fl_metrics_addr = ''0'', fl_probe_addr = '':8081'', fl_leader_election = False,
      fl_secure_metrics = True,
      fl_webhook_cert_path = [], fl_webhook_cert_name = ''tls.crt'', fl_webhook_cert_key = ''tls.key'',
      fl_metrics_cert_path = [], fl_metrics_cert_name = ''tls.crt'', fl_metrics_cert_key = ''tls.key'',
      fl_enable_http2 = False\<rparr>"

text \<open>The flags other packages declare: whether a name is one of them and boolean, and
  whether its \<open>Set\<close> accepts a value.\<close>

record foreign_flags =
  ff_boolean :: "string \<Rightarrow> bool option"
  ff_accepts :: "string \<Rightarrow> string \<Rightarrow> bool"

definition string_flags :: "(string \<times> (string \<Rightarrow> flags \<Rightarrow> flags)) list" where
  "string_flags =
     [(''metrics-bind-address'', \<lambda>v f. f\<lparr>fl_metrics_addr := v\<rparr>),
      (''health-probe-bind-address'', \<lambda>v f. f\<lparr>fl_probe_addr := v\<rparr>),
      (''webhook-cert-path'', \<lambda>v f. f\<lparr>fl_webhook_cert_path := v\<rparr>),
      (''webhook-cert-name'', \<lambda>v f. f\<lparr>fl_webhook_cert_name := v\<rparr>),
      (''webhook-cert-key'', \<lambda>v f. f\<lparr>fl_webhook_cert_key := v\<rparr>),
      (''metrics-cert-path'', \<lambda>v f. f\<lparr>fl_metrics_cert_path := v\<rparr>),
      (''metrics-cert-name'', \<lambda>v f. f\<lparr>fl_metrics_cert_name := v\<rparr>),
      (''metrics-cert-key'', \<lambda>v f. f\<lparr>fl_metrics_cert_key := v\<rparr>)]"

definition bool_flags :: "(string \<times> (bool \<Rightarrow> flags \<Rightarrow> flags)) list" where
  "bool_flags =
     [(''leader-elect'', \<lambda>b f. f\<lparr>fl_leader_election := b\<rparr>),
      (''metrics-secure'', \<lambda>b f. f\<lparr>fl_secure_metrics := b\<rparr>),
      (''enable-http2'', \<lambda>b f. f\<lparr>fl_enable_http2 := b\<rparr>)]"

definition parse_bool :: "string \<Rightarrow> bool option" where
  \<comment> \<open>\<open>strconv.ParseBool\<close>\<close>
  "parse_bool s =
     (if s \<in> {''1'', ''t'', ''T'', ''TRUE'', ''true'', ''True''} then Some True
      else if s \<in> {''0'', ''f'', ''F'', ''FALSE'', ''false'', ''False''} then Some False
      else None)"

datatype flag_error =
    HelpRequested
  | BadFlagSyntax string
  | FlagNotDefined string
  | FlagNeedsArgument string
  | InvalidFlagValue string string

definition is_bool_flag :: "foreign_flags \<Rightarrow> string \<Rightarrow> bool option" where
  \<comment> \<open>\<open>None\<close>: no flag of this name\<close>
  "is_bool_flag F name =
     (if map_of bool_flags name \<noteq> None then Some True
      else if map_of string_flags name \<noteq> None then Some False
      else ff_boolean F name)"

definition set_flag :: "foreign_flags \<Rightarrow> string \<Rightarrow> string \<Rightarrow> flags \<Rightarrow> flags option" where
  "set_flag F name value f =
     (case map_of bool_flags name of
        Some put \<Rightarrow> map_option (\<lambda>b. put b f) (parse_bool value)
      | None \<Rightarrow>
          (case map_of string_flags name of
             Some put \<Rightarrow> Some (put value f)
           | None \<Rightarrow> if ff_accepts F name value then Some f else None))"

definition dash :: char where
  "dash = CHR ''-''"

definition flag_text :: "string \<Rightarrow> string option" where
  \<comment> \<open>the argument without its one or two dashes; \<open>None\<close> ends the flags\<close>
  "flag_text s =
     (if length s < 2 \<or> hd s \<noteq> dash then None
      else if hd (tl s) = dash then (if length s = 2 then None else Some (drop 2 s))
      else Some (tl s))"

definition flag_name :: "string \<Rightarrow> string" where
  \<comment> \<open>up to the first equals sign that is not the first character\<close>
  "flag_name t = take 1 t @ takeWhile (\<lambda>c. c \<noteq> CHR ''='') (drop 1 t)"

definition flag_value :: "string \<Rightarrow> string option" where
  "flag_value t =
     (case dropWhile (\<lambda>c. c \<noteq> CHR ''='') (drop 1 t) of [] \<Rightarrow> None | _ # v \<Rightarrow> Some v)"

fun parse_args :: "foreign_flags \<Rightarrow> string list \<Rightarrow> flags \<Rightarrow> flag_error + flags" where
  \<comment> \<open>\<open>FlagSet.Parse\<close>\<close>
  "parse_args F [] f = Inr f"
| "parse_args F (s # args) f =
     (case flag_text s of
        None \<Rightarrow> Inr f
      | Some t \<Rightarrow>
          if t = [] \<or> hd t = dash \<or> hd t = CHR ''='' then Inl (BadFlagSyntax s)
          else
            (let name = flag_name t in
             case is_bool_flag F name of
               None \<Rightarrow> Inl (if name = ''help'' \<or> name = ''h'' then HelpRequested else FlagNotDefined name)
             | Some True \<Rightarrow>
                 (let value = (case flag_value t of Some v \<Rightarrow> v | None \<Rightarrow> ''true'') in
                  case set_flag F name value f of
                    None \<Rightarrow> Inl (InvalidFlagValue name value)
                  | Some f' \<Rightarrow> parse_args F args f')
             | Some False \<Rightarrow>
                 (case flag_value t of
                    Some v \<Rightarrow>
                      (case set_flag F name v f of
                         None \<Rightarrow> Inl (InvalidFlagValue name v)
                       | Some f' \<Rightarrow> parse_args F args f')
                  | None \<Rightarrow>
                      (case args of
                         [] \<Rightarrow> Inl (FlagNeedsArgument name)
                       | v # rest \<Rightarrow>
                           (case set_flag F name v f of
                              None \<Rightarrow> Inl (InvalidFlagValue name v)
                            | Some f' \<Rightarrow> parse_args F rest f')))))"

section \<open>Options\<close>

record tls_config =
  tls_next_protos :: "string list"
  tls_other :: "(string \<times> string) list"

type_synonym tls_opt = "tls_config \<Rightarrow> tls_config"

record webhook_server_options =
  ws_tls_opts :: "tls_opt list"
  ws_cert_dir :: string
  ws_cert_name :: string
  ws_key_name :: string

datatype filter_provider = NoFilter | WithAuthenticationAndAuthorization

record metrics_server_options =
  ms_bind_address :: string
  ms_secure_serving :: bool
  ms_tls_opts :: "tls_opt list"
  ms_filter_provider :: filter_provider
  ms_cert_dir :: string
  ms_cert_name :: string
  ms_key_name :: string

record manager_options =
  mo_metrics :: metrics_server_options
  mo_webhook_server :: webhook_server_options
  mo_probe_address :: string
  mo_leader_election :: bool
  mo_leader_election_id :: string

definition disable_http2 :: tls_opt where
  "disable_http2 c = c\<lparr>tls_next_protos := [''http/1.1'']\<rparr>"

definition tls_opts :: "flags \<Rightarrow> tls_opt list" where
  "tls_opts f = (if \<not> fl_enable_http2 f then [disable_http2] else [])"

definition webhook_server_opts :: "flags \<Rightarrow> webhook_server_options" where
  "webhook_server_opts f =
     (let o1 = \<lparr>ws_tls_opts = tls_opts f, ws_cert_dir = [], ws_cert_name = [], ws_key_name = []\<rparr> in
      if length (fl_webhook_cert_path f) > 0
      then o1\<lparr>ws_cert_dir := fl_webhook_cert_path f, ws_cert_name := fl_webhook_cert_name f,
              ws_key_name := fl_webhook_cert_key f\<rparr>
      else o1)"

definition metrics_server_opts :: "flags \<Rightarrow> metrics_server_options" where
  "metrics_server_opts f =
     (let o1 = \<lparr>ms_bind_address = fl_metrics_addr f, ms_secure_serving = fl_secure_metrics f,
                ms_tls_opts = tls_opts f, ms_filter_provider = NoFilter,
                ms_cert_dir = [], ms_cert_name = [], ms_key_name = []\<rparr>;
          o2 = (if fl_secure_metrics f
                then o1\<lparr>ms_filter_provider := WithAuthenticationAndAuthorization\<rparr> else o1)
      in if length (fl_metrics_cert_path f) > 0
         then o2\<lparr>ms_cert_dir := fl_metrics_cert_path f, ms_cert_name := fl_metrics_cert_name f,
                 ms_key_name := fl_metrics_cert_key f\<rparr>
         else o2)"

definition manager_opts :: "flags \<Rightarrow> manager_options" where
  "manager_opts f =
     \<lparr>mo_metrics = metrics_server_opts f, mo_webhook_server = webhook_server_opts f,
      mo_probe_address = fl_probe_addr f, mo_leader_election = fl_leader_election f,
      mo_leader_election_id = ''d2752273.taskrun.io''\<rparr>"

section \<open>Registration\<close>

datatype group_version = GroupVersion (gv_group: string) (gv_version: string)

definition scheme_group_version :: group_version where
  "scheme_group_version = GroupVersion ''taskrun.io'' ''v1alpha1''"

definition register_task_run :: "string list" where
  "register_task_run = [''TaskRun'', ''TaskRunList'']"

definition register_step_definition :: "string list" where
  "register_step_definition = [''StepDefinition'', ''StepDefinitionList'']"

definition register_cluster_step_definition :: "string list" where
  "register_cluster_step_definition = [''ClusterStepDefinition'', ''ClusterStepDefinitionList'']"

definition api_types :: "string list" where
  \<comment> \<open>what the \<open>init\<close> functions of the package, in the order of its files, give \<open>SchemeBuilder\<close>\<close>
  "api_types = register_cluster_step_definition @ register_step_definition @ register_task_run"

record controller_registration =
  cr_name :: string
  cr_for :: string
  cr_owns :: "string list"

definition setup_with_manager :: controller_registration where
  "setup_with_manager =
     \<lparr>cr_name = ''taskrun'', cr_for = ''TaskRun'', cr_owns = [''Job'', ''CronJob'']\<rparr>"

section \<open>The admission webhook\<close>

type_synonym admission = "string list \<times> string option"

record validator =
  va_create :: "task_run \<Rightarrow> admission"
  va_update :: "task_run \<Rightarrow> task_run \<Rightarrow> admission"
  va_delete :: "task_run \<Rightarrow> admission"

definition validate_create :: "task_run \<Rightarrow> admission" where
  "validate_create obj = ([], None)"

definition validate_update :: "task_run \<Rightarrow> task_run \<Rightarrow> admission" where
  "validate_update oldObj newObj = ([], None)"

definition validate_delete :: "task_run \<Rightarrow> admission" where
  "validate_delete obj = ([], None)"

record webhook_registration =
  wr_for :: string
  wr_validator :: validator

definition setup_task_run_webhook :: webhook_registration where
  "setup_task_run_webhook =
     \<lparr>wr_for = ''TaskRun'',
      wr_validator = \<lparr>va_create = validate_create, va_update = validate_update, va_delete = validate_delete\<rparr>\<rparr>"

section \<open>main\<close>

datatype setup_action =
    RegisterBuiltinTypes
  | RegisterTypes group_version "string list"
  | NewWebhookServer webhook_server_options
  | GetConfig
  | NewManager manager_options
  | NewClientset
  | SetupController controller_registration
  | SetupWebhook webhook_registration
  | AddHealthzCheck string
  | AddReadyzCheck string
  | StartManager

datatype outcome = Finished | Exit nat | Panic string

record 'w env =
  en_args :: "string list"
  en_foreign :: foreign_flags
  en_getenv :: "string \<Rightarrow> string"
  en_do :: "setup_action \<Rightarrow> 'w \<Rightarrow> string option \<times> 'w"

record 'w startup =
  su_world :: 'w
  su_log :: "setup_action list"

definition attempt :: "'w env \<Rightarrow> setup_action \<Rightarrow> ('w startup, string option) state" where
  "attempt E a = State (\<lambda>s. case en_do E a (su_world s) of
     (r, w) \<Rightarrow> (r, s\<lparr>su_world := w, su_log := su_log s @ [a]\<rparr>))"

abbreviation or_exit :: "('w startup, string option) state \<Rightarrow> ('w startup, outcome) state \<Rightarrow> ('w startup, outcome) state" where
  \<comment> \<open>\<open>if err != nil { os.Exit(1) }\<close>\<close>
  "or_exit m k \<equiv>
     State_Monad.bind m (\<lambda>r. case r of Some err \<Rightarrow> State_Monad.return (Exit 1) | None \<Rightarrow> k)"

abbreviation or_panic :: "('w startup, string option) state \<Rightarrow> ('w startup, outcome) state \<Rightarrow> ('w startup, outcome) state" where
  \<comment> \<open>\<open>utilruntime.Must\<close>\<close>
  "or_panic m k \<equiv>
     State_Monad.bind m (\<lambda>r. case r of Some err \<Rightarrow> State_Monad.return (Panic err) | None \<Rightarrow> k)"

definition run_manager :: "'w env \<Rightarrow> ('w startup, outcome) state" where
  "run_manager E =
     or_exit (attempt E (AddHealthzCheck ''healthz''))
    (or_exit (attempt E (AddReadyzCheck ''readyz''))
    (or_exit (attempt E StartManager)
    (State_Monad.return Finished)))"

definition setup_manager :: "'w env \<Rightarrow> flags \<Rightarrow> ('w startup, outcome) state" where
  "setup_manager E f =
     do { _ \<leftarrow> attempt E (NewWebhookServer (webhook_server_opts f));
          or_exit (attempt E GetConfig)
         (or_exit (attempt E (NewManager (manager_opts f)))
         (or_exit (attempt E NewClientset)
         (or_exit (attempt E (SetupController setup_with_manager))
         (if en_getenv E ''ENABLE_WEBHOOKS'' \<noteq> ''false'' then
            or_exit (attempt E (SetupWebhook setup_task_run_webhook)) (run_manager E)
          else run_manager E)))) }"

definition main :: "'w env \<Rightarrow> ('w startup, outcome) state" where
  "main E =
     (case parse_args (en_foreign E) (en_args E) default_flags of
        Inl HelpRequested \<Rightarrow> State_Monad.return (Exit 0)
      | Inl _ \<Rightarrow> State_Monad.return (Exit 2)
      | Inr f \<Rightarrow> setup_manager E f)"

definition program :: "'w env \<Rightarrow> ('w startup, outcome) state" where
  \<comment> \<open>\<open>init\<close> and \<open>main\<close>\<close>
  "program E =
     or_panic (attempt E RegisterBuiltinTypes)
    (or_panic (attempt E (RegisterTypes scheme_group_version api_types))
    (main E))"

section \<open>The set-up as a plan\<close>

definition setup_plan :: "'w env \<Rightarrow> flags \<Rightarrow> setup_action list" where
  "setup_plan E f =
     [NewWebhookServer (webhook_server_opts f), GetConfig, NewManager (manager_opts f), NewClientset,
      SetupController setup_with_manager]
     @ (if en_getenv E ''ENABLE_WEBHOOKS'' = ''false'' then [] else [SetupWebhook setup_task_run_webhook])
     @ [AddHealthzCheck ''healthz'', AddReadyzCheck ''readyz'', StartManager]"

fun cannot_fail :: "setup_action \<Rightarrow> bool" where
  "cannot_fail (NewWebhookServer ws) = True"
| "cannot_fail _ = False"

fun run_plan :: "'w env \<Rightarrow> setup_action list \<Rightarrow> ('w startup, outcome) state" where
  "run_plan E [] = State_Monad.return Finished"
| "run_plan E (a # as) =
     do { r \<leftarrow> attempt E a;
          if r = None \<or> cannot_fail a then run_plan E as else State_Monad.return (Exit 1) }"

lemma run_attempt:
  "run_state (attempt E a) s =
     (case en_do E a (su_world s) of (r, w) \<Rightarrow> (r, s\<lparr>su_world := w, su_log := su_log s @ [a]\<rparr>))"
  by (simp add: attempt_def)

lemma or_exit_if:
  "case_option k (\<lambda>err. m) = (\<lambda>r. if r = None then k else m)"
  by (simp add: fun_eq_iff split: option.split)

lemma setup_runs_plan: "setup_manager E f = run_plan E (setup_plan E f)"
  by (simp add: setup_manager_def setup_plan_def run_manager_def or_exit_if cong: if_cong)

text \<open>
  The specification of a start. \<open>attempted E as w ds e w'\<close>: the actions \<open>as\<close> are attempted one
  after the other, each in the world the one before it left; \<open>ds\<close> are the ones attempted, \<open>e\<close> is
  the answer of the first that failed, which is the last one attempted, and \<open>w'\<close> is the world at
  the end. The constructor of the webhook server has no error to answer with.
\<close>

inductive attempted ::
  "'w env \<Rightarrow> setup_action list \<Rightarrow> 'w \<Rightarrow> setup_action list \<Rightarrow> string option \<Rightarrow> 'w \<Rightarrow> bool"
  for E :: "'w env" where
  all_attempted: "attempted E [] w [] None w"
| goes_on: "en_do E a w = (x, w1) \<Longrightarrow> x = None \<or> cannot_fail a \<Longrightarrow> attempted E as w1 ds e w' \<Longrightarrow>
    attempted E (a # as) w (a # ds) e w'"
| stops: "en_do E a w = (Some err, w1) \<Longrightarrow> \<not> cannot_fail a \<Longrightarrow>
    attempted E (a # as) w [a] (Some err) w1"

inductive_simps attempted_Nil [simp]: "attempted E [] w ds e w'"
inductive_simps attempted_Cons: "attempted E (a # as) w ds e w'"

lemma attempted_prefix: "attempted E as w ds e w' \<Longrightarrow> \<exists>n. ds = take n as"
proof (induction rule: attempted.induct)
  case (goes_on a w x w1 as ds e w')
  then obtain n where "ds = take n as" by blast
  then show ?case by (intro exI [of _ "Suc n"]) simp
next
  case (stops a w err w1 as)
  then show ?case by (intro exI [of _ 1]) simp
qed auto

lemma attempted_all: "attempted E as w ds e w' \<Longrightarrow> e = None \<Longrightarrow> ds = as"
  by (induction rule: attempted.induct) auto

lemma attempted_last:
  "attempted E (as @ [a]) w ds e w' \<Longrightarrow> a \<notin> set as \<Longrightarrow> a \<in> set ds \<longleftrightarrow> ds = as @ [a]"
proof (induction as arbitrary: w ds)
  case (Cons b as)
  then show ?case by (auto simp: attempted_Cons)
qed (auto simp: attempted_Cons)

lemma run_plan_attempted:
  "run_state (run_plan E as) s = (r, s') \<Longrightarrow>
     \<exists>ds e. attempted E as (su_world s) ds e (su_world s') \<and> su_log s' = su_log s @ ds
       \<and> r = (if e = None then Finished else Exit 1)"
proof (induction as arbitrary: s)
  case Nil
  then show ?case by auto
next
  case (Cons a as)
  obtain x w where x: "en_do E a (su_world s) = (x, w)" by (cases "en_do E a (su_world s)")
  show ?case
  proof (cases "x = None \<or> cannot_fail a")
    case True
    with Cons.prems x have "run_state (run_plan E as) (s\<lparr>su_world := w, su_log := su_log s @ [a]\<rparr>) = (r, s')"
      by (auto simp: run_attempt)
    from Cons.IH [OF this] obtain ds e where "attempted E as w ds e (su_world s')"
        "su_log s' = su_log s @ a # ds" "r = (if e = None then Finished else Exit 1)"
      by auto
    with goes_on [OF x True] show ?thesis by blast
  next
    case False
    then obtain err where "x = Some err" "\<not> cannot_fail a" by auto
    with Cons.prems x stops [of E a "su_world s" err w] show ?thesis
      by (intro exI [of _ "[a]"] exI [of _ "Some err"]) (auto simp: run_attempt)
  qed
qed

abbreviation registrations :: "setup_action list" where
  "registrations \<equiv> [RegisterBuiltinTypes, RegisterTypes scheme_group_version api_types]"

lemma program_cases:
  assumes "run_state (program E) s = (r, s')"
  obtains (panic) err ds where "attempted E registrations (su_world s) ds (Some err) (su_world s')"
      and "r = Panic err" and "su_log s' = su_log s @ ds"
  | (flags) err where "attempted E registrations (su_world s) registrations None (su_world s')"
      and "parse_args (en_foreign E) (en_args E) default_flags = Inl err"
      and "r = Exit (if err = HelpRequested then 0 else 2)" and "su_log s' = su_log s @ registrations"
  | (plan) f w ds e where "attempted E registrations (su_world s) registrations None w"
      and "parse_args (en_foreign E) (en_args E) default_flags = Inr f"
      and "attempted E (setup_plan E f) w ds e (su_world s')"
      and "su_log s' = su_log s @ registrations @ ds" and "r = (if e = None then Finished else Exit 1)"
proof -
  obtain x w where x: "en_do E RegisterBuiltinTypes (su_world s) = (x, w)"
    by (cases "en_do E RegisterBuiltinTypes (su_world s)")
  obtain y w' where y: "en_do E (RegisterTypes scheme_group_version api_types) w = (y, w')"
    by (cases "en_do E (RegisterTypes scheme_group_version api_types) w")
  show thesis
  proof (cases x)
    case (Some err)
    with assms x show ?thesis
      by (intro panic [of "[RegisterBuiltinTypes]" err]) (auto simp: program_def run_attempt attempted_Cons)
  next
    case x_none: None
    show ?thesis
    proof (cases y)
      case (Some err)
      with assms x x_none y show ?thesis
        by (intro panic [of registrations err]) (auto simp: program_def run_attempt attempted_Cons)
    next
      case None
      let ?s = "s\<lparr>su_world := w', su_log := su_log s @ registrations\<rparr>"
      have m: "run_state (main E) ?s = (r, s')"
        using assms x x_none y None by (simp add: program_def run_attempt)
      have registered: "attempted E registrations (su_world s) registrations None w'"
        using x x_none y None by (auto simp: attempted_Cons)
      show ?thesis
      proof (cases "parse_args (en_foreign E) (en_args E) default_flags")
        case (Inl err)
        with m registered show ?thesis
          by (intro flags [of err]) (auto simp: main_def split: flag_error.splits)
      next
        case (Inr f)
        with m have "run_state (run_plan E (setup_plan E f)) ?s = (r, s')"
          by (simp add: main_def setup_runs_plan)
        from run_plan_attempted [OF this] registered Inr show ?thesis
          by (auto intro: plan)
      qed
    qed
  qed
qed

section \<open>Flags that are not set keep their defaults\<close>

definition names_flag :: "string \<Rightarrow> string \<Rightarrow> bool" where
  "names_flag name a = (case flag_text a of None \<Rightarrow> False | Some t \<Rightarrow> flag_name t = name)"

lemma set_flag_http2:
  "set_flag F name v f = Some f' \<Longrightarrow> name \<noteq> ''enable-http2'' \<Longrightarrow> fl_enable_http2 f' = fl_enable_http2 f"
  by (auto simp: set_flag_def bool_flags_def string_flags_def split: if_splits option.splits)

lemma set_flag_secure:
  "set_flag F name v f = Some f' \<Longrightarrow> name \<noteq> ''metrics-secure'' \<Longrightarrow> fl_secure_metrics f' = fl_secure_metrics f"
  by (auto simp: set_flag_def bool_flags_def string_flags_def split: if_splits option.splits)

lemma parse_args_keeps:
  assumes "\<And>G name v f f'. set_flag G name v f = Some f' \<Longrightarrow> name \<noteq> n \<Longrightarrow> g f' = g f"
  shows "parse_args F args f = Inr f' \<Longrightarrow> list_all (\<lambda>a. \<not> names_flag n a) args \<Longrightarrow> g f' = g f"
proof (induction F args f rule: parse_args.induct)
  case (2 F s args f)
  show ?case
  proof (cases "flag_text s")
    case None
    with "2.prems" show ?thesis by simp
  next
    case (Some t)
    let ?n = "flag_name t"
    have t: "t \<noteq> []" "hd t \<noteq> dash" "hd t \<noteq> CHR ''=''" and n: "?n \<noteq> n"
      using "2.prems" Some by (auto simp: names_flag_def split: if_splits)
    then have bad: "\<not> (t = [] \<or> hd t = dash \<or> hd t = CHR ''='')" by simp
    obtain b where b: "is_bool_flag F ?n = Some b"
      using "2.prems"(1) Some bad by (cases "is_bool_flag F ?n") (simp_all add: Let_def)
    show ?thesis
    proof (cases b)
      case True
      with "2.prems" Some bad b obtain f1 v where f1: "set_flag F ?n v f = Some f1" "parse_args F args f1 = Inr f'"
          and v: "v = (case flag_value t of Some v \<Rightarrow> v | None \<Rightarrow> ''true'')"
        by (auto simp: Let_def split: option.splits)
      then show ?thesis
        using "2.IH"(1) [OF Some bad refl b _ v f1(1) f1(2)] True "2.prems"(2) assms [OF f1(1) n] by simp
    next
      case False
      show ?thesis
      proof (cases "flag_value t")
        case (Some v)
        with "2.prems" \<open>flag_text s = Some t\<close> bad b False obtain f1
          where f1: "set_flag F ?n v f = Some f1" "parse_args F args f1 = Inr f'"
          by (auto simp: Let_def split: option.splits)
        then show ?thesis
          using "2.IH"(3) [OF \<open>flag_text s = Some t\<close> bad refl b _ Some f1(1) f1(2)] False "2.prems"(2) assms [OF f1(1) n] by simp
      next
        case None
        with "2.prems" \<open>flag_text s = Some t\<close> bad b False obtain v rest f1
          where f1: "args = v # rest" "set_flag F ?n v f = Some f1" "parse_args F rest f1 = Inr f'"
          by (auto simp: Let_def split: option.splits list.splits)
        then show ?thesis
          using "2.IH"(2) [OF \<open>flag_text s = Some t\<close> bad refl b _ None f1(1) f1(2) f1(3)] False "2.prems"(2) assms [OF f1(2) n] by simp
      qed
    qed
  qed
qed simp

section \<open>Properties\<close>

text \<open>A world in which everything succeeds.\<close>

definition no_foreign_flags :: foreign_flags where
  "no_foreign_flags = \<lparr>ff_boolean = (\<lambda>_. None), ff_accepts = (\<lambda>_ _. False)\<rparr>"

definition example_env :: "string list \<Rightarrow> unit env" where
  "example_env args =
     \<lparr>en_args = args, en_foreign = no_foreign_flags, en_getenv = (\<lambda>_. []), en_do = (\<lambda>a w. (None, w))\<rparr>"

definition empty_setup :: "unit startup" where
  "empty_setup = \<lparr>su_world = (), su_log = []\<rparr>"

lemma manager_after_plan:
  "attempted E (setup_plan E f) w ds e w' \<Longrightarrow> StartManager \<in> set ds \<longleftrightarrow> ds = setup_plan E f"
  using attempted_last [of E "butlast (setup_plan E f)" StartManager w ds e w']
  by (simp add: setup_plan_def butlast_append)

text \<open>C22: How a start ends. First the types are registered; if that fails the process panics with the
  error. Then the flags are parsed; help ends it with code 0, any other flag error with code 2, and
  nothing more is attempted. Then come, in this order, the webhook server, the configuration, the
  manager, the clientset, the controller, the webhook unless ENABLE_WEBHOOKS is \<open>false\<close>, the two
  probes and the start of the manager, each only once the one before it has succeeded; the first
  failure ends the process with code 1 and is the last thing attempted. The manager is started
  exactly when all the rest was attempted before it, and the process finishes normally exactly
  when nothing failed.\<close>

theorem manager_started_last:
  assumes run: "run_state (program E) s = (r, s')"
  shows "\<exists>ds e w. attempted E registrations (su_world s) ds e w
    \<and> (case e of
         Some err \<Rightarrow> r = Panic err \<and> su_log s' = su_log s @ ds \<and> su_world s' = w
       | None \<Rightarrow>
           (case parse_args (en_foreign E) (en_args E) default_flags of
              Inl err \<Rightarrow> r = Exit (if err = HelpRequested then 0 else 2)
                \<and> su_log s' = su_log s @ registrations \<and> su_world s' = w
            | Inr f \<Rightarrow> \<exists>as e2. attempted E (setup_plan E f) w as e2 (su_world s')
                \<and> su_log s' = su_log s @ registrations @ as
                \<and> (StartManager \<in> set as \<longleftrightarrow> as = setup_plan E f)
                \<and> r = (if e2 = None then Finished else Exit 1)))"
  using run
proof (cases rule: program_cases)
  case (panic err ds)
  then show ?thesis by (intro exI [of _ ds] exI [of _ "Some err"]) auto
next
  case (flags err)
  then show ?thesis by (intro exI [of _ registrations] exI [of _ None]) auto
next
  case (plan f w ds e)
  then show ?thesis
    using manager_after_plan [OF plan(3)]
    by (intro exI [of _ registrations] exI [of _ None] exI [of _ w]) auto
qed

text \<open>A start whose clientset cannot be made: the process ends with code 1 right there.\<close>

definition no_clientset_env :: "unit env" where
  "no_clientset_env =
     (example_env [''--leader-elect''])\<lparr>en_do := (\<lambda>a w. (if a = NewClientset then Some ''refused'' else None, w))\<rparr>"

theorem manager_started_last_witness:
  "\<exists>f. fst (run_state (program no_clientset_env) empty_setup) = Exit 1
     \<and> su_log (snd (run_state (program no_clientset_env) empty_setup))
         = registrations @ [NewWebhookServer (webhook_server_opts f), GetConfig, NewManager (manager_opts f),
             NewClientset]"
proof -
  have "parse_args (en_foreign no_clientset_env) (en_args no_clientset_env) default_flags
      = Inr (default_flags\<lparr>fl_leader_election := True\<rparr>)"
    by (simp add: no_clientset_env_def example_env_def no_foreign_flags_def flag_text_def flag_name_def
        flag_value_def is_bool_flag_def set_flag_def bool_flags_def string_flags_def dash_def parse_bool_def)
  moreover have "en_do no_clientset_env a w = (if a = NewClientset then Some ''refused'' else None, w)" for a w
    by (simp add: no_clientset_env_def)
  ultimately show ?thesis
    using manager_started_last [OF surjective_pairing, of no_clientset_env empty_setup]
    by (auto simp: attempted_Cons setup_plan_def empty_setup_def split: if_splits)
qed

definition served_safely :: "setup_action \<Rightarrow> bool" where
  \<comment> \<open>no HTTP/2, and authorization in front of metrics over HTTPS\<close>
  "served_safely a =
     (case a of
        NewWebhookServer o1 \<Rightarrow> (\<forall>c. tls_next_protos (fold (\<lambda>g. g) (ws_tls_opts o1) c) = [''http/1.1''])
      | NewManager m \<Rightarrow>
          (\<forall>c. tls_next_protos (fold (\<lambda>g. g) (ms_tls_opts (mo_metrics m)) c) = [''http/1.1''])
          \<and> (ms_secure_serving (mo_metrics m) \<longleftrightarrow>
               ms_filter_provider (mo_metrics m) = WithAuthenticationAndAuthorization)
      | _ \<Rightarrow> True)"

lemma plan_served_safely: "\<not> fl_enable_http2 f \<Longrightarrow> list_all served_safely (setup_plan E f)"
  by (simp add: setup_plan_def served_safely_def webhook_server_opts_def metrics_server_opts_def
      manager_opts_def tls_opts_def disable_http2_def Let_def)

text \<open>C30: Unless an argument names the flag enable-http2, neither server the manager runs speaks
  HTTP/2, and the metrics are served over HTTPS exactly with authentication and authorization.\<close>

theorem http2_off_unless_asked:
  assumes "run_state (program E) s = (r, s')" and "su_log s = []"
    and "list_all (\<lambda>a. \<not> names_flag ''enable-http2'' a) (en_args E)"
  shows "list_all served_safely (su_log s')"
proof (rule program_cases [OF assms(1)])
  have reg: "list_all served_safely registrations"
    by (simp add: served_safely_def)
  have prefix: "list_all served_safely ds" if "attempted E as w ds e w'" "list_all served_safely as" for as w ds e w'
    using attempted_prefix [OF that(1)] that(2) by (auto simp: list_all_iff dest: in_set_takeD)
  show ?thesis if "attempted E registrations (su_world s) ds (Some err) (su_world s')" "su_log s' = su_log s @ ds"
    for ds err
    using that(2) assms(2) prefix [OF that(1) reg] by simp
  show ?thesis if "su_log s' = su_log s @ registrations"
    using that assms(2) reg by simp
  show ?thesis if f: "parse_args (en_foreign E) (en_args E) default_flags = Inr f"
      and plan: "attempted E (setup_plan E f) w ds e (su_world s')"
      and log: "su_log s' = su_log s @ registrations @ ds" for f w ds e
  proof -
    have "fl_enable_http2 f = fl_enable_http2 default_flags"
      by (rule parse_args_keeps [OF set_flag_http2 f assms(3)])
    then have "list_all served_safely (setup_plan E f)"
      by (intro plan_served_safely) (simp add: default_flags_def)
    with log assms(2) reg prefix [OF plan] show ?thesis by simp
  qed
qed

theorem http2_off_unless_asked_witness:
  "list_all served_safely (su_log (snd (run_state (program (example_env [''--metrics-secure=false''])) empty_setup)))"
proof -
  obtain r s' where run: "run_state (program (example_env [''--metrics-secure=false''])) empty_setup = (r, s')"
    by (cases "run_state (program (example_env [''--metrics-secure=false''])) empty_setup")
  have "list_all (\<lambda>a. \<not> names_flag ''enable-http2'' a) (en_args (example_env [''--metrics-secure=false'']))"
    by code_simp
  with http2_off_unless_asked [OF run] run show ?thesis
    by (simp add: empty_setup_def)
qed

end
