(* ===== verification/Metrics.thy ===== *)
theory Metrics
  imports Client
begin

text \<open>
  The Prometheus vectors of \<open>internal/metrics/metrics.go\<close> and their registration. An
  observation of the model (\<open>metric\<close> in \<open>Client\<close>) is a sample of one of them.
\<close>

datatype metric_kind = CounterVec | HistogramVec

record metric_vec =
  mv_kind :: metric_kind
  mv_name :: string
  mv_help :: string
  mv_default_buckets :: bool
  mv_labels :: "string list"

definition task_run_total :: metric_vec where
  "task_run_total =
     \<lparr>mv_kind = CounterVec, mv_name = ''taskrun_total'',
      mv_help = ''Total number of TaskRun executions by final phase'',
      mv_default_buckets = False, mv_labels = [''namespace'', ''phase'']\<rparr>"

definition task_run_duration :: metric_vec where
  "task_run_duration =
     \<lparr>mv_kind = HistogramVec, mv_name = ''taskrun_duration_seconds'',
      mv_help = ''Duration of TaskRun executions in seconds'',
      mv_default_buckets = True, mv_labels = [''namespace'']\<rparr>"

definition step_duration :: metric_vec where
  "step_duration =
     \<lparr>mv_kind = HistogramVec, mv_name = ''taskrun_step_duration_seconds'',
      mv_help = ''Duration of individual step executions in seconds'',
      mv_default_buckets = True, mv_labels = [''namespace'', ''action'']\<rparr>"

definition step_total :: metric_vec where
  "step_total =
     \<lparr>mv_kind = CounterVec, mv_name = ''taskrun_step_total'',
      mv_help = ''Total number of step executions by action and phase'',
      mv_default_buckets = False, mv_labels = [''namespace'', ''action'', ''phase'']\<rparr>"

definition registered :: "metric_vec list" where
  "registered = [task_run_total, task_run_duration, step_duration, step_total]"

text \<open>\<open>MustRegister\<close> panics on a name registered before, \<open>WithLabelValues\<close> on a wrong number
  of values: neither happens.\<close>

fun sample :: "metric \<Rightarrow> metric_vec \<times> string list" where
  "sample (TaskRunTotal ns phase) = (task_run_total, [ns, phase])"
| "sample (TaskRunDuration ns d) = (task_run_duration, [ns])"
| "sample (StepTotal ns action phase) = (step_total, [ns, action, phase])"
| "sample (StepDuration ns action d) = (step_duration, [ns, action])"

lemma registered_names: "distinct (map mv_name registered)"
  by (simp add: registered_def task_run_total_def task_run_duration_def step_duration_def step_total_def)

lemma sample_labels:
  "fst (sample m) \<in> set registered \<and> length (snd (sample m)) = length (mv_labels (fst (sample m)))"
  by (cases m) (simp_all add: registered_def task_run_total_def task_run_duration_def
      step_duration_def step_total_def)

end
