(* ===== verification/Spec2Isabelle.thy ===== *)
theory Spec2Isabelle
  imports WorkQueue Conflicts Reporting Repetition RunnerData DeepCopy Startup Metrics
begin

text \<open>
  A verification development for the TaskRun operator, a Kubernetes controller in Go. A
  TaskRun is a list of named steps; each step names an action, which a StepDefinition of the
  namespace or a ClusterStepDefinition describes. Steps whose definition has a runner image
  (runner steps) run one after another in the pod of one Job, or of a CronJob when the TaskRun
  has a schedule; the others (API-native steps) are executed by the controller itself once the
  Job has succeeded, with references to outputs of earlier steps in their parameters. The
  status of the TaskRun records a phase for the whole and for each step.

  \<^bold>\<open>Parts of the program and their theories.\<close> Definitions carry the names of the Go functions
  they translate, in Isabelle's spelling.

  \<^item> \<open>api/v1alpha1/*_types.go\<close>: theory \<open>ApiTypes\<close>. A struct is a record, a string type with
    constants a datatype with one more constructor for any other string, a pointer an option,
    a map an optional association list whose order is that of one traversal.
  \<^item> \<open>api/v1alpha1/zz_generated.deepcopy.go\<close>: theories \<open>GoHeap\<close> (cells, addresses, allocation,
    what a reference denotes) and \<open>DeepCopy\<close> (every \<open>DeepCopyInto\<close>, \<open>DeepCopy\<close> and
    \<open>DeepCopyObject\<close>). Here and only here pointers, slices and maps are references into a
    heap, since sharing is what these functions are about; \<open>view_task_run\<close> and its siblings
    give the record of \<open>ApiTypes\<close> that a reference denotes.
  \<^item> \<open>internal/controller/template.go\<close>: theory \<open>Template\<close>, with the regular expression, its
    matcher and the resolution of parameters.
  \<^item> \<open>internal/controller/resolver.go\<close>: theory \<open>Resolver\<close>; the cache is the state of the loop.
  \<^item> \<open>internal/controller/validation.go\<close> and \<open>PartitionSteps\<close>: theory \<open>Validation\<close>.
  \<^item> \<open>internal/controller/status.go\<close>: theory \<open>Status\<close>, on the TaskRun in memory.
  \<^item> \<open>internal/controller/jobbuilder.go\<close>: theory \<open>JobBuilder\<close>.
  \<^item> \<open>internal/controller/executor.go\<close>: theory \<open>Executor\<close>, the dispatcher and six actions.
  \<^item> \<open>internal/controller/taskrun_controller.go\<close>: theory \<open>Controller\<close>, every method of the
    reconciler; \<open>SetupWithManager\<close> is in \<open>Startup\<close>.
  \<^item> \<open>internal/metrics/metrics.go\<close>: theory \<open>Metrics\<close>, the vectors and their registration; the
    observations are a list in the controller's state.
  \<^item> \<open>cmd/main.go\<close>, \<open>internal/webhook/v1alpha1/taskrun_webhook.go\<close>,
    \<open>api/v1alpha1/groupversion_info.go\<close>: theory \<open>Startup\<close>, flags, options and the sequence of
    set-up actions, the webhook's validators and the registered types.

  \<^bold>\<open>State and effects.\<close> The controller's code is a computation in the state monad over a
  record (theory \<open>Client\<close>): the world outside, the log of requests sent, the observed metrics
  and the TaskRun in memory. The Kubernetes API, the clock and the context are a record of
  functions on an unknown world, so an answer may be anything and may come with any change of
  the world: failures, latency and concurrent writers are covered. Every request, status write
  and early return is in the place it has in the code; an error is the left side of a sum or an
  optional text; a nil pointer dereferenced is the value \<open>Panicked\<close> (or \<open>None\<close> of a builder).
  \<open>wp\<close> is the weakest precondition of such a computation, and \<open>sends P\<close> bounds what it sends.
  \<open>External\<close> holds the pure functions of other packages as parameters, \<open>GoStrings\<close>, \<open>GoTime\<close>
  and \<open>GoJson\<close> the parts of the standard library the source uses, \<open>KubeTypes\<close> the objects of
  Kubernetes as far as it reads or writes them, and \<open>ExampleCluster\<close> a concrete API server for
  the examples.

  \<^bold>\<open>Groups of lemmas.\<close>

  \<^item> Components: \<open>Template\<close> (the matcher accepts exactly the regular expression; resolution
    replaces each reference once; it does not depend on the order in which Go visits a map),
    \<open>Resolver\<close> (which definition wins, what is unresolvable, each read once), \<open>Validation\<close> (the
    ordering check against the partition), \<open>Status\<close> (tables of step statuses, locale
    \<open>keyed_table\<close>; phases, conditions, metrics), \<open>JobBuilder\<close> (order, names, mounts), \<open>Executor\<close>
    (one object per action, locale \<open>step_action\<close>; read after write; clamped waits).
  \<^item> Runs of steps: \<open>StepRun\<close> (the API-native phase implements the evaluation relation
    \<open>native_run\<close>: which actions are executed in which world, what they leave in the step
    statuses, where the run stops; \<open>fail_fast\<close> is what it says of the statuses alone),
    \<open>JobFlow\<close> (the Job, its parameters, outputs, logs and outcome; the CronJob), \<open>RunnerData\<close>
    (the data that crosses the border to the pods, there and back).
  \<^item> One call of \<open>Reconcile\<close>: \<open>Lifecycle\<close> (the contract \<open>step_handler\<close> of the three handlers;
    Succeeded is truthful, phases advance, no panic), \<open>Steps\<close> (the call as a sequence of
    elementary steps, an inductive relation; nothing runs unvalidated; statuses are typed by rule
    induction over it), \<open>Progress\<close> (a bound on the requests; a call that is done has an accepted
    terminal status or the CronJob to show for it), \<open>Completion\<close>
    (with an API that takes status updates, one call starts the Job of a TaskRun that has none,
    or ends it once the Job has finished).
  \<^item> What one call leaves behind: \<open>Contracts\<close> (a contract for every function of the controller,
    proved once in the locale \<open>reconcile_contract\<close> over a relation on the requests sent and the
    metrics observed), with two interpretations: \<open>Reporting\<close> (the reason and the completion time
    of every ending, the counter of endings) and \<open>Ownership\<close> (names, labels and owners of the
    Jobs and CronJobs created).
  \<^item> Two calls side by side: \<open>Repetition\<close> (a relational calculus for the state monad; what
    \<open>Reconcile\<close> sends does not depend on the phases recorded for the steps).
  \<^item> Many calls: \<open>ControlLoop\<close> (an inductive relation of calls and of everything done by others
    in between, over the versions the API server keeps of a TaskRun), \<open>WorkQueue\<close> (the calls the
    work queue makes for one TaskRun, with enough fuel for its whole life; \<open>Stability\<close> has the
    assertions that every elementary step keeps), \<open>Conflicts\<close> (writers of the same Secret,
    ConfigMap or workload).
  \<^item> Around the controller: \<open>DeepCopy\<close> (locale \<open>deep_copier\<close>: equal value, new memory, nothing
    else changed), \<open>Startup\<close> (how every start ends, by the relation \<open>attempted\<close> on the set-up
    actions and their answers; HTTP/2 off), \<open>Metrics\<close>.

  \<^bold>\<open>Hypotheses.\<close> What theorems assume of code outside the repository is a named predicate that
  states its documented behaviour, and an example satisfies it: \<open>sets_owner\<close>, \<open>sets_conditions\<close>
  (two helpers of apimachinery and controller-runtime), \<open>answers_by_name\<close>, \<open>stores_secrets\<close>,
  \<open>echoes_phase\<close>, \<open>serves_typed\<close> (the API answers with the object asked for, as it was sent,
  within the CRD), \<open>keeps_name\<close> (a status update answers with the TaskRun that was sent),
  \<open>takes_updates\<close>, \<open>creates_jobs\<close>, \<open>job_missing\<close>, \<open>job_finished\<close>, \<open>keeps_run\<close> and \<open>runs_jobs\<close>
  (nothing is in the way of a TaskRun, and its Job finishes in time), \<open>owner_by_meta\<close> (an owner
  reference depends on the metadata of the owner), \<open>optimistic\<close> (optimistic concurrency on an
  object with many writers), \<open>versioned_store\<close> (the same of a TaskRun, on a status subresource
  that only the controller writes; reads may be stale, updates may fail after they were
  applied), \<open>copies_deeply\<close> (the deep copies of apimachinery's own structs).

  \<^bold>\<open>Bounds and fuel.\<close> Of the code only the JSON parser has fuel, one more than the length of its
  input; \<open>JsonFacts\<close> proves that more changes nothing (\<open>parse_json_fuel\<close>). The number of calls is
  the fuel of \<open>work_queue\<close>: two more than the rounds a Job takes are enough (\<open>whole_run_ends\<close>),
  and more change nothing (\<open>work_queue_more\<close>). Every other recursion is structural or has a termination
  proof. A \<open>time.Duration\<close> is an integer whose operations wrap or saturate at 64 bits as Go's
  do, the counters of a Job's status are 32-bit words. The limit of Go's decoder on nesting,
  10000, is the decoder's.

  \<^bold>\<open>Not modelled.\<close> Log messages. \<open>TypeMeta\<close> outside the deep copies, since nothing reads it, and
  the fields of \<open>ObjectMeta\<close> and of Kubernetes objects that the source only passes through (one
  opaque field). Sharing between the objects of one call outside the deep copies: decoded maps
  are not aliased by the code that changes them. What controller-runtime, client-go, zap and
  Prometheus do inside (the back-off of the work queue, leader election, caches, TLS, bucket
  boundaries). The shell helpers of the end-to-end tests and the unit tests. The manifests and
  the Helm chart, which are YAML. The
  collector and runner images, which are not in the repository.
\<close>

end
